(* ===== verification/Quic_Prelude.thy ===== *)
theory Quic_Prelude
  imports Main "HOL-Library.Word"
begin

text \<open>
  Shared vocabulary of the development: names for the machine types of the C++ sources, the
  little-endian memory image of an integer (what \<open>memcpy\<close> copies on the x86-64 hosts the
  code is built for), and lemmas on lists, words and integer division that several components
  use.
\<close>

unbundle bit_operations_syntax

section \<open>Machine types\<close>

type_synonym u8 = "8 word"
type_synonym u16 = "16 word"
type_synonym u32 = "32 word"
type_synonym u64 = "64 word"

text \<open>
  \<open>wire_simps\<close> collects the facts that evaluate encoders and decoders on symbolic buffers;
  \<open>trunc_simps\<close> the facts on truncating integer division.
\<close>

named_theorems wire_simps
named_theorems trunc_simps

section \<open>Integers as bytes\<close>

primrec le_bytes :: "nat \<Rightarrow> nat \<Rightarrow> u8 list" where
  "le_bytes 0 v = []"
| "le_bytes (Suc n) v = word_of_nat (v mod 256) # le_bytes n (v div 256)"

primrec le_value :: "u8 list \<Rightarrow> nat" where
  "le_value [] = 0"
| "le_value (b # bs) = unat b + 256 * le_value bs"

definition be_bytes :: "nat \<Rightarrow> nat \<Rightarrow> u8 list" where
  "be_bytes n v = rev (le_bytes n v)"

definition be_value :: "u8 list \<Rightarrow> nat" where
  "be_value bs = le_value (rev bs)"

definition trunc_div :: "int \<Rightarrow> int \<Rightarrow> int" where
  "trunc_div num den =
     (let quot = int (nat \<bar>num\<bar> div nat \<bar>den\<bar>) in if (num < 0) = (den < 0) then quot else - quot)"

lemma length_le_bytes [simp, wire_simps]: "length (le_bytes n v) = n"
  by (induction n arbitrary: v) auto

lemma length_be_bytes [simp, wire_simps]: "length (be_bytes n v) = n"
  by (simp add: be_bytes_def)

lemma le_bytes_numeral [wire_simps]:
  "le_bytes (numeral k) v = word_of_nat (v mod 256) # le_bytes (pred_numeral k) (v div 256)"
  by (simp only: numeral_eq_Suc [of k] le_bytes.simps)

lemma unat_word8_mod [simp]: "unat (word_of_nat (v mod 256) :: u8) = v mod 256"
  by (simp add: unat_of_nat take_bit_eq_mod)

lemma unat_u8_less: "unat (b :: u8) < 256"
  using unsigned_less [of b] by simp

lemma le_value_bytes: "le_value (le_bytes n v) = v mod 256 ^ n"
  by (induction n arbitrary: v) (simp_all add: mod_mult2_eq)

lemma le_value_bound: "le_value bs < 256 ^ length bs"
proof (induction bs)
  case Nil
  then show ?case by simp
next
  case (Cons b bs)
  have "unat b < 256" by (rule unat_u8_less)
  with Cons.IH show ?case by simp
qed

lemma le_bytes_value: "le_bytes (length bs) (le_value bs) = bs"
proof (induction bs)
  case Nil
  then show ?case by simp
next
  case (Cons b bs)
  have "unat b < 256" by (rule unat_u8_less)
  with Cons.IH show ?case by simp
qed

lemma be_value_bytes: "be_value (be_bytes n v) = v mod 256 ^ n"
  by (simp add: be_value_def be_bytes_def le_value_bytes)

lemma be_value_bound: "be_value bs < 256 ^ length bs"
  using le_value_bound [of "rev bs"] by (simp add: be_value_def)

lemma le_bytes_mod: "le_bytes n (v mod 256 ^ n) = le_bytes n v"
proof -
  have "le_bytes n (v mod 256 ^ n) = le_bytes (length (le_bytes n v)) (le_value (le_bytes n v))"
    by (simp add: le_value_bytes)
  also have "\<dots> = le_bytes n v" by (rule le_bytes_value)
  finally show ?thesis .
qed

lemma le_bytes_swap: "le_bytes n (le_value (rev (le_bytes n v)) mod 256 ^ n) = rev (le_bytes n v)"
  using le_bytes_value [of "rev (le_bytes n v)"] by (simp add: le_bytes_mod)

lemma take_le_bytes: "m \<le> n \<Longrightarrow> take m (le_bytes n v) = le_bytes m v"
proof (induction n arbitrary: m v)
  case 0
  then show ?case by simp
next
  case (Suc n)
  then show ?case by (cases m) auto
qed

lemma le_value_append: "le_value (as @ bs) = le_value as + 256 ^ length as * le_value bs"
  by (induction as) (simp_all add: algebra_simps)

lemma le_value_zeros [simp]: "le_value (replicate n 0) = 0"
  by (induction n) auto

section \<open>Words as numbers\<close>

lemma unat_drop: "unat (drop_bit n (v :: 'a::len word)) = unat v div 2 ^ n"
proof -
  have "take_bit LENGTH('a) (unat v) = unat v" by (simp add: take_bit_nat_eq_self unsigned_less)
  then show ?thesis by (simp add: unsigned_drop_bit_eq drop_bit_eq_div [where 'a = nat])
qed

lemma unat_take: "unat (take_bit k (v :: 'a::len word)) = unat v mod 2 ^ k"
  by (simp add: unsigned_take_bit_eq take_bit_eq_mod [where 'a = nat])

lemma unat_ucast_mod: "unat (ucast (v :: 'a::len word) :: 'b::len word) = unat v mod 2 ^ LENGTH('b)"
  by (simp add: unsigned_ucast_eq take_bit_eq_mod [where 'a = nat])

lemma unat_word_of_nat: "n < 2 ^ LENGTH('a) \<Longrightarrow> unat (word_of_nat n :: 'a::len word) = n"
  by (simp add: unat_of_nat)

lemma unat_u16_less: "unat (x :: u16) < 65536"
  using unsigned_less [of x] by simp

lemma unat_u32_less: "unat (x :: u32) < 4294967296"
  using unsigned_less [of x] by simp

lemma unat_u64_less: "unat (x :: u64) < 18446744073709551616"
  using unsigned_less [of x] by simp

lemma unat_push_one: "n < LENGTH('a) \<Longrightarrow> unat (push_bit n 1 :: 'a::len word) = 2 ^ n"
proof -
  assume "n < LENGTH('a)"
  then have "(2 :: nat) ^ n < 2 ^ LENGTH('a)" by (rule power_strict_increasing) simp
  moreover have "(push_bit n 1 :: 'a word) = word_of_nat (2 ^ n)" by (simp add: push_bit_eq_mult)
  ultimately show ?thesis by (simp only: unat_of_nat mod_less)
qed

lemma word_of_nat_mod: "(word_of_nat (x mod 2 ^ LENGTH('a)) :: 'a::len word) = word_of_nat x"
  by (simp add: word_unat_eq_iff unat_of_nat)

lemma word_of_nat_byte: "(word_of_nat (x mod 256) :: u8) = word_of_nat x"
  using word_of_nat_mod [where 'a = 8, of x] by simp

section \<open>Lists\<close>

text \<open>Overwriting a part of a buffer, as \<open>memcpy(buffer + i, bs, n)\<close> does.\<close>

definition overwrite :: "nat \<Rightarrow> 'a list \<Rightarrow> 'a list \<Rightarrow> 'a list" where
  "overwrite i bs buf = take i buf @ bs @ drop (i + length bs) buf"

lemma length_overwrite [simp]:
  "i + length bs \<le> length buf \<Longrightarrow> length (overwrite i bs buf) = length buf"
  by (simp add: overwrite_def)

lemma take_overwrite: "i \<le> length buf \<Longrightarrow> take (i + length bs) (overwrite i bs buf) = take i buf @ bs"
  by (simp add: overwrite_def min_def)

lemma drop_overwrite:
  "i \<le> length buf \<Longrightarrow> drop (i + length bs) (overwrite i bs buf) = drop (i + length bs) buf"
  by (simp add: overwrite_def min_def)

lemma overwrite_append:
  assumes "i + length as + length bs \<le> length buf"
  shows "overwrite (i + length as) bs (overwrite i as buf) = overwrite i (as @ bs) buf"
  using assms by (cases as) (auto simp add: overwrite_def min_def ac_simps)

lemma overwrite_Nil [simp]: "i \<le> length buf \<Longrightarrow> overwrite i [] buf = buf"
  by (simp add: overwrite_def)

section \<open>Truncating division\<close>

lemma trunc_div_nonneg [trunc_simps]: "0 \<le> a \<Longrightarrow> 0 < b \<Longrightarrow> trunc_div a b = a div b"
  by (simp add: trunc_div_def zdiv_int)

lemma trunc_div_neg_num: "trunc_div (- a) b = - trunc_div a b"
  by (cases "a = 0") (auto simp: trunc_div_def Let_def)

lemma trunc_div_bounds: "0 \<le> a \<Longrightarrow> 0 < b \<Longrightarrow> 0 \<le> trunc_div a b \<and> trunc_div a b \<le> a"
  using zdiv_mono2 [of a 1 b] by (simp add: trunc_div_nonneg pos_imp_zdiv_nonneg_iff)

end
