(* ===== verification/Quic_Data_Writer.thy ===== *)
theory Quic_Data_Writer
  imports Quic_Prelude
begin

text \<open>
  The byte writer \<open>QuicDataWriter\<close> (quic\_data\_writer.cc): a caller-provided buffer, its
  capacity, the number of bytes written so far and the byte order. Every operation returns the
  C++ \<open>bool\<close> together with the writer after the call. \<open>appends e f bs\<close> is the
  contract of an operation under byte order \<open>e\<close>: it writes exactly \<open>bs\<close> when they
  fit, and otherwise it reports failure and leaves a prefix of \<open>bs\<close> that fits.
\<close>

section \<open>State\<close>

datatype endianness = NETWORK_BYTE_ORDER | HOST_BYTE_ORDER

record quic_data_writer =
  w_buffer :: "u8 list"
  w_capacity :: nat
  w_length :: nat
  w_endianness :: endianness

type_synonym write_op = "quic_data_writer \<Rightarrow> bool \<times> quic_data_writer"

definition QuicDataWriter :: "nat \<Rightarrow> u8 list \<Rightarrow> endianness \<Rightarrow> quic_data_writer" where
  "QuicDataWriter capacity buf endian =
     \<lparr>w_buffer = buf, w_capacity = capacity, w_length = 0, w_endianness = endian\<rparr>"

text \<open>\<open>if (!a) return false; return b;\<close>\<close>

definition and_then :: "write_op \<Rightarrow> write_op \<Rightarrow> write_op" where
  "and_then f g = (\<lambda>w. case f w of (ok, w') \<Rightarrow> if ok then g w' else (False, w'))"

definition write_nothing :: write_op where
  "write_nothing w = (True, w)"

section \<open>Byte order\<close>

definition HostToNet16 :: "u16 \<Rightarrow> u16" where
  "HostToNet16 x = word_of_nat (le_value (rev (le_bytes 2 (unat x))))"

definition HostToNet32 :: "u32 \<Rightarrow> u32" where
  "HostToNet32 x = word_of_nat (le_value (rev (le_bytes 4 (unat x))))"

definition HostToNet64 :: "u64 \<Rightarrow> u64" where
  "HostToNet64 x = word_of_nat (le_value (rev (le_bytes 8 (unat x))))"

section \<open>Operations\<close>

definition BeginWrite :: "nat \<Rightarrow> quic_data_writer \<Rightarrow> nat option" where
  "BeginWrite len w =
     (if w_length w > w_capacity w then None
      else if w_capacity w - w_length w < len then None
      else Some (w_length w))"

definition WriteBytes :: "u8 list \<Rightarrow> write_op" where
  "WriteBytes data w =
     (case BeginWrite (length data) w of
        None \<Rightarrow> (False, w)
      | Some dest \<Rightarrow> (True, w\<lparr>w_buffer := overwrite dest data (w_buffer w),
                               w_length := w_length w + length data\<rparr>))"

definition WriteUInt8 :: "u8 \<Rightarrow> write_op" where
  "WriteUInt8 v = WriteBytes [v]"

definition WriteUInt16 :: "u16 \<Rightarrow> write_op" where
  "WriteUInt16 v w =
     (let v' = (if w_endianness w = NETWORK_BYTE_ORDER then HostToNet16 v else v)
      in WriteBytes (le_bytes 2 (unat v')) w)"

definition WriteUInt32 :: "u32 \<Rightarrow> write_op" where
  "WriteUInt32 v w =
     (let v' = (if w_endianness w = NETWORK_BYTE_ORDER then HostToNet32 v else v)
      in WriteBytes (le_bytes 4 (unat v')) w)"

definition WriteUInt64 :: "u64 \<Rightarrow> write_op" where
  "WriteUInt64 v w =
     (let v' = (if w_endianness w = NETWORK_BYTE_ORDER then HostToNet64 v else v)
      in WriteBytes (le_bytes 8 (unat v')) w)"

definition WriteBytesToUInt64 :: "nat \<Rightarrow> u64 \<Rightarrow> write_op" where
  "WriteBytesToUInt64 num_bytes v w =
     (if num_bytes > 8 then (False, w)
      else if w_endianness w = HOST_BYTE_ORDER then WriteBytes (take num_bytes (le_bytes 8 (unat v))) w
      else WriteBytes (drop (8 - num_bytes) (le_bytes 8 (unat (HostToNet64 v)))) w)"

definition kUFloat16MantissaBits :: nat where "kUFloat16MantissaBits = 11"
definition kUFloat16MantissaEffectiveBits :: nat where "kUFloat16MantissaEffectiveBits = 12"
definition kUFloat16MaxExponent :: nat where "kUFloat16MaxExponent = 30"
definition kUFloat16MaxValue :: u64 where
  "kUFloat16MaxValue = push_bit kUFloat16MaxExponent (push_bit kUFloat16MantissaEffectiveBits 1 - 1)"

function ufloat16_shift :: "nat \<Rightarrow> u16 \<Rightarrow> u64 \<Rightarrow> u16 \<times> u64" where
  "ufloat16_shift offset ex v =
     (if offset > 0 then
        (if v \<ge> push_bit (kUFloat16MantissaBits + offset) 1
         then ufloat16_shift (offset div 2) (ex + word_of_nat offset) (drop_bit offset v)
         else ufloat16_shift (offset div 2) ex v)
      else (ex, v))"
  by auto
termination by (relation "measure (\<lambda>(offset, _, _). offset)") auto

definition ufloat16_encode :: "u64 \<Rightarrow> u16" where
  "ufloat16_encode v =
     (if v < push_bit kUFloat16MantissaEffectiveBits 1 then ucast v
      else if v \<ge> kUFloat16MaxValue then - 1
      else (case ufloat16_shift 16 0 v of
              (ex, v') \<Rightarrow> ucast (v' + push_bit kUFloat16MantissaBits (ucast ex))))"

definition WriteUFloat16 :: "u64 \<Rightarrow> write_op" where
  "WriteUFloat16 v w =
     (let result = ufloat16_encode v;
          result' = (if w_endianness w = NETWORK_BYTE_ORDER then HostToNet16 result else result)
      in WriteBytes (le_bytes 2 (unat result')) w)"

definition WriteStringPiece16 :: "u8 list \<Rightarrow> write_op" where
  "WriteStringPiece16 val w =
     (if length val > 65535 then (False, w)
      else and_then (WriteUInt16 (word_of_nat (length val))) (WriteBytes val) w)"

definition WriteStringPiece :: "u8 list \<Rightarrow> write_op" where
  "WriteStringPiece val = WriteBytes val"

definition WriteRepeatedByte :: "u8 \<Rightarrow> nat \<Rightarrow> write_op" where
  "WriteRepeatedByte byte count w =
     (case BeginWrite count w of
        None \<Rightarrow> (False, w)
      | Some dest \<Rightarrow> (True, w\<lparr>w_buffer := overwrite dest (replicate count byte) (w_buffer w),
                               w_length := w_length w + count\<rparr>))"

definition WritePadding :: "quic_data_writer \<Rightarrow> quic_data_writer" where
  "WritePadding w =
     (if w_length w > w_capacity w then w
      else w\<lparr>w_buffer := overwrite (w_length w) (replicate (w_capacity w - w_length w) 0) (w_buffer w),
             w_length := w_capacity w\<rparr>)"

definition WritePaddingBytes :: "nat \<Rightarrow> write_op" where
  "WritePaddingBytes count = WriteRepeatedByte 0 count"

definition WriteConnectionId :: "u64 \<Rightarrow> write_op" where
  "WriteConnectionId connection_id = WriteBytes (le_bytes 8 (unat (HostToNet64 connection_id)))"

definition WriteTag :: "u32 \<Rightarrow> write_op" where
  "WriteTag tag = WriteBytes (le_bytes 4 (unat tag))"

text \<open>The generator's RandBytes is the argument \<open>rand_bytes\<close>: the bytes it gives for a length.\<close>

definition WriteRandomBytes :: "(nat \<Rightarrow> u8 list) \<Rightarrow> nat \<Rightarrow> write_op" where
  "WriteRandomBytes rand_bytes count w =
     (case BeginWrite count w of
        None \<Rightarrow> (False, w)
      | Some dest \<Rightarrow> (True, w\<lparr>w_buffer := overwrite dest (rand_bytes count) (w_buffer w),
                               w_length := w_length w + count\<rparr>))"

definition kVarInt62ErrorMask :: u64 where "kVarInt62ErrorMask = 0xc000000000000000"
definition kVarInt62Mask8Bytes :: u64 where "kVarInt62Mask8Bytes = 0x3fffffffc0000000"
definition kVarInt62Mask4Bytes :: u64 where "kVarInt62Mask4Bytes = 0x000000003fffc000"
definition kVarInt62Mask2Bytes :: u64 where "kVarInt62Mask2Bytes = 0x0000000000003fc0"

definition store_bytes :: "u8 list \<Rightarrow> write_op" where
  "store_bytes bs w =
     (True, w\<lparr>w_buffer := overwrite (w_length w) bs (w_buffer w), w_length := w_length w + length bs\<rparr>)"

definition WriteVarInt62 :: "u64 \<Rightarrow> write_op" where
  "WriteVarInt62 v w =
     (let remaining = w_capacity w - w_length w in
      if v AND kVarInt62ErrorMask = 0 then
        if v AND kVarInt62Mask8Bytes \<noteq> 0 then
          if remaining \<ge> 8 then
            store_bytes [ucast ((drop_bit 56 v AND 0x3f) + 0xc0), ucast (drop_bit 48 v AND 0xff),
                         ucast (drop_bit 40 v AND 0xff), ucast (drop_bit 32 v AND 0xff),
                         ucast (drop_bit 24 v AND 0xff), ucast (drop_bit 16 v AND 0xff),
                         ucast (drop_bit 8 v AND 0xff), ucast (v AND 0xff)] w
          else (False, w)
        else if v AND kVarInt62Mask4Bytes \<noteq> 0 then
          if remaining \<ge> 4 then
            store_bytes [ucast ((drop_bit 24 v AND 0x3f) + 0x80), ucast (drop_bit 16 v AND 0xff),
                         ucast (drop_bit 8 v AND 0xff), ucast (v AND 0xff)] w
          else (False, w)
        else if v AND kVarInt62Mask2Bytes \<noteq> 0 then
          if remaining \<ge> 2 then
            store_bytes [ucast ((drop_bit 8 v AND 0x3f) + 0x40), ucast (v AND 0xff)] w
          else (False, w)
        else if remaining \<ge> 1 then store_bytes [ucast (v AND 0x3f)] w
        else (False, w)
      else (False, w))"

definition GetVarInt62Len :: "u64 \<Rightarrow> nat" where
  "GetVarInt62Len v =
     (if v AND kVarInt62ErrorMask \<noteq> 0 then 0
      else if v AND kVarInt62Mask8Bytes \<noteq> 0 then 8
      else if v AND kVarInt62Mask4Bytes \<noteq> 0 then 4
      else if v AND kVarInt62Mask2Bytes \<noteq> 0 then 2
      else 1)"

definition WriteStringPieceVarInt62 :: "u8 list \<Rightarrow> write_op" where
  "WriteStringPieceVarInt62 s =
     and_then (WriteVarInt62 (word_of_nat (length s)))
       (if s \<noteq> [] then WriteBytes s else write_nothing)"

section \<open>The contract of a write\<close>

definition w_ok :: "quic_data_writer \<Rightarrow> bool" where
  "w_ok w \<longleftrightarrow> w_length w \<le> w_capacity w \<and> w_capacity w \<le> length (w_buffer w)"

definition w_room :: "quic_data_writer \<Rightarrow> nat" where
  "w_room w = w_capacity w - w_length w"

definition w_out :: "quic_data_writer \<Rightarrow> u8 list" where
  "w_out w = take (w_length w) (w_buffer w)"

definition w_put :: "u8 list \<Rightarrow> quic_data_writer \<Rightarrow> quic_data_writer" where
  "w_put bs w = w\<lparr>w_buffer := overwrite (w_length w) bs (w_buffer w), w_length := w_length w + length bs\<rparr>"

definition appends :: "endianness \<Rightarrow> write_op \<Rightarrow> u8 list \<Rightarrow> bool" where
  "appends e f bs \<longleftrightarrow>
     (\<forall>w. w_ok w \<and> w_endianness w = e \<longrightarrow>
        (if length bs \<le> w_room w then f w = (True, w_put bs w)
         else \<exists>k\<le>w_room w. f w = (False, w_put (take k bs) w)))"

definition uint_bytes :: "endianness \<Rightarrow> nat \<Rightarrow> nat \<Rightarrow> u8 list" where
  "uint_bytes e n v = (case e of HOST_BYTE_ORDER \<Rightarrow> le_bytes n v | NETWORK_BYTE_ORDER \<Rightarrow> be_bytes n v)"

lemma length_uint_bytes [simp, wire_simps]: "length (uint_bytes e n v) = n"
  by (cases e) (simp_all add: uint_bytes_def)

lemma w_put_simps [simp]:
  "w_length (w_put bs w) = w_length w + length bs"
  "w_capacity (w_put bs w) = w_capacity w"
  "w_endianness (w_put bs w) = w_endianness w"
  "w_room (w_put bs w) = w_room w - length bs"
  by (simp_all add: w_put_def w_room_def)

lemma w_ok_put [simp]: "w_ok w \<Longrightarrow> length bs \<le> w_room w \<Longrightarrow> w_ok (w_put bs w)"
  by (auto simp: w_ok_def w_room_def w_put_def)

lemma w_out_put: "w_ok w \<Longrightarrow> length bs \<le> w_room w \<Longrightarrow> w_out (w_put bs w) = w_out w @ bs"
  by (simp add: w_out_def w_put_def w_ok_def w_room_def take_overwrite)

lemma w_put_put:
  "w_ok w \<Longrightarrow> length as + length bs \<le> w_room w \<Longrightarrow> w_put bs (w_put as w) = w_put (as @ bs) w"
proof -
  assume a: "w_ok w" "length as + length bs \<le> w_room w"
  then have "w_length w + length as + length bs \<le> length (w_buffer w)"
    by (auto simp: w_ok_def w_room_def)
  then show ?thesis by (simp add: w_put_def overwrite_append add.assoc)
qed

lemma w_put_Nil [simp]: "w_ok w \<Longrightarrow> w_put [] w = w"
  by (simp add: w_put_def w_ok_def)

lemma w_ok_QuicDataWriter [simp]: "w_ok (QuicDataWriter n buf e) \<longleftrightarrow> n \<le> length buf"
  by (simp add: w_ok_def QuicDataWriter_def)

lemma QuicDataWriter_simps [simp]:
  "w_room (QuicDataWriter n buf e) = n"
  "w_endianness (QuicDataWriter n buf e) = e"
  "w_length (QuicDataWriter n buf e) = 0"
  "w_out (QuicDataWriter n buf e) = []"
  by (simp_all add: QuicDataWriter_def w_room_def w_out_def)

lemma appendsI:
  assumes "\<And>w. w_ok w \<Longrightarrow> w_endianness w = e \<Longrightarrow> length bs \<le> w_room w \<Longrightarrow> f w = (True, w_put bs w)"
    and "\<And>w. w_ok w \<Longrightarrow> w_endianness w = e \<Longrightarrow> w_room w < length bs \<Longrightarrow>
           \<exists>k\<le>w_room w. f w = (False, w_put (take k bs) w)"
  shows "appends e f bs"
  using assms by (simp add: appends_def)

lemma appends_fits:
  assumes "appends e f bs" "w_ok w" "w_endianness w = e" "length bs \<le> w_room w"
  shows "f w = (True, w_put bs w)"
  using assms by (simp add: appends_def)

lemma appends_full:
  assumes "appends e f bs" "w_ok w" "w_endianness w = e" "w_room w < length bs"
  shows "\<exists>k\<le>w_room w. f w = (False, w_put (take k bs) w)"
proof -
  have "\<not> length bs \<le> w_room w" using assms(4) by simp
  with assms(1-3) show ?thesis by (auto simp: appends_def)
qed

text \<open>Every write, whether it succeeds or not, only extends the output and keeps the writer sound.\<close>

lemma appends_extends:
  assumes "appends e f bs" "w_ok w" "w_endianness w = e"
  shows "w_ok (snd (f w)) \<and> (\<exists>k. w_out (snd (f w)) = w_out w @ take k bs) \<and> w_endianness (snd (f w)) = e"
proof (cases "length bs \<le> w_room w")
  case True
  with appends_fits [OF assms] assms(2,3) show ?thesis
    by (simp add: w_out_put) (metis order_refl take_all)
next
  case False
  then obtain k where k: "k \<le> w_room w" "f w = (False, w_put (take k bs) w)"
    using appends_full [OF assms] by auto
  with assms(2,3) show ?thesis by (simp add: w_out_put) metis
qed

lemma appends_and_then [intro]:
  assumes f: "appends e f as" and g: "appends e g bs"
  shows "appends e (and_then f g) (as @ bs)"
proof (rule appendsI)
  fix w
  assume w: "w_ok w" "w_endianness w = e" and room: "length (as @ bs) \<le> w_room w"
  then have "f w = (True, w_put as w)" by (intro appends_fits [OF f]) auto
  moreover have "g (w_put as w) = (True, w_put bs (w_put as w))"
    using g w room by (intro appends_fits [OF g]) auto
  ultimately show "and_then f g w = (True, w_put (as @ bs) w)"
    using w room by (simp add: and_then_def w_put_put)
next
  fix w
  assume w: "w_ok w" "w_endianness w = e" and room: "w_room w < length (as @ bs)"
  show "\<exists>k\<le>w_room w. and_then f g w = (False, w_put (take k (as @ bs)) w)"
  proof (cases "length as \<le> w_room w")
    case True
    have "\<exists>k\<le>w_room (w_put as w). g (w_put as w) = (False, w_put (take k bs) (w_put as w))"
      using w room True by (intro appends_full [OF g]) auto
    then obtain k where k: "k \<le> w_room w - length as"
      "g (w_put as w) = (False, w_put (take k bs) (w_put as w))" by auto
    then have "and_then f g w = (False, w_put (take (length as + k) (as @ bs)) w)"
      using appends_fits [OF f w True] w True by (simp add: and_then_def w_put_put min_le_iff_disj)
    then show ?thesis using k(1) True by (intro exI [of _ "length as + k"]) auto
  next
    case False
    then obtain k where "k \<le> w_room w" "f w = (False, w_put (take k as) w)"
      using appends_full [OF f w] by auto
    then show ?thesis using False by (intro exI [of _ k]) (simp add: and_then_def)
  qed
qed

lemma appends_nothing [intro, simp]: "appends e write_nothing []"
  by (rule appendsI) (simp_all add: write_nothing_def)

lemma appends_WriteBytes [intro, simp]: "appends e (WriteBytes bs) bs"
  by (rule appendsI)
    (auto simp: WriteBytes_def BeginWrite_def w_ok_def w_room_def w_put_def intro!: exI [of _ 0])

lemma le_bytes_HostToNet:
  "le_bytes 2 (unat (HostToNet16 a)) = be_bytes 2 (unat a)"
  "le_bytes 4 (unat (HostToNet32 b)) = be_bytes 4 (unat b)"
  "le_bytes 8 (unat (HostToNet64 c)) = be_bytes 8 (unat c)"
proof -
  show "le_bytes 2 (unat (HostToNet16 a)) = be_bytes 2 (unat a)"
    using le_bytes_swap [of 2 "unat a"] by (simp add: be_bytes_def HostToNet16_def unat_of_nat take_bit_eq_mod)
  show "le_bytes 4 (unat (HostToNet32 b)) = be_bytes 4 (unat b)"
    using le_bytes_swap [of 4 "unat b"] by (simp add: be_bytes_def HostToNet32_def unat_of_nat take_bit_eq_mod)
  show "le_bytes 8 (unat (HostToNet64 c)) = be_bytes 8 (unat c)"
    using le_bytes_swap [of 8 "unat c"] by (simp add: be_bytes_def HostToNet64_def unat_of_nat take_bit_eq_mod)
qed

lemma drop_be_bytes: "m \<le> n \<Longrightarrow> drop (n - m) (be_bytes n v) = be_bytes m v"
  by (simp add: be_bytes_def drop_rev take_le_bytes)

lemma appends_cong:
  assumes "appends e g bs" "\<And>w. w_endianness w = e \<Longrightarrow> f w = g w"
  shows "appends e f bs"
  using assms by (simp add: appends_def)

lemma appends_WriteUInt8 [intro, simp]: "appends e (WriteUInt8 v) [v]"
  by (simp add: WriteUInt8_def)

lemma appends_WriteUInt16 [intro, simp]: "appends e (WriteUInt16 v) (uint_bytes e 2 (unat v))"
  by (rule appends_cong [OF appends_WriteBytes])
    (auto simp: WriteUInt16_def uint_bytes_def le_bytes_HostToNet split: endianness.splits)

lemma appends_WriteUInt32 [intro, simp]: "appends e (WriteUInt32 v) (uint_bytes e 4 (unat v))"
  by (rule appends_cong [OF appends_WriteBytes])
    (auto simp: WriteUInt32_def uint_bytes_def le_bytes_HostToNet split: endianness.splits)

lemma appends_WriteUInt64 [intro, simp]: "appends e (WriteUInt64 v) (uint_bytes e 8 (unat v))"
  by (rule appends_cong [OF appends_WriteBytes])
    (auto simp: WriteUInt64_def uint_bytes_def le_bytes_HostToNet split: endianness.splits)

lemma appends_WriteUFloat16 [intro, simp]:
  "appends e (WriteUFloat16 v) (uint_bytes e 2 (unat (ufloat16_encode v)))"
  by (rule appends_cong [OF appends_WriteBytes])
    (auto simp: WriteUFloat16_def uint_bytes_def le_bytes_HostToNet Let_def split: endianness.splits)

lemma appends_WriteBytesToUInt64 [intro, simp]:
  "n \<le> 8 \<Longrightarrow> appends e (WriteBytesToUInt64 n v) (uint_bytes e n (unat v))"
  by (rule appends_cong [OF appends_WriteBytes])
    (auto simp: WriteBytesToUInt64_def uint_bytes_def le_bytes_HostToNet take_le_bytes drop_be_bytes
      split: endianness.splits)

lemma appends_WriteConnectionId [intro, simp]:
  "appends e (WriteConnectionId v) (be_bytes 8 (unat v))"
  by (simp add: WriteConnectionId_def le_bytes_HostToNet)

lemma appends_WriteTag [intro, simp]: "appends e (WriteTag v) (le_bytes 4 (unat v))"
  by (simp add: WriteTag_def)

lemma appends_WriteStringPiece [intro, simp]: "appends e (WriteStringPiece s) s"
  by (simp add: WriteStringPiece_def)

lemma appends_WriteStringPiece16 [intro, simp]:
  assumes "length s \<le> 65535"
  shows "appends e (WriteStringPiece16 s) (uint_bytes e 2 (length s) @ s)"
proof (rule appends_cong)
  show "appends e (and_then (WriteUInt16 (word_of_nat (length s))) (WriteBytes s))
      (uint_bytes e 2 (length s) @ s)"
    using appends_and_then [OF appends_WriteUInt16 [of e "word_of_nat (length s)"] appends_WriteBytes [of e s]]
      assms by (simp add: unat_of_nat take_bit_eq_mod)
qed (use assms in \<open>simp add: WriteStringPiece16_def\<close>)

lemma appends_WriteRepeatedByte [intro, simp]: "appends e (WriteRepeatedByte b n) (replicate n b)"
  by (rule appends_cong [OF appends_WriteBytes])
    (simp add: WriteRepeatedByte_def WriteBytes_def split: option.splits)

lemma appends_WritePaddingBytes [intro, simp]: "appends e (WritePaddingBytes n) (replicate n 0)"
  by (simp add: WritePaddingBytes_def)

lemma appends_WriteRandomBytes:
  "length (rand_bytes n) = n \<Longrightarrow> appends e (WriteRandomBytes rand_bytes n) (rand_bytes n)"
  by (rule appends_cong [OF appends_WriteBytes])
    (simp add: WriteRandomBytes_def WriteBytes_def split: option.splits)

lemma WritePadding_put: "w_ok w \<Longrightarrow> WritePadding w = w_put (replicate (w_room w) 0) w"
  by (simp add: WritePadding_def w_put_def w_ok_def w_room_def)

section \<open>Variable-length integers\<close>

text \<open>The encoding of the IETF draft: the two top bits give the length, the rest is big-endian.\<close>

definition varint62_bytes :: "nat \<Rightarrow> u8 list" where
  "varint62_bytes v =
     (if v < 2 ^ 6 then be_bytes 1 v
      else if v < 2 ^ 14 then be_bytes 2 (v + 2 ^ 14)
      else if v < 2 ^ 30 then be_bytes 4 (v + 2 ^ 31)
      else be_bytes 8 (v + 3 * 2 ^ 62))"

lemma and_field_zero:
  assumes "n + k \<le> 64"
  shows "(v :: u64) AND push_bit n (mask k) = 0 \<longleftrightarrow> (unat v div 2 ^ n) mod 2 ^ k = 0"
proof -
  have "v AND push_bit n (mask k) = push_bit n (take_bit k (drop_bit n v))"
    by (rule bit_word_eqI) (use assms in \<open>auto simp: bit_simps\<close>)
  moreover have "push_bit n (take_bit k (drop_bit n v)) = 0 \<longleftrightarrow> take_bit k (drop_bit n v) = 0"
    (is "?l \<longleftrightarrow> ?r")
  proof
    assume ?l
    then have "drop_bit n (push_bit n (take_bit k (drop_bit n v))) = 0" by simp
    moreover have "drop_bit n (push_bit n (take_bit k (drop_bit n v))) = take_bit k (drop_bit n v)"
      by (rule bit_word_eqI) (use assms in \<open>auto simp: bit_simps\<close>)
    ultimately show ?r by simp
  qed simp
  moreover have "take_bit k (drop_bit n v) = 0 \<longleftrightarrow> (unat v div 2 ^ n) mod 2 ^ k = 0"
    by (simp only: unat_0_iff [symmetric] unat_take unat_drop)
  ultimately show ?thesis by simp
qed

lemma varint62_masks:
  "v AND kVarInt62ErrorMask = 0 \<longleftrightarrow> unat v < 2 ^ 62"
  "unat v < 2 ^ 62 \<Longrightarrow> v AND kVarInt62Mask8Bytes = 0 \<longleftrightarrow> unat v < 2 ^ 30"
  "unat v < 2 ^ 30 \<Longrightarrow> v AND kVarInt62Mask4Bytes = 0 \<longleftrightarrow> unat v < 2 ^ 14"
  "unat v < 2 ^ 14 \<Longrightarrow> v AND kVarInt62Mask2Bytes = 0 \<longleftrightarrow> unat v < 2 ^ 6"
proof -
  have masks: "kVarInt62ErrorMask = push_bit 62 (mask 2)" "kVarInt62Mask8Bytes = push_bit 30 (mask 32)"
    "kVarInt62Mask4Bytes = push_bit 14 (mask 16)" "kVarInt62Mask2Bytes = push_bit 6 (mask 8)"
    by (simp_all add: kVarInt62ErrorMask_def kVarInt62Mask8Bytes_def kVarInt62Mask4Bytes_def
        kVarInt62Mask2Bytes_def mask_eq_exp_minus_1 push_bit_eq_mult)
  have div0: "(x div 2 ^ n) mod 2 ^ k = 0 \<longleftrightarrow> x < 2 ^ n" if "x < 2 ^ (n + k)" for x n k :: nat
  proof -
    have "x div 2 ^ n < 2 ^ k" using that by (simp add: less_mult_imp_div_less power_add mult.commute)
    then show ?thesis by (simp add: div_eq_0_iff)
  qed
  show "v AND kVarInt62ErrorMask = 0 \<longleftrightarrow> unat v < 2 ^ 62"
    using div0 [of "unat v" 62 2] unat_u64_less [of v] unfolding masks by (subst and_field_zero) simp_all
  show "unat v < 2 ^ 62 \<Longrightarrow> v AND kVarInt62Mask8Bytes = 0 \<longleftrightarrow> unat v < 2 ^ 30"
    using div0 [of "unat v" 30 32] unfolding masks by (subst and_field_zero) simp_all
  show "unat v < 2 ^ 30 \<Longrightarrow> v AND kVarInt62Mask4Bytes = 0 \<longleftrightarrow> unat v < 2 ^ 14"
    using div0 [of "unat v" 14 16] unfolding masks by (subst and_field_zero) simp_all
  show "unat v < 2 ^ 14 \<Longrightarrow> v AND kVarInt62Mask2Bytes = 0 \<longleftrightarrow> unat v < 2 ^ 6"
    using div0 [of "unat v" 6 8] unfolding masks by (subst and_field_zero) simp_all
qed

lemma ucast_byte: "ucast (drop_bit n (v :: u64) AND 0xff) = (word_of_nat ((unat v div 2 ^ n) mod 256) :: u8)"
proof -
  have "drop_bit n v AND 0xff = take_bit 8 (drop_bit n v)"
    by (simp add: take_bit_eq_mask mask_eq_exp_minus_1)
  then have "unat (ucast (drop_bit n v AND 0xff) :: u8) = (unat v div 2 ^ n) mod 256"
    using unat_take [of 8 "drop_bit n v"] by (simp only: unat_ucast_mod unat_drop) simp
  then show ?thesis by (simp only: word_unat_eq_iff unat_word8_mod)
qed

lemma ucast_byte0: "ucast ((v :: u64) AND 0xff) = (word_of_nat (unat v mod 256) :: u8)"
  using ucast_byte [of 0 v] by simp

lemma ucast_top:
  assumes "(unat v div 2 ^ n) < 64" "t < 256" "t mod 64 = 0"
  shows "ucast ((drop_bit n (v :: u64) AND 0x3f) + word_of_nat t) = (word_of_nat (unat v div 2 ^ n + t) :: u8)"
proof -
  have "drop_bit n v AND 0x3f = take_bit 6 (drop_bit n v)"
    by (simp add: take_bit_eq_mask mask_eq_exp_minus_1)
  moreover have "unat (take_bit 6 (drop_bit n v)) = unat v div 2 ^ n"
    using assms(1) by (simp only: unat_take unat_drop) simp
  ultimately have "unat (drop_bit n v AND 0x3f) = unat v div 2 ^ n" by simp
  moreover have "unat v div 2 ^ n + t < 2 ^ 64" using assms by simp
  ultimately have "unat ((drop_bit n (v :: u64) AND 0x3f) + word_of_nat t) = unat v div 2 ^ n + t"
    using assms(2) by (simp add: unat_word_ariths unat_of_nat)
  then show ?thesis by (simp only: word_unat_eq_iff unat_ucast_mod unat_of_nat)
qed

lemma store_bytes_put: "store_bytes bs w = (True, w_put bs w)"
  by (simp add: store_bytes_def w_put_def)

lemma bytes_div: "(v + a * 2 ^ (n + 8)) div 2 ^ n mod 256 = (v :: nat) div 2 ^ n mod 256"
proof -
  have "v + a * 2 ^ (n + 8) = v + a * 256 * 2 ^ n" by (simp add: power_add)
  then have "(v + a * 2 ^ (n + 8)) div 2 ^ n = v div 2 ^ n + a * 256"
    by (simp only:) simp
  then show ?thesis by simp
qed

lemma top_div:
  fixes x t n :: nat
  assumes "x < 64 * 2 ^ n" "t \<le> 192"
  shows "(x + t * 2 ^ n) div 2 ^ n mod 256 = x div 2 ^ n + t"
proof -
  have "x div 2 ^ n < 64" using assms(1) by (simp add: less_mult_imp_div_less)
  with assms(2) show ?thesis by simp
qed

lemma be_bytes_unfold:
  "be_bytes 1 v = [word_of_nat (v mod 256)]"
  "be_bytes 2 v = [word_of_nat (v div 2 ^ 8 mod 256), word_of_nat (v mod 256)]"
  "be_bytes 4 v = [word_of_nat (v div 2 ^ 24 mod 256), word_of_nat (v div 2 ^ 16 mod 256),
                   word_of_nat (v div 2 ^ 8 mod 256), word_of_nat (v mod 256)]"
  "be_bytes 8 v = [word_of_nat (v div 2 ^ 56 mod 256), word_of_nat (v div 2 ^ 48 mod 256),
                   word_of_nat (v div 2 ^ 40 mod 256), word_of_nat (v div 2 ^ 32 mod 256),
                   word_of_nat (v div 2 ^ 24 mod 256), word_of_nat (v div 2 ^ 16 mod 256),
                   word_of_nat (v div 2 ^ 8 mod 256), word_of_nat (v mod 256)]"
  by (simp_all add: be_bytes_def le_bytes_numeral div_mult2_eq [symmetric])

lemma varint62_bytes_eq:
  fixes v :: u64
  shows
  "2 ^ 30 \<le> unat v \<Longrightarrow> unat v < 2 ^ 62 \<Longrightarrow>
     [ucast ((drop_bit 56 v AND 0x3f) + 0xc0), ucast (drop_bit 48 v AND 0xff),
      ucast (drop_bit 40 v AND 0xff), ucast (drop_bit 32 v AND 0xff),
      ucast (drop_bit 24 v AND 0xff), ucast (drop_bit 16 v AND 0xff),
      ucast (drop_bit 8 v AND 0xff), ucast (v AND 0xff)] = varint62_bytes (unat v)"
  "2 ^ 14 \<le> unat v \<Longrightarrow> unat v < 2 ^ 30 \<Longrightarrow>
     [ucast ((drop_bit 24 v AND 0x3f) + 0x80), ucast (drop_bit 16 v AND 0xff),
      ucast (drop_bit 8 v AND 0xff), ucast (v AND 0xff)] = varint62_bytes (unat v)"
  "2 ^ 6 \<le> unat v \<Longrightarrow> unat v < 2 ^ 14 \<Longrightarrow>
     [ucast ((drop_bit 8 v AND 0x3f) + 0x40), ucast (v AND 0xff)] = varint62_bytes (unat v)"
  "unat v < 2 ^ 6 \<Longrightarrow> [ucast (v AND 0x3f)] = varint62_bytes (unat v)"
proof -
  show "2 ^ 30 \<le> unat v \<Longrightarrow> unat v < 2 ^ 62 \<Longrightarrow>
     [ucast ((drop_bit 56 v AND 0x3f) + 0xc0), ucast (drop_bit 48 v AND 0xff),
      ucast (drop_bit 40 v AND 0xff), ucast (drop_bit 32 v AND 0xff),
      ucast (drop_bit 24 v AND 0xff), ucast (drop_bit 16 v AND 0xff),
      ucast (drop_bit 8 v AND 0xff), ucast (v AND 0xff)] = varint62_bytes (unat v)"
    using ucast_top [of v 56 192] top_div [of "unat v" 56 192] bytes_div [of "unat v" "3 * 2 ^ 6" 48]
      bytes_div [of "unat v" "3 * 2 ^ 14" 40] bytes_div [of "unat v" "3 * 2 ^ 22" 32]
      bytes_div [of "unat v" "3 * 2 ^ 30" 24] bytes_div [of "unat v" "3 * 2 ^ 38" 16]
      bytes_div [of "unat v" "3 * 2 ^ 46" 8] bytes_div [of "unat v" "3 * 2 ^ 54" 0]
    by (simp add: varint62_bytes_def be_bytes_unfold ucast_byte ucast_byte0 unat_drop div_less_iff_less_mult)
  show "2 ^ 14 \<le> unat v \<Longrightarrow> unat v < 2 ^ 30 \<Longrightarrow>
     [ucast ((drop_bit 24 v AND 0x3f) + 0x80), ucast (drop_bit 16 v AND 0xff),
      ucast (drop_bit 8 v AND 0xff), ucast (v AND 0xff)] = varint62_bytes (unat v)"
    using ucast_top [of v 24 128] top_div [of "unat v" 24 128] bytes_div [of "unat v" "2 ^ 7" 16]
      bytes_div [of "unat v" "2 ^ 15" 8] bytes_div [of "unat v" "2 ^ 23" 0]
    by (simp add: varint62_bytes_def be_bytes_unfold ucast_byte ucast_byte0 unat_drop div_less_iff_less_mult)
  show "2 ^ 6 \<le> unat v \<Longrightarrow> unat v < 2 ^ 14 \<Longrightarrow>
     [ucast ((drop_bit 8 v AND 0x3f) + 0x40), ucast (v AND 0xff)] = varint62_bytes (unat v)"
    using ucast_top [of v 8 64] top_div [of "unat v" 8 64] bytes_div [of "unat v" "2 ^ 6" 0]
    by (simp add: varint62_bytes_def be_bytes_unfold ucast_byte ucast_byte0 unat_drop div_less_iff_less_mult)
  show "unat v < 2 ^ 6 \<Longrightarrow> [ucast (v AND 0x3f)] = varint62_bytes (unat v)"
    using ucast_top [of v 0 0] by (simp add: varint62_bytes_def be_bytes_def word_unat_eq_iff unat_ucast_mod)
qed

lemma length_varint62_bytes:
  "length (varint62_bytes v) = (if v < 2 ^ 6 then 1 else if v < 2 ^ 14 then 2 else if v < 2 ^ 30 then 4 else 8)"
  by (simp add: varint62_bytes_def)

lemma appends_WriteVarInt62 [intro, simp]:
  assumes "unat v < 2 ^ 62"
  shows "appends e (WriteVarInt62 v) (varint62_bytes (unat v))"
proof -
  have full: "\<exists>k\<le>w_room w. w = w_put (take k bs) w" if "w_ok w" for w bs
    using that by (intro exI [of _ 0]) simp
  consider "2 ^ 30 \<le> unat v" | "2 ^ 14 \<le> unat v" "unat v < 2 ^ 30"
    | "2 ^ 6 \<le> unat v" "unat v < 2 ^ 14" | "unat v < 2 ^ 6" by linarith
  then show ?thesis
  proof cases
    case 1
    then show ?thesis using assms varint62_bytes_eq(1) [of v] varint62_masks(1,2) [of v]
      by (intro appendsI)
        (simp_all add: WriteVarInt62_def Let_def store_bytes_put full length_varint62_bytes
          flip: w_room_def)
  next
    case 2
    then show ?thesis using varint62_bytes_eq(2) [of v] varint62_masks(1-3) [of v]
      by (intro appendsI)
        (simp_all add: WriteVarInt62_def Let_def store_bytes_put full length_varint62_bytes
          flip: w_room_def)
  next
    case 3
    then show ?thesis using varint62_bytes_eq(3) [of v] varint62_masks [of v]
      by (intro appendsI)
        (simp_all add: WriteVarInt62_def Let_def store_bytes_put full length_varint62_bytes
          flip: w_room_def)
  next
    case 4
    then show ?thesis using varint62_bytes_eq(4) [of v] varint62_masks [of v]
      by (intro appendsI)
        (simp_all add: WriteVarInt62_def Let_def store_bytes_put full length_varint62_bytes
          flip: w_room_def)
  qed
qed

lemma WriteVarInt62_too_big: "2 ^ 62 \<le> unat v \<Longrightarrow> WriteVarInt62 v w = (False, w)"
  using varint62_masks(1) [of v] by (simp add: WriteVarInt62_def Let_def)

lemma GetVarInt62Len_eq:
  "GetVarInt62Len v = (if unat v < 2 ^ 62 then length (varint62_bytes (unat v)) else 0)"
  using varint62_masks [of v] by (simp add: GetVarInt62Len_def length_varint62_bytes)

section \<open>The 16-bit unsigned float\<close>

declare ufloat16_shift.simps [simp del]

lemma ufloat16_shift_0: "ufloat16_shift 0 ex v = (ex, v)"
  by (simp add: ufloat16_shift.simps)

text \<open>One halving step: the value shifted by the added exponent, now below the next threshold.\<close>

lemma ufloat16_shift_step:
  assumes "0 < d" "d \<le> 16" "unat v < 2 ^ (11 + 2 * d)" "2 ^ 11 \<le> unat v" "unat ex + d < 2 ^ 16"
  shows "\<exists>ex' v'. ufloat16_shift d ex v = ufloat16_shift (d div 2) ex' v' \<and>
           unat ex \<le> unat ex' \<and> unat ex' \<le> unat ex + d \<and>
           unat v' = unat v div 2 ^ (unat ex' - unat ex) \<and>
           2 ^ 11 \<le> unat v' \<and> unat v' < 2 ^ (11 + d) \<and>
           (unat ex < unat ex' \<longrightarrow> unat ex' = unat ex + d)"
proof (cases "v \<ge> push_bit (11 + d) 1")
  have p: "unat (push_bit (11 + d) 1 :: u64) = 2 ^ (11 + d)"
    using assms(2) by (intro unat_push_one) simp
  {
    case True
    then have ge: "2 ^ (11 + d) \<le> unat v" by (simp only: word_le_nat_alt p)
    have sh: "ufloat16_shift d ex v = ufloat16_shift (d div 2) (ex + word_of_nat d) (drop_bit d v)"
      using True assms(1) by (simp only: ufloat16_shift.simps [of d ex v] kUFloat16MantissaBits_def if_True)
    have ex: "unat (ex + word_of_nat d) = unat ex + d"
      using assms(2,5) by (simp add: unat_word_ariths unat_of_nat)
    have "2 ^ 11 * 2 ^ d \<le> unat v" using ge by (simp only: power_add)
    then have "2 ^ 11 \<le> unat v div 2 ^ d" by (simp only: less_eq_div_iff_mult_less_eq zero_less_power zero_less_numeral)
    moreover have "unat v < 2 ^ (11 + d) * 2 ^ d"
      using assms(3) by (simp only: power_add [symmetric] mult_2 add.assoc)
    then have "unat v div 2 ^ d < 2 ^ (11 + d)" by (rule less_mult_imp_div_less)
    ultimately show ?thesis unfolding sh
      by (intro exI [of _ "ex + word_of_nat d"] exI [of _ "drop_bit d v"]) (simp add: ex unat_drop)
  next
    case False
    then have lt: "unat v < 2 ^ (11 + d)" by (simp only: word_le_nat_alt p not_le)
    have sh: "ufloat16_shift d ex v = ufloat16_shift (d div 2) ex v"
      using False assms(1) by (simp only: ufloat16_shift.simps [of d ex v] kUFloat16MantissaBits_def if_True if_False)
    show ?thesis unfolding sh
      using lt assms(4) by (intro exI [of _ ex] exI [of _ v]) simp
  }
qed

lemma ufloat16_shift_step_obtains:
  assumes "0 < d" "d \<le> 16" "unat v < 2 ^ (11 + 2 * d)" "2 ^ 11 \<le> unat v" "unat ex \<le> 31"
  obtains ex' v' where "ufloat16_shift d ex v = ufloat16_shift (d div 2) ex' v'"
    "unat ex \<le> unat ex'" "unat ex' \<le> unat ex + d" "unat v' = unat v div 2 ^ (unat ex' - unat ex)"
    "2 ^ 11 \<le> unat v'" "unat v' < 2 ^ (11 + d)"
proof -
  have "unat ex + d < 2 ^ 16" using assms(2,5) by simp
  from ufloat16_shift_step [OF assms(1-4) this] that show thesis by blast
qed

lemma ufloat16_shift_16:
  assumes "2 ^ 12 \<le> unat v" "unat v < 2 ^ 42"
  obtains ex v' where "ufloat16_shift 16 0 v = (ex, v')" "1 \<le> unat ex" "unat ex \<le> 30"
    "unat v' = unat v div 2 ^ unat ex" "2 ^ 11 \<le> unat v'" "unat v' < 2 ^ 12"
proof -
  obtain e1 v1 where 1: "ufloat16_shift 16 0 v = ufloat16_shift (16 div 2) e1 v1"
    "unat (0 :: u16) \<le> unat e1" "unat e1 \<le> unat (0 :: u16) + 16"
    "unat v1 = unat v div 2 ^ (unat e1 - unat (0 :: u16))" "2 ^ 11 \<le> unat v1" "unat v1 < 2 ^ (11 + 16)"
    by (rule ufloat16_shift_step_obtains [of 16 v 0]) (use assms in simp_all)
  obtain e2 v2 where 2: "ufloat16_shift 8 e1 v1 = ufloat16_shift (8 div 2) e2 v2"
    "unat e1 \<le> unat e2" "unat e2 \<le> unat e1 + 8"
    "unat v2 = unat v1 div 2 ^ (unat e2 - unat e1)" "2 ^ 11 \<le> unat v2" "unat v2 < 2 ^ (11 + 8)"
    by (rule ufloat16_shift_step_obtains [of 8 v1 e1]) (use 1(3,5,6) in simp_all)
  obtain e3 v3 where 3: "ufloat16_shift 4 e2 v2 = ufloat16_shift (4 div 2) e3 v3"
    "unat e2 \<le> unat e3" "unat e3 \<le> unat e2 + 4"
    "unat v3 = unat v2 div 2 ^ (unat e3 - unat e2)" "2 ^ 11 \<le> unat v3" "unat v3 < 2 ^ (11 + 4)"
    by (rule ufloat16_shift_step_obtains [of 4 v2 e2]) (use 1(3) 2(3,5,6) in simp_all)
  obtain e4 v4 where 4: "ufloat16_shift 2 e3 v3 = ufloat16_shift (2 div 2) e4 v4"
    "unat e3 \<le> unat e4" "unat e4 \<le> unat e3 + 2"
    "unat v4 = unat v3 div 2 ^ (unat e4 - unat e3)" "2 ^ 11 \<le> unat v4" "unat v4 < 2 ^ (11 + 2)"
    by (rule ufloat16_shift_step_obtains [of 2 v3 e3]) (use 1(3) 2(3) 3(3,5,6) in simp_all)
  obtain e5 v5 where 5: "ufloat16_shift 1 e4 v4 = ufloat16_shift (1 div 2) e5 v5"
    "unat e4 \<le> unat e5" "unat e5 \<le> unat e4 + 1"
    "unat v5 = unat v4 div 2 ^ (unat e5 - unat e4)" "2 ^ 11 \<le> unat v5" "unat v5 < 2 ^ (11 + 1)"
    by (rule ufloat16_shift_step_obtains [of 1 v4 e4]) (use 1(3) 2(3) 3(3) 4(3,5,6) in simp_all)
  have comp: "x div 2 ^ a div 2 ^ (b - a) = x div 2 ^ b" if "a \<le> b" for x a b :: nat
    using that by (simp add: div_mult2_eq [symmetric] power_add [symmetric])
  have v5: "unat v5 = unat v div 2 ^ unat e5"
    unfolding 5(4) 4(4) 3(4) 2(4) 1(4) using 2(2) 3(2) 4(2) 5(2) by (simp only: comp unat_0 diff_zero)
  have "unat e5 \<noteq> 0"
  proof
    assume "unat e5 = 0"
    with v5 5(6) assms(1) show False by simp
  qed
  moreover have "unat e5 \<le> 30"
  proof (rule ccontr)
    assume "\<not> unat e5 \<le> 30"
    then have "2 ^ 31 \<le> (2 :: nat) ^ unat e5" by (intro power_increasing) auto
    then have "unat v div 2 ^ unat e5 \<le> unat v div 2 ^ 31" by (intro div_le_mono2) auto
    also have "\<dots> < 2 ^ 11" using assms(2) by (simp add: less_mult_imp_div_less)
    finally show False using v5 5(5) by simp
  qed
  ultimately show thesis
    using that [of e5 v5] 1(1) 2(1) 3(1) 4(1) 5(1,5,6) v5 by (simp add: ufloat16_shift_0)
qed

lemma ufloat16_max: "unat kUFloat16MaxValue = 4095 * 2 ^ 30"
  by (simp add: kUFloat16MaxValue_def kUFloat16MaxExponent_def kUFloat16MantissaEffectiveBits_def push_bit_eq_mult)

lemma ufloat16_encode_small: "unat v < 4096 \<Longrightarrow> unat (ufloat16_encode v) = unat v"
  by (simp add: ufloat16_encode_def kUFloat16MantissaEffectiveBits_def word_less_nat_alt push_bit_eq_mult unat_ucast_mod)

lemma ufloat16_encode_clamp: "4095 * 2 ^ 30 \<le> unat v \<Longrightarrow> ufloat16_encode v = - 1"
  using ufloat16_max
  by (simp add: ufloat16_encode_def kUFloat16MantissaEffectiveBits_def word_less_nat_alt word_le_nat_alt push_bit_eq_mult)

lemma ufloat16_encode_large:
  assumes "4096 \<le> unat v" "unat v < 4095 * 2 ^ 30"
  obtains ex m where "unat (ufloat16_encode v) = m + ex * 2048" "1 \<le> ex" "ex \<le> 30"
    "m = unat v div 2 ^ ex" "2048 \<le> m" "m < 4096"
proof -
  obtain ex v' where s: "ufloat16_shift 16 0 v = (ex, v')" "1 \<le> unat ex" "unat ex \<le> 30"
    "unat v' = unat v div 2 ^ unat ex" "2 ^ 11 \<le> unat v'" "unat v' < 2 ^ 12"
    using ufloat16_shift_16 [of v] assms by auto
  have "ufloat16_encode v = ucast (v' + push_bit 11 (ucast ex))"
    using assms s(1) ufloat16_max
    by (simp add: ufloat16_encode_def kUFloat16MantissaEffectiveBits_def kUFloat16MantissaBits_def
        word_less_nat_alt word_le_nat_alt push_bit_eq_mult)
  moreover have "unat (v' + push_bit 11 (ucast ex)) = unat v' + unat ex * 2048"
    using s(3,6) by (simp add: push_bit_eq_mult unat_word_ariths unat_ucast_mod mult.commute)
  ultimately have "unat (ufloat16_encode v) = unat v' + unat ex * 2048"
    using s(3,6) by (simp add: unat_ucast_mod)
  then show thesis using that [of "unat v'" "unat ex"] s by simp
qed

end
