(* ===== verification/Quic_Data_Reader.thy ===== *)
theory Quic_Data_Reader
  imports Quic_Data_Writer
begin

text \<open>
  The byte reader \<open>QuicDataReader\<close> (quic\_data\_reader.cc): the data, the read position and
  the byte order. A read returns the value it stores through its out-parameter, or \<open>None\<close>
  where the C++ returns \<open>false\<close>, and the reader after the call: a failed \<open>ReadBytes\<close>
  moves to the end of the data, a failed variable-length read leaves the position where it was.
  \<open>reads e f bs x\<close> is the contract of a read: in front of \<open>bs\<close> it returns
  \<open>x\<close> and consumes exactly \<open>bs\<close>.
\<close>

section \<open>State\<close>

record quic_data_reader =
  r_data :: "u8 list"
  r_pos :: nat
  r_endianness :: endianness

type_synonym 'a read_op = "quic_data_reader \<Rightarrow> 'a option \<times> quic_data_reader"

definition QuicDataReader :: "u8 list \<Rightarrow> endianness \<Rightarrow> quic_data_reader" where
  "QuicDataReader bs endian = \<lparr>r_data = bs, r_pos = 0, r_endianness = endian\<rparr>"

definition read_bind :: "'a read_op \<Rightarrow> ('a \<Rightarrow> 'b read_op) \<Rightarrow> 'b read_op" where
  "read_bind f g = (\<lambda>r. case f r of (None, r') \<Rightarrow> (None, r') | (Some x, r') \<Rightarrow> g x r')"

definition read_return :: "'a \<Rightarrow> 'a read_op" where
  "read_return x = (\<lambda>r. (Some x, r))"

definition NetToHost16 :: "u16 \<Rightarrow> u16" where "NetToHost16 = HostToNet16"
definition NetToHost32 :: "u32 \<Rightarrow> u32" where "NetToHost32 = HostToNet32"
definition NetToHost64 :: "u64 \<Rightarrow> u64" where "NetToHost64 = HostToNet64"

section \<open>Operations\<close>

definition BytesRemaining :: "quic_data_reader \<Rightarrow> nat" where
  "BytesRemaining r = length (r_data r) - r_pos r"

definition CanRead :: "nat \<Rightarrow> quic_data_reader \<Rightarrow> bool" where
  "CanRead bytes r \<longleftrightarrow> bytes \<le> length (r_data r) - r_pos r"

definition OnFailure :: "quic_data_reader \<Rightarrow> quic_data_reader" where
  "OnFailure r = r\<lparr>r_pos := length (r_data r)\<rparr>"

definition ReadBytes :: "nat \<Rightarrow> u8 list read_op" where
  "ReadBytes sz r =
     (if \<not> CanRead sz r then (None, OnFailure r)
      else (Some (take sz (drop (r_pos r) (r_data r))), r\<lparr>r_pos := r_pos r + sz\<rparr>))"

definition ReadUInt8 :: "u8 read_op" where
  "ReadUInt8 = read_bind (ReadBytes 1) (\<lambda>bs. read_return (hd bs))"

definition ReadUInt16 :: "u16 read_op" where
  "ReadUInt16 = read_bind (ReadBytes 2) (\<lambda>bs r.
     let v = word_of_nat (le_value bs) in
     (Some (if r_endianness r = NETWORK_BYTE_ORDER then NetToHost16 v else v), r))"

definition ReadUInt32 :: "u32 read_op" where
  "ReadUInt32 = read_bind (ReadBytes 4) (\<lambda>bs r.
     let v = word_of_nat (le_value bs) in
     (Some (if r_endianness r = NETWORK_BYTE_ORDER then NetToHost32 v else v), r))"

definition ReadUInt64 :: "u64 read_op" where
  "ReadUInt64 = read_bind (ReadBytes 8) (\<lambda>bs r.
     let v = word_of_nat (le_value bs) in
     (Some (if r_endianness r = NETWORK_BYTE_ORDER then NetToHost64 v else v), r))"

text \<open>
  The result starts as zero; the bytes read fill its first (host order) or last (network order)
  bytes in memory.
\<close>

definition ReadBytesToUInt64 :: "nat \<Rightarrow> u64 read_op" where
  "ReadBytesToUInt64 num_bytes r =
     (if num_bytes > 8 then (None, r)
      else if r_endianness r = HOST_BYTE_ORDER then
        read_bind (ReadBytes num_bytes)
          (\<lambda>bs. read_return (word_of_nat (le_value (overwrite 0 bs (replicate 8 0))))) r
      else
        read_bind (ReadBytes num_bytes)
          (\<lambda>bs. read_return (NetToHost64
             (word_of_nat (le_value (overwrite (8 - num_bytes) bs (replicate 8 0)))))) r)"

definition ufloat16_decode :: "u16 \<Rightarrow> u64" where
  "ufloat16_decode v =
     (let result = ucast v :: u64 in
      if result < push_bit kUFloat16MantissaEffectiveBits 1 then result
      else let ex = drop_bit kUFloat16MantissaBits v - 1 in
        push_bit (unat ex) (result - push_bit kUFloat16MantissaBits (ucast ex)))"

definition ReadUFloat16 :: "u64 read_op" where
  "ReadUFloat16 = read_bind ReadUInt16 (\<lambda>v. read_return (ufloat16_decode v))"

definition ReadStringPiece :: "nat \<Rightarrow> u8 list read_op" where
  "ReadStringPiece sz r =
     (if \<not> CanRead sz r then (None, OnFailure r)
      else (Some (take sz (drop (r_pos r) (r_data r))), r\<lparr>r_pos := r_pos r + sz\<rparr>))"

definition ReadStringPiece16 :: "u8 list read_op" where
  "ReadStringPiece16 = read_bind ReadUInt16 (\<lambda>len. ReadStringPiece (unat len))"

definition ReadConnectionId :: "u64 read_op" where
  "ReadConnectionId = read_bind (ReadBytes 8)
     (\<lambda>bs. read_return (NetToHost64 (word_of_nat (le_value bs))))"

definition ReadTag :: "u32 read_op" where
  "ReadTag = read_bind (ReadBytes 4) (\<lambda>bs. read_return (word_of_nat (le_value bs)))"

definition PeekRemainingPayload :: "quic_data_reader \<Rightarrow> u8 list" where
  "PeekRemainingPayload r = drop (r_pos r) (r_data r)"

definition ReadRemainingPayload :: "quic_data_reader \<Rightarrow> u8 list \<times> quic_data_reader" where
  "ReadRemainingPayload r = (PeekRemainingPayload r, r\<lparr>r_pos := length (r_data r)\<rparr>)"

definition IsDoneReading :: "quic_data_reader \<Rightarrow> bool" where
  "IsDoneReading r \<longleftrightarrow> length (r_data r) = r_pos r"

definition PeekByte :: "quic_data_reader \<Rightarrow> u8" where
  "PeekByte r = (if r_pos r \<ge> length (r_data r) then 0 else r_data r ! r_pos r)"

definition PeekVarInt62Length :: "quic_data_reader \<Rightarrow> nat" where
  "PeekVarInt62Length r =
     (if BytesRemaining r = 0 then 0
      else 2 ^ unat (drop_bit 6 ((r_data r ! r_pos r) AND 0xc0)))"

definition ReadVarInt62 :: "u64 read_op" where
  "ReadVarInt62 r =
     (let remaining = BytesRemaining r;
          next = (\<lambda>i. ucast (r_data r ! (r_pos r + i)) :: u64);
          tag = (r_data r ! r_pos r) AND 0xc0
      in if remaining \<noteq> 0 then
           if tag = 0xc0 then
             if remaining \<ge> 8 then
               (Some (push_bit 56 (next 0 AND 0x3f) + push_bit 48 (next 1) + push_bit 40 (next 2)
                      + push_bit 32 (next 3) + push_bit 24 (next 4) + push_bit 16 (next 5)
                      + push_bit 8 (next 6) + next 7),
                r\<lparr>r_pos := r_pos r + 8\<rparr>)
             else (None, r)
           else if tag = 0x80 then
             if remaining \<ge> 4 then
               (Some (push_bit 24 (next 0 AND 0x3f) + push_bit 16 (next 1) + push_bit 8 (next 2) + next 3),
                r\<lparr>r_pos := r_pos r + 4\<rparr>)
             else (None, r)
           else if tag = 0x40 then
             if remaining \<ge> 2 then
               (Some (push_bit 8 (next 0 AND 0x3f) + next 1), r\<lparr>r_pos := r_pos r + 2\<rparr>)
             else (None, r)
           else (Some (next 0 AND 0x3f), r\<lparr>r_pos := r_pos r + 1\<rparr>)
         else (None, r))"

definition kMaxQuicStreamId :: u64 where "kMaxQuicStreamId = 0xffffffff"

definition ReadVarIntStreamId :: "u32 read_op" where
  "ReadVarIntStreamId = read_bind ReadVarInt62
     (\<lambda>v r. if v > kMaxQuicStreamId then (None, r) else (Some (ucast v), r))"

section \<open>The contract of a read\<close>

definition r_rest :: "quic_data_reader \<Rightarrow> u8 list" where
  "r_rest r = drop (r_pos r) (r_data r)"

definition r_skip :: "nat \<Rightarrow> quic_data_reader \<Rightarrow> quic_data_reader" where
  "r_skip n r = r\<lparr>r_pos := r_pos r + n\<rparr>"

definition reads :: "endianness \<Rightarrow> 'a read_op \<Rightarrow> u8 list \<Rightarrow> 'a \<Rightarrow> bool" where
  "reads e f bs x \<longleftrightarrow>
     (\<forall>r rest. r_endianness r = e \<and> r_rest r = bs @ rest \<longrightarrow> f r = (Some x, r_skip (length bs) r))"

lemma r_skip_simps [simp]:
  "r_endianness (r_skip n r) = r_endianness r"
  "r_data (r_skip n r) = r_data r"
  "r_pos (r_skip n r) = r_pos r + n"
  "r_skip n (r_skip m r) = r_skip (m + n) r"
  "r_skip 0 r = r"
  by (simp_all add: r_skip_def add.assoc)

lemma r_rest_skip: "r_rest r = bs @ rest \<Longrightarrow> r_rest (r_skip (length bs) r) = rest"
  unfolding r_rest_def r_skip_def by (simp add: add.commute drop_drop [symmetric] del: drop_drop)

lemma BytesRemaining_rest: "BytesRemaining r = length (r_rest r)"
  by (simp add: BytesRemaining_def r_rest_def)

lemma r_rest_nth: "i < length (r_rest r) \<Longrightarrow> r_data r ! (r_pos r + i) = r_rest r ! i"
  by (simp add: r_rest_def)

lemma readsI:
  assumes "\<And>r rest. r_endianness r = e \<Longrightarrow> r_rest r = bs @ rest \<Longrightarrow> f r = (Some x, r_skip (length bs) r)"
  shows "reads e f bs x"
  using assms by (simp add: reads_def)

lemma readsD:
  "reads e f bs x \<Longrightarrow> r_endianness r = e \<Longrightarrow> r_rest r = bs @ rest \<Longrightarrow> f r = (Some x, r_skip (length bs) r)"
  by (auto simp: reads_def)

lemma reads_bind [intro]:
  assumes f: "reads e f as x" and g: "reads e (g x) bs y"
  shows "reads e (read_bind f g) (as @ bs) y"
proof (rule readsI)
  fix r rest
  assume r: "r_endianness r = e" "r_rest r = (as @ bs) @ rest"
  then have "f r = (Some x, r_skip (length as) r)" by (intro readsD [OF f, where rest = "bs @ rest"]) auto
  moreover have "g x (r_skip (length as) r) = (Some y, r_skip (length bs) (r_skip (length as) r))"
    using r by (intro readsD [OF g, where rest = rest]) (auto intro: r_rest_skip)
  ultimately show "read_bind f g r = (Some y, r_skip (length (as @ bs)) r)"
    by (simp add: read_bind_def)
qed

lemma reads_bind_return:
  "reads e f bs x \<Longrightarrow> y = h x \<Longrightarrow> reads e (read_bind f (\<lambda>x. read_return (h x))) bs y"
  by (auto simp: reads_def read_bind_def read_return_def)

lemma reads_return [intro, simp]: "reads e (read_return x) [] x"
  by (auto simp: reads_def read_return_def)

lemma reads_ReadBytes: "length bs = n \<Longrightarrow> reads e (ReadBytes n) bs bs"
proof (rule readsI)
  fix r :: quic_data_reader and rest
  assume n: "length bs = n" and r: "r_rest r = bs @ rest"
  have "n \<le> length (r_data r) - r_pos r"
    using arg_cong [OF r, of length] n by (simp add: r_rest_def)
  then show "ReadBytes n r = (Some bs, r_skip (length bs) r)"
    using r n by (simp add: ReadBytes_def CanRead_def r_skip_def flip: r_rest_def)
qed

lemma reads_ReadBytes_self [intro, simp]: "reads e (ReadBytes (length bs)) bs bs"
  by (rule reads_ReadBytes) simp

lemma ReadStringPiece_eq: "ReadStringPiece = ReadBytes"
  by (intro ext) (simp add: ReadStringPiece_def ReadBytes_def)

section \<open>Contracts of the fixed-width reads\<close>

lemma NetToHost_image:
  "NetToHost16 (word_of_nat (le_value (be_bytes 2 (unat a)))) = a"
  "NetToHost32 (word_of_nat (le_value (be_bytes 4 (unat b)))) = b"
  "NetToHost64 (word_of_nat (le_value (be_bytes 8 (unat c)))) = c"
  using le_bytes_swap [of 2 "unat a"] le_bytes_swap [of 4 "unat b"] le_bytes_swap [of 8 "unat c"]
    unat_u16_less [of a] unat_u32_less [of b] unat_u64_less [of c]
  by (simp_all add: word_unat_eq_iff NetToHost16_def NetToHost32_def NetToHost64_def HostToNet16_def
      HostToNet32_def HostToNet64_def unat_of_nat le_value_bytes be_bytes_def)

lemma host_image:
  "word_of_nat (le_value (le_bytes 2 (unat a))) = (a :: u16)"
  "word_of_nat (le_value (le_bytes 4 (unat b))) = (b :: u32)"
  "word_of_nat (le_value (le_bytes 8 (unat c))) = (c :: u64)"
  using unat_u16_less [of a] unat_u32_less [of b] unat_u64_less [of c]
  by (simp_all add: word_unat_eq_iff le_value_bytes unat_of_nat)

lemma reads_cong:
  "reads e g bs x \<Longrightarrow> (\<And>r. r_endianness r = e \<Longrightarrow> f r = g r) \<Longrightarrow> reads e f bs x"
  by (simp add: reads_def)

lemma reads_bind_value:
  assumes "reads e f bs x" "\<And>r. r_endianness r = e \<Longrightarrow> g x r = (Some y, r)"
  shows "reads e (read_bind f g) bs y"
  using assms by (auto simp: reads_def read_bind_def)

lemma reads_ReadUInt8 [intro, simp]: "reads e ReadUInt8 [v] v"
  unfolding ReadUInt8_def by (rule reads_bind_value [OF reads_ReadBytes]) (simp_all add: read_return_def)

lemma reads_ReadUInt16 [intro, simp]: "reads e ReadUInt16 (uint_bytes e 2 (unat v)) v"
  unfolding ReadUInt16_def
  by (rule reads_bind_value [OF reads_ReadBytes])
    (simp_all add: uint_bytes_def NetToHost_image host_image split: endianness.splits)

lemma reads_ReadUInt32 [intro, simp]: "reads e ReadUInt32 (uint_bytes e 4 (unat v)) v"
  unfolding ReadUInt32_def
  by (rule reads_bind_value [OF reads_ReadBytes])
    (simp_all add: uint_bytes_def NetToHost_image host_image split: endianness.splits)

lemma reads_ReadUInt64 [intro, simp]: "reads e ReadUInt64 (uint_bytes e 8 (unat v)) v"
  unfolding ReadUInt64_def
  by (rule reads_bind_value [OF reads_ReadBytes])
    (simp_all add: uint_bytes_def NetToHost_image host_image split: endianness.splits)

lemma reads_ReadConnectionId [intro, simp]: "reads e ReadConnectionId (be_bytes 8 (unat v)) v"
  unfolding ReadConnectionId_def
  by (rule reads_bind_value [OF reads_ReadBytes]) (simp_all add: read_return_def NetToHost_image)

lemma reads_ReadTag [intro, simp]: "reads e ReadTag (le_bytes 4 (unat v)) v"
  unfolding ReadTag_def
  by (rule reads_bind_value [OF reads_ReadBytes]) (simp_all add: read_return_def host_image)

lemma reads_ReadStringPiece16 [intro]:
  "length s \<le> 65535 \<Longrightarrow> reads e ReadStringPiece16 (uint_bytes e 2 (length s) @ s) s"
  unfolding ReadStringPiece16_def
  using reads_ReadUInt16 [of e "word_of_nat (length s)"]
  by (intro reads_bind [where x = "word_of_nat (length s)"]) (simp_all add: ReadStringPiece_eq unat_of_nat)

text \<open>Fewer than eight bytes: the missing ones are zero.\<close>

lemma pad_image:
  assumes "n \<le> 8"
  shows "word_of_nat (le_value (overwrite 0 (le_bytes n v) (replicate 8 0))) = (word_of_nat (v mod 256 ^ n) :: u64)"
    "NetToHost64 (word_of_nat (le_value (overwrite (8 - n) (be_bytes n v) (replicate 8 0)))) = word_of_nat (v mod 256 ^ n)"
proof -
  show "word_of_nat (le_value (overwrite 0 (le_bytes n v) (replicate 8 0))) = (word_of_nat (v mod 256 ^ n) :: u64)"
    by (simp add: overwrite_def le_value_append le_value_bytes)
  have "overwrite (8 - n) (be_bytes n v) (replicate 8 0) = rev (le_bytes n v @ replicate (8 - n) 0)"
    using assms by (simp add: overwrite_def be_bytes_def)
  also have "le_bytes n v @ replicate (8 - n) 0 = le_bytes 8 (v mod 256 ^ n)"
    using le_bytes_value [of "le_bytes n v @ replicate (8 - n) 0"] assms
    by (simp add: le_value_append le_value_bytes)
  finally have "overwrite (8 - n) (be_bytes n v) (replicate 8 0) = be_bytes 8 (v mod 256 ^ n)"
    by (simp add: be_bytes_def)
  moreover have "v mod 256 ^ n < 2 ^ 64"
  proof -
    have "v mod 256 ^ n < 256 ^ n" by simp
    also have "(256 :: nat) ^ n \<le> 256 ^ 8" using assms by (intro power_increasing) auto
    finally show ?thesis by simp
  qed
  ultimately show "NetToHost64 (word_of_nat (le_value (overwrite (8 - n) (be_bytes n v) (replicate 8 0)))) = word_of_nat (v mod 256 ^ n)"
    using NetToHost_image(3) [of "word_of_nat (v mod 256 ^ n)"] by (simp add: unat_of_nat)
qed

lemma reads_ReadBytesToUInt64:
  "n \<le> 8 \<Longrightarrow> reads e (ReadBytesToUInt64 n) (uint_bytes e n v) (word_of_nat (v mod 256 ^ n))"
  by (cases e; rule reads_cong [OF reads_bind_value [OF reads_ReadBytes [of _ n]]])
    (simp_all add: ReadBytesToUInt64_def uint_bytes_def read_return_def pad_image)

lemma reads_ReadBytesToUInt64_small [intro, simp]:
  assumes "n \<le> 8" "unat v < 256 ^ n"
  shows "reads e (ReadBytesToUInt64 n) (uint_bytes e n (unat v)) v"
  using reads_ReadBytesToUInt64 [OF assms(1), of e "unat v"] assms(2) by (simp add: word_unat_eq_iff unat_of_nat)

section \<open>The 16-bit unsigned float\<close>

lemma ufloat16_decode_small: "unat x < 4096 \<Longrightarrow> unat (ufloat16_decode x) = unat x"
  by (simp add: ufloat16_decode_def Let_def kUFloat16MantissaEffectiveBits_def word_less_nat_alt
      push_bit_eq_mult unat_ucast_mod)

lemma ufloat16_decode_large:
  assumes x: "unat x = m + ex * 2048" and ex: "1 \<le> ex" "ex \<le> 30" and m: "2048 \<le> m" "m < 4096"
  shows "unat (ufloat16_decode x) = m * 2 ^ ex"
proof -
  have "unat (drop_bit 11 x) = ex + 1" using x m by (simp add: unat_drop)
  then have e: "unat (drop_bit 11 x - 1) = ex" by (simp add: unat_sub_if')
  define y :: u64 where "y = ucast x - push_bit 11 (ucast (drop_bit 11 x - 1))"
  have "unat (push_bit 11 (ucast (drop_bit 11 x - 1)) :: u64) = ex * 2048"
    using e ex by (simp add: push_bit_eq_mult unat_word_ariths unat_ucast_mod mult.commute)
  moreover have "unat (ucast x :: u64) = m + ex * 2048"
    using x ex m by (simp add: unat_ucast_mod)
  ultimately have y: "unat y = m" unfolding y_def by (simp add: unat_sub_if')
  have "(2 :: nat) ^ ex \<le> 2 ^ 30" using ex(2) by (intro power_increasing) auto
  then have "m * 2 ^ ex < 4096 * 2 ^ 30" using m by (intro mult_less_le_imp_less) auto
  then have "unat (push_bit ex y) = m * 2 ^ ex"
    using y ex unat_push_one [where 'a = 64, of ex] by (simp add: push_bit_eq_mult unat_word_ariths)
  moreover have "\<not> ucast x < (push_bit 12 1 :: u64)"
    using x ex m by (simp add: word_less_nat_alt unat_ucast_mod)
  ultimately show ?thesis
    by (simp add: ufloat16_decode_def Let_def kUFloat16MantissaEffectiveBits_def kUFloat16MantissaBits_def e y_def)
qed

lemma unat_u16_max: "unat (- 1 :: u16) = 65535"
  by (simp add: unsigned_minus_1_eq_mask mask_eq_exp_minus_1)

lemma ufloat16_decode_max: "unat (ufloat16_decode (- 1)) = 4095 * 2 ^ 30"
  using ufloat16_decode_large [of "- 1" 4095 30] by (simp add: unat_u16_max)

lemma ufloat16_roundtrip_bounds:
  "unat v < 4096 \<Longrightarrow> ufloat16_decode (ufloat16_encode v) = v"
  "4095 * 2 ^ 30 \<le> unat v \<Longrightarrow> ufloat16_decode (ufloat16_encode v) = kUFloat16MaxValue"
  "4096 \<le> unat v \<Longrightarrow> unat v < 4095 * 2 ^ 30 \<Longrightarrow>
     unat (ufloat16_decode (ufloat16_encode v)) \<le> unat v \<and>
     (unat v - unat (ufloat16_decode (ufloat16_encode v))) * 2048 < unat (ufloat16_decode (ufloat16_encode v))"
proof -
  show "unat v < 4096 \<Longrightarrow> ufloat16_decode (ufloat16_encode v) = v"
    by (simp add: word_unat_eq_iff ufloat16_decode_small ufloat16_encode_small)
  show "4095 * 2 ^ 30 \<le> unat v \<Longrightarrow> ufloat16_decode (ufloat16_encode v) = kUFloat16MaxValue"
    by (simp add: word_unat_eq_iff ufloat16_encode_clamp ufloat16_decode_max ufloat16_max)
  assume v: "4096 \<le> unat v" "unat v < 4095 * 2 ^ 30"
  then obtain ex m where e: "unat (ufloat16_encode v) = m + ex * 2048" "1 \<le> ex" "ex \<le> 30"
    "m = unat v div 2 ^ ex" "2048 \<le> m" "m < 4096"
    by (rule ufloat16_encode_large)
  have d: "unat (ufloat16_decode (ufloat16_encode v)) = m * 2 ^ ex"
    using e by (intro ufloat16_decode_large) auto
  have split: "unat v = m * 2 ^ ex + unat v mod 2 ^ ex" unfolding e(4) by (simp only: div_mult_mod_eq)
  have "unat v mod 2 ^ ex * 2048 < 2 ^ ex * 2048" by simp
  also have "\<dots> \<le> m * 2 ^ ex" using e(5) by simp
  finally show "unat (ufloat16_decode (ufloat16_encode v)) \<le> unat v \<and>
     (unat v - unat (ufloat16_decode (ufloat16_encode v))) * 2048 < unat (ufloat16_decode (ufloat16_encode v))"
    using split unfolding d by linarith
qed

lemma ufloat16_mantissa_unique:
  fixes m ex ex' :: nat
  assumes "2048 \<le> m" "m < 4096" "2048 \<le> m * 2 ^ ex div 2 ^ ex'" "m * 2 ^ ex div 2 ^ ex' < 4096"
  shows "ex' = ex"
proof (rule ccontr)
  assume "ex' \<noteq> ex"
  then consider k where "ex = ex' + Suc k" | k where "ex' = ex + Suc k"
    by (metis less_imp_Suc_add linorder_neqE_nat add_Suc_right)
  then show False
  proof cases
    case 1
    then have "m * 2 ^ ex div 2 ^ ex' = m * 2 ^ Suc k" by (simp add: power_add)
    moreover have "m * 2 \<le> m * 2 ^ Suc k" by simp
    ultimately show False using assms by linarith
  next
    case 2
    then have "m * 2 ^ ex div 2 ^ ex' = m div 2 ^ Suc k" by (simp add: power_add mult.commute)
    also have "\<dots> \<le> m div 2" by (intro div_le_mono2) auto
    finally show False using assms by linarith
  qed
qed

lemma ufloat16_decode_encode: "ufloat16_encode (ufloat16_decode x) = x"
proof (cases "unat x < 4096")
  case True
  then show ?thesis by (simp add: word_unat_eq_iff ufloat16_decode_small ufloat16_encode_small)
next
  case False
  define ex where "ex = unat x div 2048 - 1"
  define m where "m = unat x - ex * 2048"
  have b: "unat x < 65536" by (rule unat_u16_less)
  have "unat x div 2048 * 2048 + unat x mod 2048 = unat x" by simp
  moreover have "unat x div 2048 \<le> 31" "2 \<le> unat x div 2048" using b False by linarith+
  moreover have "unat x mod 2048 < 2048" by simp
  ultimately have x: "unat x = m + ex * 2048" "1 \<le> ex" "ex \<le> 30" "2048 \<le> m" "m < 4096"
    unfolding m_def ex_def by linarith+
  then have d: "unat (ufloat16_decode x) = m * 2 ^ ex" by (intro ufloat16_decode_large)
  show ?thesis
  proof (cases "4095 * 2 ^ 30 \<le> m * 2 ^ ex")
    case True
    have "ex = 30"
    proof (rule ccontr)
      assume "ex \<noteq> 30"
      then have "m * 2 ^ ex \<le> 4095 * 2 ^ 29" using x by (intro mult_mono power_increasing) auto
      with True show False by simp
    qed
    with True x have "unat x = 65535" by simp
    then have "x = - 1" by (simp add: word_unat_eq_iff unat_u16_max)
    with True d show ?thesis by (simp add: ufloat16_encode_clamp)
  next
    case False
    have "2048 * 2 ^ 1 \<le> m * 2 ^ ex" using x by (intro mult_mono power_increasing) auto
    then have v: "4096 \<le> unat (ufloat16_decode x)" "unat (ufloat16_decode x) < 4095 * 2 ^ 30"
      using d False by simp_all
    obtain ex' m' where e: "unat (ufloat16_encode (ufloat16_decode x)) = m' + ex' * 2048"
      "1 \<le> ex'" "ex' \<le> 30" "m' = unat (ufloat16_decode x) div 2 ^ ex'" "2048 \<le> m'" "m' < 4096"
      using v by (rule ufloat16_encode_large)
    then have "ex' = ex" using ufloat16_mantissa_unique [of m ex ex'] x d by simp
    with e x d show ?thesis by (simp add: word_unat_eq_iff)
  qed
qed

lemma reads_ReadUFloat16 [intro, simp]:
  "reads e ReadUFloat16 (uint_bytes e 2 (unat (ufloat16_encode v))) (ufloat16_decode (ufloat16_encode v))"
  unfolding ReadUFloat16_def by (rule reads_bind_return [OF reads_ReadUInt16]) simp

section \<open>Variable-length integers\<close>

lemma unat_byte: "unat (ucast (word_of_nat x :: u8) :: u64) = x mod 256"
  by (simp add: unat_ucast_mod unat_of_nat)

lemma byte_and_c0: "((b :: u8) AND 0xc0) = word_of_nat (unat b div 64 * 64)"
proof -
  have "b AND 0xc0 = push_bit 6 (drop_bit 6 b)"
  proof (rule bit_word_eqI)
    fix n
    assume "n < LENGTH(8)"
    then have "n \<in> {0,1,2,3,4,5,6,7}" by auto
    moreover have "(0xc0 :: u8) = push_bit 6 (mask 2)" by (simp add: mask_eq_exp_minus_1 push_bit_eq_mult)
    ultimately show "bit (b AND 0xc0) n = bit (push_bit 6 (drop_bit 6 b)) n"
      by (auto simp: bit_simps)
  qed
  moreover have "unat (push_bit 6 (drop_bit 6 b)) = unat b div 64 * 64"
    using unat_u8_less [of b] by (simp add: push_bit_eq_mult unat_word_ariths unat_drop mult.commute)
  moreover have "unat b div 64 * 64 < 256" using unat_u8_less [of b] by linarith
  ultimately show ?thesis by (simp only: word_unat_eq_iff unat_of_nat) simp
qed

lemma and_3f: "unat ((ucast (b :: u8) :: u64) AND 0x3f) = unat b mod 64"
proof -
  have "(ucast b :: u64) AND 0x3f = take_bit 6 (ucast b)" by (simp add: take_bit_eq_mask mask_eq_exp_minus_1)
  then show ?thesis using unat_u8_less [of b] by (simp only: unat_take unat_ucast_mod) simp
qed

lemma div_mod_split: "x mod (a * b) = (x div a mod b) * a + x mod (a :: nat)"
  by (simp add: mod_mult2_eq mult.commute)

lemma sum_bytes:
  fixes x :: nat
  shows "x div 2 ^ 56 * 2 ^ 56 + (x div 2 ^ 48 mod 256) * 2 ^ 48 + (x div 2 ^ 40 mod 256) * 2 ^ 40
   + (x div 2 ^ 32 mod 256) * 2 ^ 32 + (x div 2 ^ 24 mod 256) * 2 ^ 24 + (x div 2 ^ 16 mod 256) * 2 ^ 16
   + (x div 2 ^ 8 mod 256) * 2 ^ 8 + x mod 256 = x" (is ?eight)
    "x div 2 ^ 24 * 2 ^ 24 + (x div 2 ^ 16 mod 256) * 2 ^ 16 + (x div 2 ^ 8 mod 256) * 2 ^ 8 + x mod 256 = x" (is ?four)
    "x div 2 ^ 8 * 2 ^ 8 + x mod 256 = x" (is ?two)
proof -
  have step: "x div 2 ^ (n + 8) * 2 ^ (n + 8) + (x div 2 ^ n mod 256) * 2 ^ n = x div 2 ^ n * 2 ^ n" for n
  proof -
    have "x div 2 ^ n = x div 2 ^ n div 256 * 256 + x div 2 ^ n mod 256" by simp
    also have "x div 2 ^ n div 256 = x div 2 ^ (n + 8)" by (simp add: div_mult2_eq [symmetric] power_add)
    finally have "x div 2 ^ n * 2 ^ n = (x div 2 ^ (n + 8) * 256 + x div 2 ^ n mod 256) * 2 ^ n" by simp
    then show ?thesis by (simp add: power_add algebra_simps)
  qed
  show two: ?two by simp
  show four: ?four using step [of 16] step [of 8] two by simp
  show ?eight using step [of 48] step [of 40] step [of 32] step [of 24] four by simp
qed

lemma r_rest_nth_append:
  assumes "r_rest r = bs @ rest" "i < length bs"
  shows "r_data r ! (r_pos r + i) = bs ! i"
  using assms r_rest_nth [of i r] by (simp add: nth_append)

lemma top_byte:
  fixes x :: nat
  assumes "x < 64" "k < 4"
  shows "(word_of_nat (x + k * 64) :: u8) AND 0xc0 = word_of_nat (k * 64)"
    "(ucast (word_of_nat (x + k * 64) :: u8) :: u64) AND 0x3f = word_of_nat x"
proof -
  have u: "unat (word_of_nat (x + k * 64) :: u8) = x + k * 64"
    using assms by (intro unat_word_of_nat) auto
  show "(word_of_nat (x + k * 64) :: u8) AND 0xc0 = word_of_nat (k * 64)"
    unfolding byte_and_c0 u using assms by simp
  show "(ucast (word_of_nat (x + k * 64) :: u8) :: u64) AND 0x3f = word_of_nat x"
    unfolding word_unat_eq_iff and_3f u using assms by (simp add: unat_of_nat)
qed

lemma push_word_of_nat: "push_bit n (word_of_nat x :: u64) = word_of_nat (x * 2 ^ n)"
  by (simp add: push_bit_eq_mult)

lemma ucast_word_of_byte: "(ucast (word_of_nat (x mod 256) :: u8) :: u64) = word_of_nat (x mod 256)"
  by (simp add: word_unat_eq_iff unat_ucast_mod unat_of_nat)

lemmas byte_sum_simps = push_word_of_nat ucast_word_of_byte of_nat_add [symmetric]

lemma varint62_bytes_list:
  fixes v :: nat
  shows
  "2 ^ 30 \<le> v \<Longrightarrow> v < 2 ^ 62 \<Longrightarrow> varint62_bytes v =
     [word_of_nat (v div 2 ^ 56 + 3 * 64), word_of_nat (v div 2 ^ 48 mod 256),
      word_of_nat (v div 2 ^ 40 mod 256), word_of_nat (v div 2 ^ 32 mod 256),
      word_of_nat (v div 2 ^ 24 mod 256), word_of_nat (v div 2 ^ 16 mod 256),
      word_of_nat (v div 2 ^ 8 mod 256), word_of_nat (v mod 256)]"
  "2 ^ 14 \<le> v \<Longrightarrow> v < 2 ^ 30 \<Longrightarrow> varint62_bytes v =
     [word_of_nat (v div 2 ^ 24 + 2 * 64), word_of_nat (v div 2 ^ 16 mod 256),
      word_of_nat (v div 2 ^ 8 mod 256), word_of_nat (v mod 256)]"
  "2 ^ 6 \<le> v \<Longrightarrow> v < 2 ^ 14 \<Longrightarrow> varint62_bytes v =
     [word_of_nat (v div 2 ^ 8 + 1 * 64), word_of_nat (v mod 256)]"
  "v < 2 ^ 6 \<Longrightarrow> varint62_bytes v = [word_of_nat (v + 0 * 64)]"
proof -
  show "2 ^ 30 \<le> v \<Longrightarrow> v < 2 ^ 62 \<Longrightarrow> varint62_bytes v =
     [word_of_nat (v div 2 ^ 56 + 3 * 64), word_of_nat (v div 2 ^ 48 mod 256),
      word_of_nat (v div 2 ^ 40 mod 256), word_of_nat (v div 2 ^ 32 mod 256),
      word_of_nat (v div 2 ^ 24 mod 256), word_of_nat (v div 2 ^ 16 mod 256),
      word_of_nat (v div 2 ^ 8 mod 256), word_of_nat (v mod 256)]"
    using top_div [of v 56 192] bytes_div [of v "3 * 2 ^ 6" 48]
      bytes_div [of v "3 * 2 ^ 14" 40] bytes_div [of v "3 * 2 ^ 22" 32]
      bytes_div [of v "3 * 2 ^ 30" 24] bytes_div [of v "3 * 2 ^ 38" 16]
      bytes_div [of v "3 * 2 ^ 46" 8] bytes_div [of v "3 * 2 ^ 54" 0]
    by (simp add: varint62_bytes_def be_bytes_unfold)
  show "2 ^ 14 \<le> v \<Longrightarrow> v < 2 ^ 30 \<Longrightarrow> varint62_bytes v =
     [word_of_nat (v div 2 ^ 24 + 2 * 64), word_of_nat (v div 2 ^ 16 mod 256),
      word_of_nat (v div 2 ^ 8 mod 256), word_of_nat (v mod 256)]"
    using top_div [of v 24 128] less_mult_imp_div_less [of v 64 "2 ^ 24"] bytes_div [of v "2 ^ 7" 16] bytes_div [of v "2 ^ 15" 8] bytes_div [of v "2 ^ 23" 0]
    by (simp add: varint62_bytes_def be_bytes_unfold)
  show "2 ^ 6 \<le> v \<Longrightarrow> v < 2 ^ 14 \<Longrightarrow> varint62_bytes v =
     [word_of_nat (v div 2 ^ 8 + 1 * 64), word_of_nat (v mod 256)]"
    using top_div [of v 8 64] bytes_div [of v "2 ^ 6" 0]
    by (simp add: varint62_bytes_def be_bytes_unfold)
  show "v < 2 ^ 6 \<Longrightarrow> varint62_bytes v = [word_of_nat (v + 0 * 64)]"
    by (simp add: varint62_bytes_def be_bytes_def)
qed

lemma reads_ReadVarInt62 [intro, simp]:
  assumes "unat v < 2 ^ 62"
  shows "reads e ReadVarInt62 (varint62_bytes (unat v)) v"
proof (rule readsI)
  fix r :: quic_data_reader and rest
  assume r: "r_rest r = varint62_bytes (unat v) @ rest"
  let ?v = "unat v"
  note nth = r_rest_nth_append [OF r]
  note rem = BytesRemaining_rest [of r, unfolded r]
  consider "2 ^ 30 \<le> ?v" | "2 ^ 14 \<le> ?v" "?v < 2 ^ 30" | "2 ^ 6 \<le> ?v" "?v < 2 ^ 14" | "?v < 2 ^ 6"
    by linarith
  then show "ReadVarInt62 r = (Some v, r_skip (length (varint62_bytes (unat v))) r)"
  proof cases
    case 1
    have top: "?v div 2 ^ 56 < 64" using assms by (simp add: less_mult_imp_div_less)
    note b = varint62_bytes_list(1) [OF 1 assms]
    define w where "w = (\<lambda>i. ucast (varint62_bytes ?v ! i) :: u64)"
    have "w 0 AND 0x3f = word_of_nat (?v div 2 ^ 56)"
      "w 1 = word_of_nat (?v div 2 ^ 48 mod 256)" "w 2 = word_of_nat (?v div 2 ^ 40 mod 256)"
      "w 3 = word_of_nat (?v div 2 ^ 32 mod 256)" "w 4 = word_of_nat (?v div 2 ^ 24 mod 256)"
      "w 5 = word_of_nat (?v div 2 ^ 16 mod 256)" "w 6 = word_of_nat (?v div 2 ^ 8 mod 256)"
      "w 7 = word_of_nat (?v mod 256)"
      using top_byte(2) [OF top, of 3] by (simp_all add: w_def b ucast_word_of_byte)
    then have "push_bit 56 (w 0 AND 0x3f) + push_bit 48 (w 1) + push_bit 40 (w 2) + push_bit 32 (w 3)
      + push_bit 24 (w 4) + push_bit 16 (w 5) + push_bit 8 (w 6) + w 7 = v"
      by (simp only: byte_sum_simps sum_bytes) simp
    then show ?thesis
      using top_byte(1) [OF top, of 3] nth [of 0] nth [of 1] nth [of 2] nth [of 3] nth [of 4] nth [of 5] nth [of 6] nth [of 7]
      by (simp add: ReadVarInt62_def Let_def rem b w_def r_skip_def)
  next
    case 2
    have top: "?v div 2 ^ 24 < 64" using 2 by (simp add: less_mult_imp_div_less)
    note b = varint62_bytes_list(2) [OF 2]
    define w where "w = (\<lambda>i. ucast (varint62_bytes ?v ! i) :: u64)"
    have "w 0 AND 0x3f = word_of_nat (?v div 2 ^ 24)" "w 1 = word_of_nat (?v div 2 ^ 16 mod 256)"
      "w 2 = word_of_nat (?v div 2 ^ 8 mod 256)" "w 3 = word_of_nat (?v mod 256)"
      using top_byte(2) [OF top, of 2] by (simp_all add: w_def b ucast_word_of_byte)
    then have "push_bit 24 (w 0 AND 0x3f) + push_bit 16 (w 1) + push_bit 8 (w 2) + w 3 = v"
      by (simp only: byte_sum_simps sum_bytes) simp
    then show ?thesis
      using top_byte(1) [OF top, of 2] nth [of 0] nth [of 1] nth [of 2] nth [of 3]
      by (simp add: ReadVarInt62_def Let_def rem b w_def r_skip_def)
  next
    case 3
    have top: "?v div 2 ^ 8 < 64" using 3 by (simp add: less_mult_imp_div_less)
    note b = varint62_bytes_list(3) [OF 3]
    define w where "w = (\<lambda>i. ucast (varint62_bytes ?v ! i) :: u64)"
    have "w 0 AND 0x3f = word_of_nat (?v div 2 ^ 8)" "w 1 = word_of_nat (?v mod 256)"
      using top_byte(2) [OF top, of 1] by (simp_all add: w_def b ucast_word_of_byte)
    then have "push_bit 8 (w 0 AND 0x3f) + w 1 = v"
      by (simp only: byte_sum_simps sum_bytes) simp
    then show ?thesis
      using top_byte(1) [OF top, of 1] nth [of 0] nth [of 1]
      by (simp add: ReadVarInt62_def Let_def rem b w_def r_skip_def)
  next
    case 4
    have top: "?v < 64" using 4 by simp
    note b = varint62_bytes_list(4) [OF 4]
    show ?thesis
      using top_byte [OF top, of 0] nth [of 0]
      by (simp add: ReadVarInt62_def Let_def rem b r_skip_def)
  qed
qed

lemma reads_ReadVarIntStreamId [intro, simp]:
  "reads e ReadVarIntStreamId (varint62_bytes (unat i)) i"
proof -
  have un: "unat (ucast i :: u64) = unat i" using unat_u32_less [of i] by (simp add: unat_ucast_mod)
  have le: "\<not> (ucast i :: u64) > kMaxQuicStreamId" using unat_u32_less [of i]
    by (simp add: word_less_nat_alt un kMaxQuicStreamId_def)
  have inj: "ucast (ucast i :: u64) = i" using unat_u32_less [of i] by (simp add: word_unat_eq_iff unat_ucast_mod)
  have "reads e ReadVarInt62 (varint62_bytes (unat i)) (ucast i)"
    using reads_ReadVarInt62 [of "ucast i" e] un unat_u32_less [of i] by simp
  then show ?thesis unfolding ReadVarIntStreamId_def
    by (rule reads_bind_value) (simp add: le inj)
qed

section \<open>Progress\<close>

text \<open>
  No read touches the data or moves backwards, and none leaves the buffer; \<open>consumes\<close>
  says in addition that a successful read moves forward.
\<close>

definition r_ok :: "quic_data_reader \<Rightarrow> bool" where
  "r_ok r \<longleftrightarrow> r_pos r \<le> length (r_data r)"

definition r_later :: "quic_data_reader \<Rightarrow> quic_data_reader \<Rightarrow> bool" where
  "r_later r r' \<longleftrightarrow> r_data r' = r_data r \<and> r_endianness r' = r_endianness r \<and>
     r_pos r \<le> r_pos r' \<and> r_pos r' \<le> length (r_data r)"

definition advances :: "'a read_op \<Rightarrow> bool" where
  "advances f \<longleftrightarrow> (\<forall>r. r_ok r \<longrightarrow> r_later r (snd (f r)))"

lemma r_later_refl [simp]: "r_ok r \<Longrightarrow> r_later r r"
  by (simp add: r_later_def r_ok_def)

lemma r_later_ok: "r_later r r' \<Longrightarrow> r_ok r'"
  by (simp add: r_later_def r_ok_def)

lemma r_later_trans: "r_later r r' \<Longrightarrow> r_later r' r'' \<Longrightarrow> r_later r r''"
  by (auto simp: r_later_def)

lemma advancesD: "advances f \<Longrightarrow> r_ok r \<Longrightarrow> f r = (x, r') \<Longrightarrow> r_later r r'"
  by (metis advances_def snd_conv)

lemma advances_bind [intro]:
  assumes "advances f" "\<And>x. advances (g x)"
  shows "advances (read_bind f g)"
  unfolding advances_def
proof (intro allI impI)
  fix r
  assume "r_ok r"
  obtain a r' where a: "f r = (a, r')" by fastforce
  have l: "r_later r r'" using advancesD [OF assms(1) \<open>r_ok r\<close> a] .
  show "r_later r (snd (read_bind f g r))"
  proof (cases a)
    case None
    then show ?thesis using a l by (simp add: read_bind_def)
  next
    case (Some x)
    have "r_later r' (snd (g x r'))" using assms(2) [of x] r_later_ok [OF l] by (simp add: advances_def)
    then show ?thesis using a l Some by (auto simp: read_bind_def intro: r_later_trans)
  qed
qed

lemma advances_return [intro, simp]: "advances (read_return x)"
  by (simp add: advances_def read_return_def)

lemma advances_pure [intro]: "(\<And>r. snd (f r) = r) \<Longrightarrow> advances f"
  by (simp add: advances_def)

lemma advances_ReadBytes [intro, simp]: "advances (ReadBytes n)"
  by (auto simp: advances_def ReadBytes_def OnFailure_def CanRead_def r_later_def r_ok_def)

lemma advances_ReadBytesToUInt64 [intro, simp]: "advances (ReadBytesToUInt64 n)"
proof -
  have "advances (read_bind (ReadBytes n) (\<lambda>bs. read_return (h bs)))" for h :: "u8 list \<Rightarrow> u64"
    by (intro advances_bind) simp_all
  then show ?thesis by (auto simp: advances_def ReadBytesToUInt64_def)
qed

lemma advances_ReadVarInt62 [intro, simp]: "advances ReadVarInt62"
  by (auto simp: advances_def ReadVarInt62_def Let_def BytesRemaining_def r_later_def r_ok_def)

lemma advances_fixed [intro, simp]:
  "advances ReadUInt8" "advances ReadUInt16" "advances ReadUInt32" "advances ReadUInt64"
  "advances ReadUFloat16" "advances (ReadStringPiece n)" "advances ReadStringPiece16"
  "advances ReadConnectionId" "advances ReadTag" "advances ReadVarIntStreamId"
  unfolding ReadUInt8_def ReadUInt16_def ReadUInt32_def ReadUInt64_def ReadUFloat16_def
    ReadStringPiece_eq ReadStringPiece16_def ReadConnectionId_def ReadTag_def ReadVarIntStreamId_def
  by (intro advances_bind advances_ReadBytes advances_ReadVarInt62 advances_return advances_pure; simp add: Let_def)+

lemma ReadUInt8_progress:
  assumes "r_ok r" "ReadUInt8 r = (Some b, r')"
  shows "BytesRemaining r' < BytesRemaining r"
  using assms by (auto simp: ReadUInt8_def read_bind_def read_return_def ReadBytes_def CanRead_def
      BytesRemaining_def split: if_splits)

end
