(* ===== verification/Quic_Codec.thy ===== *)
theory Quic_Codec
  imports Quic_Data_Reader
begin

text \<open>
  The interface between a writer and the reader of the same value: what the writer appends is
  what the reader consumes, and it yields the value back. Every fixed-width integer, string,
  variable-length integer and frame of the wire format provides this interface; the round trip
  and the failure on a full buffer are proved here once for all of them.

  The framer's own operations fail with or without recording \<open>detailed_error_\<close>: an
  append returns \<open>Refused m\<close> with the message it records, if any, and a parse returns
  \<open>Inl m\<close>.
\<close>

section \<open>Operations that record an error\<close>

datatype append_res = Appended | Refused "string option"

type_synonym append_op = "quic_data_writer \<Rightarrow> append_res \<times> quic_data_writer"
type_synonym 'a parse_op = "quic_data_reader \<Rightarrow> (string + 'a) \<times> quic_data_reader"

text \<open>\<open>if (!op) \{ set_detailed_error(m); return false; \}\<close>, or without the message.\<close>

definition try_write :: "string option \<Rightarrow> write_op \<Rightarrow> append_op" where
  "try_write m f = (\<lambda>w. case f w of (ok, w') \<Rightarrow> (if ok then Appended else Refused m, w'))"

definition append_then :: "append_op \<Rightarrow> append_op \<Rightarrow> append_op" where
  "append_then f g = (\<lambda>w. case f w of (Appended, w') \<Rightarrow> g w' | (Refused m, w') \<Rightarrow> (Refused m, w'))"

definition append_done :: append_op where
  "append_done = (\<lambda>w. (Appended, w))"

definition try_read :: "string \<Rightarrow> 'a read_op \<Rightarrow> 'a parse_op" where
  "try_read m f = (\<lambda>r. case f r of (None, r') \<Rightarrow> (Inl m, r') | (Some x, r') \<Rightarrow> (Inr x, r'))"

definition parse_bind :: "'a parse_op \<Rightarrow> ('a \<Rightarrow> 'b parse_op) \<Rightarrow> 'b parse_op" where
  "parse_bind f g = (\<lambda>r. case f r of (Inl m, r') \<Rightarrow> (Inl m, r') | (Inr x, r') \<Rightarrow> g x r')"

definition parse_return :: "'a \<Rightarrow> 'a parse_op" where
  "parse_return x = (\<lambda>r. (Inr x, r))"

definition parse_fail :: "string \<Rightarrow> 'a parse_op" where
  "parse_fail m = (\<lambda>r. (Inl m, r))"

text \<open>Forgetting the messages.\<close>

definition succeeds :: "append_op \<Rightarrow> write_op" where
  "succeeds f = (\<lambda>w. case f w of (res, w') \<Rightarrow> (res = Appended, w'))"

definition yields :: "'a parse_op \<Rightarrow> 'a read_op" where
  "yields f = (\<lambda>r. case f r of (Inl m, r') \<Rightarrow> (None, r') | (Inr x, r') \<Rightarrow> (Some x, r'))"

definition appending :: "endianness \<Rightarrow> append_op \<Rightarrow> u8 list \<Rightarrow> bool" where
  "appending e f bs \<longleftrightarrow> appends e (succeeds f) bs"

definition parsing :: "endianness \<Rightarrow> 'a parse_op \<Rightarrow> u8 list \<Rightarrow> 'a \<Rightarrow> bool" where
  "parsing e f bs x \<longleftrightarrow> reads e (yields f) bs x"

lemma succeeds_try_write [simp]: "succeeds (try_write m f) = f"
  by (rule ext) (simp add: succeeds_def try_write_def split: prod.splits)

lemma succeeds_then [simp]: "succeeds (append_then f g) = and_then (succeeds f) (succeeds g)"
  by (rule ext)
    (auto simp: succeeds_def append_then_def and_then_def split: prod.splits append_res.splits)

lemma succeeds_done [simp]: "succeeds append_done = write_nothing"
  by (rule ext) (simp add: succeeds_def append_done_def write_nothing_def)

lemma yields_try_read [simp]: "yields (try_read m f) = f"
  by (rule ext) (simp add: yields_def try_read_def split: prod.splits option.splits)

lemma yields_bind [simp]: "yields (parse_bind f g) = read_bind (yields f) (\<lambda>x. yields (g x))"
  by (rule ext) (auto simp: yields_def parse_bind_def read_bind_def split: prod.splits sum.splits)

lemma yields_return [simp]: "yields (parse_return x) = read_return x"
  by (rule ext) (simp add: yields_def parse_return_def read_return_def)

lemma appending_try [intro]: "appends e f bs \<Longrightarrow> appending e (try_write m f) bs"
  by (simp add: appending_def)

lemma appending_then [intro]:
  "appending e f as \<Longrightarrow> appending e g bs \<Longrightarrow> appending e (append_then f g) (as @ bs)"
  by (auto simp: appending_def)

lemma appending_done [intro, simp]: "appending e append_done []"
  by (simp add: appending_def)

lemma parsing_try [intro]: "reads e f bs x \<Longrightarrow> parsing e (try_read m f) bs x"
  by (simp add: parsing_def)

lemma parsing_bind [intro]:
  "parsing e f as x \<Longrightarrow> parsing e (g x) bs y \<Longrightarrow> parsing e (parse_bind f g) (as @ bs) y"
  by (auto simp: parsing_def)

lemma parsing_return [intro, simp]: "parsing e (parse_return x) [] x"
  by (simp add: parsing_def)

lemma parse_bind_return [simp]: "parse_bind (parse_return x) g = g x"
  by (rule ext) (simp add: parse_bind_def parse_return_def)

lemma parsing_bind_last:
  "parsing e f as x \<Longrightarrow> parsing e (g x) [] y \<Longrightarrow> parsing e (parse_bind f g) as y"
  using parsing_bind [of e f as x g "[]" y] by simp

lemma appendingD:
  assumes "appending e f bs" "w_ok w" "w_endianness w = e" "length bs \<le> w_room w"
  shows "f w = (Appended, w_put bs w)"
  using appends_fits [of e "succeeds f" bs w] assms
  by (cases "f w") (simp add: appending_def succeeds_def)

lemma parsingD:
  assumes "parsing e f bs x" "r_endianness r = e" "r_rest r = bs @ rest"
  shows "f r = (Inr x, r_skip (length bs) r)"
  using readsD [of e "yields f" bs x r rest] assms
  by (cases "f r") (simp add: parsing_def yields_def split: sum.splits)

lemma parsingI:
  assumes "\<And>r rest. r_endianness r = e \<Longrightarrow> r_rest r = bs @ rest \<Longrightarrow> f r = (Inr x, r_skip (length bs) r)"
  shows "parsing e f bs x"
  unfolding parsing_def by (rule readsI) (simp add: yields_def assms)

section \<open>The codec interface\<close>

locale codec =
  fixes e :: endianness
    and wr :: "'a \<Rightarrow> append_op"
    and rd :: "'a parse_op"
    and enc :: "'a \<Rightarrow> u8 list"
    and ok :: "'a \<Rightarrow> bool"
  assumes writes: "ok x \<Longrightarrow> appending e (wr x) (enc x)"
    and reads_back: "ok x \<Longrightarrow> parsing e rd (enc x) x"
begin

lemma write_fits:
  assumes "ok x" "w_ok w" "w_endianness w = e" "length (enc x) \<le> w_room w"
  shows "wr x w = (Appended, w_put (enc x) w)"
  using appendingD [OF writes] assms by blast

lemma write_full:
  assumes "ok x" "w_ok w" "w_endianness w = e" "w_room w < length (enc x)"
  shows "\<exists>m w'. wr x w = (Refused m, w') \<and> w_ok w' \<and> (\<exists>k. w_out w' = w_out w @ take k (enc x))"
proof -
  have a: "appends e (succeeds (wr x)) (enc x)" using writes assms(1) by (simp add: appending_def)
  obtain k where "k \<le> w_room w" "succeeds (wr x) w = (False, w_put (take k (enc x)) w)"
    using appends_full [OF a assms(2-4)] by blast
  then show ?thesis using assms
    by (cases "wr x w"; cases "fst (wr x w)") (auto simp: succeeds_def w_out_put)
qed

lemma roundtrip:
  assumes "ok x" "w_ok w" "w_endianness w = e" "length (enc x) \<le> w_room w"
  shows "\<exists>w'. wr x w = (Appended, w') \<and> w_ok w' \<and> w_out w' = w_out w @ enc x \<and>
           rd \<lparr>r_data = w_out w' @ rest, r_pos = w_length w, r_endianness = e\<rparr> =
             (Inr x, \<lparr>r_data = w_out w' @ rest, r_pos = w_length w', r_endianness = e\<rparr>)"
proof -
  let ?w = "w_put (enc x) w"
  let ?r = "\<lparr>r_data = w_out ?w @ rest, r_pos = w_length w, r_endianness = e\<rparr>"
  have len: "length (w_out w) = w_length w" using assms(2) by (simp add: w_out_def w_ok_def)
  have out: "w_out ?w = w_out w @ enc x" using assms by (simp add: w_out_put)
  then have "r_rest ?r = enc x @ rest" using len by (simp add: r_rest_def)
  then have "rd ?r = (Inr x, r_skip (length (enc x)) ?r)"
    by (intro parsingD [OF reads_back [OF assms(1)]]) simp_all
  then show ?thesis using assms out write_fits by (auto simp: r_skip_def)
qed

end

section \<open>Frames behind a type byte\<close>

text \<open>
  An IETF-format append writes the frame's type byte first; its process function starts behind the
  type byte, which the dispatcher has read.
\<close>

definition read_type_byte :: "u8 parse_op" where
  "read_type_byte = try_read ''Unable to read frame type.'' ReadUInt8"

locale frame_codec =
  fixes e :: endianness
    and wr :: "'a \<Rightarrow> append_op"
    and rd :: "u8 \<Rightarrow> 'a parse_op"
    and ty :: "'a \<Rightarrow> u8"
    and body :: "'a \<Rightarrow> u8 list"
    and ok :: "'a \<Rightarrow> bool"
  assumes frame_writes: "ok x \<Longrightarrow> appending e (wr x) (ty x # body x)"
    and frame_reads: "ok x \<Longrightarrow> parsing e (rd (ty x)) (body x) x"

sublocale frame_codec \<subseteq> codec e wr "parse_bind read_type_byte rd" "\<lambda>x. ty x # body x" ok
proof unfold_locales
  fix x
  assume "ok x"
  then show "appending e (wr x) (ty x # body x)" by (rule frame_writes)
  have "parsing e read_type_byte [ty x] (ty x)"
    unfolding read_type_byte_def by (rule parsing_try) simp
  then have "parsing e (parse_bind read_type_byte rd) ([ty x] @ body x) x"
    by (rule parsing_bind) (rule frame_reads [OF \<open>ok x\<close>])
  then show "parsing e (parse_bind read_type_byte rd) (ty x # body x) x" by simp
qed

lemma appending_typed:
  "appending e g bs \<Longrightarrow> appending e (append_then (try_write m (WriteUInt8 t)) g) (t # bs)"
  using appending_then [OF appending_try [OF appends_WriteUInt8]] by fastforce

end
