(* ===== verification/Framer_Base.thy ===== *)
theory Framer_Base
  imports Quic_Codec
begin

text \<open>
  The number formats of the framer (quic/model/my\_quic\_framer.cc and my\_quic\_header.cc):
  sizes of stream ids and offsets, packet-number lengths and their flag encoding, the bit-field
  helpers of the frame type byte, and the reconstruction of full packet numbers and timestamps
  from their truncated wire form. A transport version is its number; a
  \<open>QuicPacketNumberLength\<close> is its number of bytes.
\<close>

section \<open>Constants\<close>

type_synonym transport_version = nat

definition QUIC_VERSION_37 :: transport_version where "QUIC_VERSION_37 = 37"
definition QUIC_VERSION_38 :: transport_version where "QUIC_VERSION_38 = 38"
definition QUIC_VERSION_41 :: transport_version where "QUIC_VERSION_41 = 41"
definition QUIC_VERSION_43 :: transport_version where "QUIC_VERSION_43 = 43"

definition PACKET_1BYTE_PACKET_NUMBER :: nat where "PACKET_1BYTE_PACKET_NUMBER = 1"
definition PACKET_2BYTE_PACKET_NUMBER :: nat where "PACKET_2BYTE_PACKET_NUMBER = 2"
definition PACKET_4BYTE_PACKET_NUMBER :: nat where "PACKET_4BYTE_PACKET_NUMBER = 4"
definition PACKET_6BYTE_PACKET_NUMBER :: nat where "PACKET_6BYTE_PACKET_NUMBER = 6"
definition PACKET_8BYTE_PACKET_NUMBER :: nat where "PACKET_8BYTE_PACKET_NUMBER = 8"

definition PACKET_FLAGS_1BYTE_PACKET :: u8 where "PACKET_FLAGS_1BYTE_PACKET = 0"
definition PACKET_FLAGS_2BYTE_PACKET :: u8 where "PACKET_FLAGS_2BYTE_PACKET = 1"
definition PACKET_FLAGS_4BYTE_PACKET :: u8 where "PACKET_FLAGS_4BYTE_PACKET = 2"
definition PACKET_FLAGS_8BYTE_PACKET :: u8 where "PACKET_FLAGS_8BYTE_PACKET = 3"

lemmas packet_length_defs =
  PACKET_1BYTE_PACKET_NUMBER_def PACKET_2BYTE_PACKET_NUMBER_def PACKET_4BYTE_PACKET_NUMBER_def
  PACKET_6BYTE_PACKET_NUMBER_def PACKET_8BYTE_PACKET_NUMBER_def

lemmas packet_flag_defs =
  PACKET_FLAGS_1BYTE_PACKET_def PACKET_FLAGS_2BYTE_PACKET_def PACKET_FLAGS_4BYTE_PACKET_def
  PACKET_FLAGS_8BYTE_PACKET_def

definition kQuicFrameTypeSize :: nat where "kQuicFrameTypeSize = 1"
definition kQuicErrorCodeSize :: nat where "kQuicErrorCodeSize = 4"
definition kQuicErrorDetailsLengthSize :: nat where "kQuicErrorDetailsLengthSize = 2"
definition kQuicMaxStreamIdSize :: nat where "kQuicMaxStreamIdSize = 4"
definition kQuicMaxStreamOffsetSize :: nat where "kQuicMaxStreamOffsetSize = 8"
definition kQuicStreamPayloadLengthSize :: nat where "kQuicStreamPayloadLengthSize = 2"
definition kQuicDeltaTimeLargestObservedSize :: nat where "kQuicDeltaTimeLargestObservedSize = 2"
definition kQuicNumTimestampsSize :: nat where "kQuicNumTimestampsSize = 1"
definition kNumberOfAckBlocksSize :: nat where "kNumberOfAckBlocksSize = 1"
definition kMaxAckBlocks :: nat where "kMaxAckBlocks = 2 ^ (kNumberOfAckBlocksSize * 8) - 1"
definition kPublicFlagsSize :: nat where "kPublicFlagsSize = 1"
definition kQuicVersionSize :: nat where "kQuicVersionSize = 4"
definition PACKET_8BYTE_CONNECTION_ID :: nat where "PACKET_8BYTE_CONNECTION_ID = 8"

lemmas framer_size_defs =
  kQuicFrameTypeSize_def kQuicErrorCodeSize_def kQuicErrorDetailsLengthSize_def
  kQuicMaxStreamIdSize_def kQuicMaxStreamOffsetSize_def kQuicStreamPayloadLengthSize_def
  kQuicDeltaTimeLargestObservedSize_def kQuicNumTimestampsSize_def kNumberOfAckBlocksSize_def
  kMaxAckBlocks_def kPublicFlagsSize_def kQuicVersionSize_def PACKET_8BYTE_CONNECTION_ID_def

definition endianness_of :: "transport_version \<Rightarrow> endianness" where
  "endianness_of version = (if version > QUIC_VERSION_38 then NETWORK_BYTE_ORDER else HOST_BYTE_ORDER)"

section \<open>Bit fields of a flag byte\<close>

definition GetMaskFromNumBits :: "nat \<Rightarrow> u8" where
  "GetMaskFromNumBits num_bits = push_bit num_bits 1 - 1"

definition ExtractBits :: "u8 \<Rightarrow> nat \<Rightarrow> nat \<Rightarrow> u8" where
  "ExtractBits flags num_bits offset = drop_bit offset flags AND GetMaskFromNumBits num_bits"

definition ExtractBit :: "u8 \<Rightarrow> nat \<Rightarrow> bool" where
  "ExtractBit flags offset \<longleftrightarrow> drop_bit offset flags AND GetMaskFromNumBits 1 \<noteq> 0"

definition SetBits :: "u8 \<Rightarrow> u8 \<Rightarrow> nat \<Rightarrow> nat \<Rightarrow> u8" where
  "SetBits flags val num_bits offset = flags OR push_bit offset val"

definition SetBit :: "u8 \<Rightarrow> bool \<Rightarrow> nat \<Rightarrow> u8" where
  "SetBit flags val offset = SetBits flags (if val then 1 else 0) 1 offset"

section \<open>Sizes of stream ids and offsets\<close>

function stream_id_size_from :: "nat \<Rightarrow> u32 \<Rightarrow> nat" where
  "stream_id_size_from i stream_id =
     (if i > 4 then 4
      else let stream_id' = drop_bit 8 stream_id in
        if stream_id' = 0 then i else stream_id_size_from (i + 1) stream_id')"
  by auto
termination by (relation "measure (\<lambda>(i, _). 5 - i)") auto

definition GetStreamIdSize :: "u32 \<Rightarrow> nat" where
  "GetStreamIdSize stream_id = stream_id_size_from 1 stream_id"

function stream_offset_size_from :: "nat \<Rightarrow> u64 \<Rightarrow> nat" where
  "stream_offset_size_from i offset =
     (if i > 8 then 8
      else let offset' = drop_bit 8 offset in
        if offset' = 0 then i else stream_offset_size_from (i + 1) offset')"
  by auto
termination by (relation "measure (\<lambda>(i, _). 9 - i)") auto

function stream_offset_size_41_from :: "nat \<Rightarrow> u64 \<Rightarrow> nat" where
  "stream_offset_size_41_from i offset =
     (if i > 4 then 8
      else if drop_bit (8 * i) offset = 0 then i
      else stream_offset_size_41_from (i + 2) offset)"
  by auto
termination by (relation "measure (\<lambda>(i, _). 5 - i)") auto

definition GetStreamOffsetSize :: "transport_version \<Rightarrow> u64 \<Rightarrow> nat" where
  "GetStreamOffsetSize version offset =
     (if version \<noteq> QUIC_VERSION_41 then
        (if offset = 0 then 0 else stream_offset_size_from 2 (drop_bit 8 offset))
      else stream_offset_size_41_from 0 offset)"

section \<open>Packet numbers\<close>

definition Delta :: "u64 \<Rightarrow> u64 \<Rightarrow> u64" where
  "Delta a b = (if a < b then b - a else a - b)"

definition ClosestTo :: "u64 \<Rightarrow> u64 \<Rightarrow> u64 \<Rightarrow> u64" where
  "ClosestTo target a b = (if Delta target a < Delta target b then a else b)"

text \<open>
  The shift is defined in C++ for lengths up to seven bytes; the callers pass 1, 2, 4 or 6.
\<close>

definition CalculatePacketNumberFromWire :: "nat \<Rightarrow> u64 \<Rightarrow> u64 \<Rightarrow> u64" where
  "CalculatePacketNumberFromWire packet_number_length base_packet_number packet_number =
     (let epoch_delta = push_bit (8 * packet_number_length) 1;
          next_packet_number = base_packet_number + 1;
          epoch = base_packet_number AND NOT (epoch_delta - 1);
          prev_epoch = epoch - epoch_delta;
          next_epoch = epoch + epoch_delta
      in ClosestTo next_packet_number (epoch + packet_number)
           (ClosestTo next_packet_number (prev_epoch + packet_number) (next_epoch + packet_number)))"

text \<open>\<open>last_timestamp\<close> and the result are the microseconds of a \<open>QuicTime::Delta\<close>.\<close>

definition CalculateTimestampFromWire :: "u64 \<Rightarrow> u32 \<Rightarrow> u64" where
  "CalculateTimestampFromWire last_timestamp time_delta_us =
     (let epoch_delta = push_bit 32 1;
          epoch = last_timestamp AND NOT (epoch_delta - 1);
          prev_epoch = epoch - epoch_delta;
          next_epoch = epoch + epoch_delta
      in ClosestTo last_timestamp (epoch + ucast time_delta_us)
           (ClosestTo last_timestamp (prev_epoch + ucast time_delta_us) (next_epoch + ucast time_delta_us)))"

definition GetMinPacketNumberLength :: "transport_version \<Rightarrow> u64 \<Rightarrow> nat" where
  "GetMinPacketNumberLength version packet_number =
     (if packet_number < push_bit (PACKET_1BYTE_PACKET_NUMBER * 8) 1 then PACKET_1BYTE_PACKET_NUMBER
      else if packet_number < push_bit (PACKET_2BYTE_PACKET_NUMBER * 8) 1 then PACKET_2BYTE_PACKET_NUMBER
      else if packet_number < push_bit (PACKET_4BYTE_PACKET_NUMBER * 8) 1 then PACKET_4BYTE_PACKET_NUMBER
      else if version \<noteq> QUIC_VERSION_41 then PACKET_6BYTE_PACKET_NUMBER
      else PACKET_8BYTE_PACKET_NUMBER)"

definition GetPacketNumberFlags :: "nat \<Rightarrow> u8" where
  "GetPacketNumberFlags packet_number_length =
     (if packet_number_length = PACKET_1BYTE_PACKET_NUMBER then PACKET_FLAGS_1BYTE_PACKET
      else if packet_number_length = PACKET_2BYTE_PACKET_NUMBER then PACKET_FLAGS_2BYTE_PACKET
      else if packet_number_length = PACKET_4BYTE_PACKET_NUMBER then PACKET_FLAGS_4BYTE_PACKET
      else PACKET_FLAGS_8BYTE_PACKET)"

definition ReadSequenceNumberLength :: "u8 \<Rightarrow> nat" where
  "ReadSequenceNumberLength flags =
     (let f = flags AND PACKET_FLAGS_8BYTE_PACKET in
      if f = PACKET_FLAGS_8BYTE_PACKET then PACKET_6BYTE_PACKET_NUMBER
      else if f = PACKET_FLAGS_4BYTE_PACKET then PACKET_4BYTE_PACKET_NUMBER
      else if f = PACKET_FLAGS_2BYTE_PACKET then PACKET_2BYTE_PACKET_NUMBER
      else if f = PACKET_FLAGS_1BYTE_PACKET then PACKET_1BYTE_PACKET_NUMBER
      else PACKET_6BYTE_PACKET_NUMBER)"

definition ReadAckPacketNumberLength :: "transport_version \<Rightarrow> u8 \<Rightarrow> nat" where
  "ReadAckPacketNumberLength version flags =
     (let f = flags AND PACKET_FLAGS_8BYTE_PACKET in
      if f = PACKET_FLAGS_8BYTE_PACKET then
        (if version \<noteq> QUIC_VERSION_41 then PACKET_6BYTE_PACKET_NUMBER else PACKET_8BYTE_PACKET_NUMBER)
      else if f = PACKET_FLAGS_4BYTE_PACKET then PACKET_4BYTE_PACKET_NUMBER
      else if f = PACKET_FLAGS_2BYTE_PACKET then PACKET_2BYTE_PACKET_NUMBER
      else if f = PACKET_FLAGS_1BYTE_PACKET then PACKET_1BYTE_PACKET_NUMBER
      else PACKET_6BYTE_PACKET_NUMBER)"

section \<open>Appending numbers\<close>

definition AppendPacketNumber :: "nat \<Rightarrow> u64 \<Rightarrow> write_op" where
  "AppendPacketNumber packet_number_length packet_number w =
     (if packet_number_length \<noteq> 1 \<and> packet_number_length \<noteq> 2 \<and> packet_number_length \<noteq> 4 \<and>
         packet_number_length \<noteq> 6 \<and> packet_number_length \<noteq> 8 then (False, w)
      else WriteBytesToUInt64 packet_number_length packet_number w)"

definition AppendStreamId :: "nat \<Rightarrow> u32 \<Rightarrow> write_op" where
  "AppendStreamId stream_id_length stream_id w =
     (if stream_id_length = 0 \<or> stream_id_length > 4 then (False, w)
      else WriteBytesToUInt64 stream_id_length (ucast stream_id) w)"

definition AppendStreamOffset :: "nat \<Rightarrow> u64 \<Rightarrow> write_op" where
  "AppendStreamOffset offset_length offset w =
     (if offset_length = 1 \<or> offset_length > 8 then (False, w)
      else WriteBytesToUInt64 offset_length offset w)"

definition AppendAckBlock :: "u8 \<Rightarrow> nat \<Rightarrow> u64 \<Rightarrow> write_op" where
  "AppendAckBlock gap length_length len =
     and_then (WriteUInt8 gap) (AppendPacketNumber length_length len)"

definition ProcessAndCalculatePacketNumber :: "nat \<Rightarrow> u64 \<Rightarrow> u64 read_op" where
  "ProcessAndCalculatePacketNumber packet_number_length base_packet_number =
     read_bind (ReadBytesToUInt64 packet_number_length) (\<lambda>wire_packet_number.
       read_return (CalculatePacketNumberFromWire packet_number_length base_packet_number wire_packet_number))"

section \<open>Frame sizes\<close>

definition GetMinStreamFrameSize :: "transport_version \<Rightarrow> u32 \<Rightarrow> u64 \<Rightarrow> bool \<Rightarrow> nat" where
  "GetMinStreamFrameSize version stream_id offset last_frame_in_packet =
     kQuicFrameTypeSize + GetStreamIdSize stream_id + GetStreamOffsetSize version offset +
     (if last_frame_in_packet then 0 else kQuicStreamPayloadLengthSize)"

definition GetMinAckFrameSize :: "transport_version \<Rightarrow> nat \<Rightarrow> nat" where
  "GetMinAckFrameSize version largest_observed_length =
     (let min_size = kQuicFrameTypeSize + largest_observed_length + kQuicDeltaTimeLargestObservedSize
      in min_size + kQuicNumTimestampsSize)"

definition GetStopWaitingFrameSize :: "transport_version \<Rightarrow> nat \<Rightarrow> nat" where
  "GetStopWaitingFrameSize version packet_number_length = kQuicFrameTypeSize + packet_number_length"

definition GetRstStreamFrameSize :: nat where
  "GetRstStreamFrameSize =
     kQuicFrameTypeSize + kQuicMaxStreamIdSize + kQuicMaxStreamOffsetSize + kQuicErrorCodeSize"

definition GetMinConnectionCloseFrameSize :: nat where
  "GetMinConnectionCloseFrameSize = kQuicFrameTypeSize + kQuicErrorCodeSize + kQuicErrorDetailsLengthSize"

definition GetMinGoAwayFrameSize :: nat where
  "GetMinGoAwayFrameSize =
     kQuicFrameTypeSize + kQuicErrorCodeSize + kQuicErrorDetailsLengthSize + kQuicMaxStreamIdSize"

definition GetWindowUpdateFrameSize :: nat where
  "GetWindowUpdateFrameSize = kQuicFrameTypeSize + kQuicMaxStreamIdSize + kQuicMaxStreamOffsetSize"

definition GetBlockedFrameSize :: nat where
  "GetBlockedFrameSize = kQuicFrameTypeSize + kQuicMaxStreamIdSize"

definition GetVersionNegotiationPacketSize :: "nat \<Rightarrow> nat" where
  "GetVersionNegotiationPacketSize number_versions =
     kPublicFlagsSize + PACKET_8BYTE_CONNECTION_ID + number_versions * kQuicVersionSize"

definition PacketNumberLengthToShortHeaderType :: "nat \<Rightarrow> u8" where
  "PacketNumberLengthToShortHeaderType packet_number_length =
     (if packet_number_length = PACKET_1BYTE_PACKET_NUMBER then 0
      else if packet_number_length = PACKET_2BYTE_PACKET_NUMBER then 1
      else if packet_number_length = PACKET_4BYTE_PACKET_NUMBER then 2
      else 0)"

section \<open>Size lemmas\<close>

declare stream_id_size_from.simps [simp del] stream_offset_size_from.simps [simp del]
  stream_offset_size_41_from.simps [simp del]

lemma drop_bit_zero_iff: "drop_bit n (v :: 'a::len word) = 0 \<longleftrightarrow> unat v < 2 ^ n"
  by (simp only: unat_0_iff [symmetric] unat_drop div_eq_0_iff) simp

lemma GetStreamIdSize_eq:
  "GetStreamIdSize sid =
     (if unat sid < 2 ^ 8 then 1 else if unat sid < 2 ^ 16 then 2 else if unat sid < 2 ^ 24 then 3 else 4)"
  using unat_u32_less [of sid]
  by (simp add: GetStreamIdSize_def stream_id_size_from.simps [of 1] stream_id_size_from.simps [of 2]
      stream_id_size_from.simps [of 3] stream_id_size_from.simps [of 4] Let_def drop_bit_zero_iff
      flip: One_nat_def)

lemma GetStreamOffsetSize_eq:
  "GetStreamOffsetSize version offset =
     (if version = QUIC_VERSION_41 then
        if offset = 0 then 0 else if unat offset < 2 ^ 16 then 2 else if unat offset < 2 ^ 32 then 4 else 8
      else
        if offset = 0 then 0 else if unat offset < 2 ^ 16 then 2 else if unat offset < 2 ^ 24 then 3
        else if unat offset < 2 ^ 32 then 4 else if unat offset < 2 ^ 40 then 5
        else if unat offset < 2 ^ 48 then 6 else if unat offset < 2 ^ 56 then 7 else 8)"
  using unat_u64_less [of offset]
  by (simp add: GetStreamOffsetSize_def stream_offset_size_from.simps [of 2] stream_offset_size_from.simps [of 3]
      stream_offset_size_from.simps [of 4] stream_offset_size_from.simps [of 5] stream_offset_size_from.simps [of 6]
      stream_offset_size_from.simps [of 7] stream_offset_size_from.simps [of 8] stream_offset_size_41_from.simps [of 0]
      Let_def drop_bit_zero_iff unat_0_iff
      stream_offset_size_41_from.simps [of "Suc (Suc 0)"] stream_offset_size_41_from.simps [of "Suc (Suc (Suc (Suc 0)))"]
      stream_offset_size_41_from.simps [of "Suc (Suc (Suc (Suc (Suc (Suc 0)))))"])

lemma GetStreamIdSize_bounds:
  "1 \<le> GetStreamIdSize sid" "GetStreamIdSize sid \<le> 4" "unat sid < 256 ^ GetStreamIdSize sid"
  using unat_u32_less [of sid] by (simp_all add: GetStreamIdSize_eq)

lemma GetStreamOffsetSize_bounds:
  "GetStreamOffsetSize version offset \<le> 8" "GetStreamOffsetSize version offset \<noteq> 1"
  "unat offset < 256 ^ GetStreamOffsetSize version offset"
  using unat_u64_less [of offset] by (simp_all add: GetStreamOffsetSize_eq)

section \<open>Packet-number lengths\<close>

lemma GetMinPacketNumberLength_cases:
  "GetMinPacketNumberLength version n =
     (if unat n < 2 ^ 8 then 1 else if unat n < 2 ^ 16 then 2 else if unat n < 2 ^ 32 then 4
      else if version \<noteq> QUIC_VERSION_41 then 6 else 8)"
  by (simp add: GetMinPacketNumberLength_def packet_length_defs word_less_nat_alt)

lemma packet_number_flags_roundtrip:
  assumes "len \<in> {1, 2, 4, 6}"
  shows "ReadSequenceNumberLength (GetPacketNumberFlags len) = len"
  using assms by (auto simp: ReadSequenceNumberLength_def GetPacketNumberFlags_def Let_def
      packet_length_defs packet_flag_defs)

section \<open>Closest epoch\<close>

lemma unat_Delta:
  "unat (Delta a b) = (if unat a < unat b then unat b - unat a else unat a - unat b)"
  by (simp add: Delta_def word_less_nat_alt unat_sub_if')

lemma ClosestTo_strict:
  "unat (Delta t a) < unat (Delta t b) \<Longrightarrow> ClosestTo t a b = a"
  "unat (Delta t b) \<le> unat (Delta t a) \<Longrightarrow> ClosestTo t a b = b"
  by (simp_all add: ClosestTo_def word_less_nat_alt)

text \<open>The previous epoch of the first one wraps around, and is then far from the target.\<close>

lemma unat_prev_epoch:
  fixes E D x :: u64
  assumes "unat E = 0 \<or> unat D \<le> unat E" "unat x < unat D" "unat D \<le> 2 ^ 62" "unat E + 2 * unat D < 2 ^ 63"
  shows "unat (E - D + x) = (if unat E = 0 then 2 ^ 64 - unat D + unat x else unat E - unat D + unat x)"
  using assms by (auto simp: unat_word_ariths unat_sub_if')

lemma closest_epoch:
  fixes E D x t :: u64
  assumes D: "0 < unat D" "unat D \<le> 2 ^ 62" and E: "unat E = unat D * k" and x: "unat x < unat D"
    and t: "unat E \<le> unat t" "unat t \<le> unat E + unat D" and big: "unat E + 2 * unat D < 2 ^ 63"
    and pn: "pn mod unat D = unat x" "2 * pn < 2 * unat t + unat D" "2 * unat t < 2 * pn + unat D"
  shows "unat (ClosestTo t (E + x) (ClosestTo t (E - D + x) (E + D + x))) = pn"
proof -
  let ?E = "unat E" and ?D = "unat D" and ?x = "unat x" and ?t = "unat t"
  have c0: "unat (E + x) = ?E + ?x" and cp: "unat (E + D + x) = ?E + ?D + ?x"
    using x big by (simp_all add: unat_word_ariths)
  have kE: "?E = 0 \<or> ?D \<le> ?E" using E by (cases k) auto
  note cm = unat_prev_epoch [OF kE x D(2) big]
  have pnk: "pn = ?D * (pn div ?D) + ?x" using pn(1) by (metis mult_div_mod_eq)
  have "pn div ?D + 1 = k \<or> pn div ?D = k \<or> pn div ?D = k + 1"
  proof -
    have "?D * k < ?D * (pn div ?D + 2)" using pn(3) pnk t(1) E x by (simp add: algebra_simps)
    then have "k < pn div ?D + 2" by (simp only: mult_less_cancel1)
    moreover have "?D * (pn div ?D) < ?D * (k + 2)" using pn(2) pnk t(2) E by (simp add: algebra_simps)
    then have "pn div ?D < k + 2" by (simp only: mult_less_cancel1)
    ultimately show ?thesis by linarith
  qed
  then consider (prev) "k \<noteq> 0" "pn + ?D = ?E + ?x" | (same) "pn = ?E + ?x" | (succ) "pn = ?E + ?D + ?x"
    using pnk E by (auto simp: algebra_simps)
  then show ?thesis
  proof cases
    case prev
    then have e: "?D \<le> ?E" "?E \<noteq> 0" using E D by auto
    have c: "unat (E - D + x) = pn" "unat (E + x) = pn + ?D" "unat (E + D + x) = pn + ?D + ?D"
      using prev e cm c0 cp by simp_all
    have "unat (Delta t (E - D + x)) < unat (Delta t (E + D + x))"
      "unat (Delta t (E - D + x)) \<le> unat (Delta t (E + x))"
      unfolding unat_Delta c using pn(2,3) by auto
    then show ?thesis using c by (simp add: ClosestTo_strict)
  next
    case same
    have "unat (Delta t (E + x)) < unat (Delta t (E - D + x))"
    proof (cases "?E = 0")
      case True
      then have c: "unat (E - D + x) = 2 ^ 64 - ?D + ?x" using cm by simp
      show ?thesis unfolding unat_Delta c c0 using True same pn(2,3) t big D(2) by auto
    next
      case False
      then have c: "unat (E - D + x) = ?E - ?D + ?x" "?D \<le> ?E" using cm kE by simp_all
      show ?thesis unfolding unat_Delta c(1) c0 using c(2) same pn(2,3) by auto
    qed
    moreover have "unat (Delta t (E + x)) < unat (Delta t (E + D + x))"
      unfolding unat_Delta cp c0 using same pn(2,3) by auto
    ultimately have "unat (Delta t (E + x)) < unat (Delta t (ClosestTo t (E - D + x) (E + D + x)))"
      by (simp add: ClosestTo_def)
    then show ?thesis using same c0 by (simp add: ClosestTo_strict)
  next
    case succ
    have "unat (Delta t (E + D + x)) \<le> unat (Delta t (E - D + x))"
    proof (cases "?E = 0")
      case True
      then have c: "unat (E - D + x) = 2 ^ 64 - ?D + ?x" using cm by simp
      show ?thesis unfolding unat_Delta c cp using True succ pn(2,3) t big D(2) by auto
    next
      case False
      then have c: "unat (E - D + x) = ?E - ?D + ?x" "?D \<le> ?E" using cm kE by simp_all
      show ?thesis unfolding unat_Delta c(1) cp using c(2) succ pn(2,3) by auto
    qed
    moreover have "unat (Delta t (E + D + x)) \<le> unat (Delta t (E + x))"
      unfolding unat_Delta cp c0 using succ pn(2,3) by auto
    ultimately show ?thesis using succ cp by (simp add: ClosestTo_strict)
  qed
qed

lemma unat_epoch:
  fixes b :: u64
  assumes "n < 64"
  shows "unat (b AND NOT (push_bit n 1 - 1)) = 2 ^ n * (unat b div 2 ^ n)"
proof -
  have "b AND NOT (push_bit n 1 - 1) = push_bit n (drop_bit n b)"
    by (rule bit_word_eqI) (auto simp: bit_simps mask_eq_exp_minus_1 [symmetric])
  moreover have "2 ^ n * (unat b div 2 ^ n) < 2 ^ 64"
    using le_less_trans [OF times_div_less_eq_dividend [of "2 ^ n" "unat b"] unat_u64_less [of b]] by simp
  ultimately show ?thesis
    using unat_push_one [where 'a = 64, of n] assms
    by (simp add: push_bit_eq_mult unat_word_ariths unat_drop mult.commute)
qed

lemma CalculatePacketNumberFromWire_closest:
  assumes len: "len \<in> {1, 2, 4, 6}" and base: "unat base < 2 ^ 62"
    and pn: "2 * pn < 2 * (unat base + 1) + 2 ^ (8 * len)" "2 * (unat base + 1) < 2 * pn + 2 ^ (8 * len)"
  shows "unat (CalculatePacketNumberFromWire len base (word_of_nat (pn mod 2 ^ (8 * len)))) = pn"
proof -
  let ?D = "push_bit (8 * len) 1 :: u64" and ?E = "base AND NOT (push_bit (8 * len) 1 - 1)"
  have n: "8 * len < 64" using len by auto
  have D: "unat ?D = 2 ^ (8 * len)" using n by (intro unat_push_one) simp
  have D48: "(2 :: nat) ^ (8 * len) \<le> 2 ^ 48" using len by (intro power_increasing) auto
  have E: "unat ?E = 2 ^ (8 * len) * (unat base div 2 ^ (8 * len))" using n by (rule unat_epoch)
  have split: "unat base = unat ?E + unat base mod 2 ^ (8 * len)" unfolding E by simp
  have r: "unat base mod 2 ^ (8 * len) < 2 ^ (8 * len)" by simp
  have t: "unat (base + 1) = unat base + 1" using base by (simp add: unat_word_ariths)
  have x: "unat (word_of_nat (pn mod 2 ^ (8 * len)) :: u64) = pn mod 2 ^ (8 * len)"
  proof (rule unat_word_of_nat)
    have "pn mod 2 ^ (8 * len) < 2 ^ (8 * len)" by simp
    also note D48
    finally show "pn mod 2 ^ (8 * len) < 2 ^ LENGTH(64)" by simp
  qed
  show ?thesis
    unfolding CalculatePacketNumberFromWire_def Let_def
  proof (rule closest_epoch [where k = "unat base div 2 ^ (8 * len)"])
    show "unat ?E \<le> unat (base + 1)" "unat (base + 1) \<le> unat ?E + unat ?D"
      unfolding D t using split r by linarith+
    show "unat ?E + 2 * unat ?D < 2 ^ 63" unfolding D using split base D48 by simp
  qed (use D48 pn E in \<open>simp_all only: D x t\<close>, simp_all)
qed

lemma CalculateTimestampFromWire_closest:
  assumes last: "unat ts < 2 ^ 62"
    and us: "2 * us < 2 * unat ts + 2 ^ 32" "2 * unat ts < 2 * us + 2 ^ 32"
  shows "unat (CalculateTimestampFromWire ts (word_of_nat (us mod 2 ^ 32))) = us"
proof -
  let ?D = "push_bit 32 1 :: u64" and ?E = "ts AND NOT (push_bit 32 1 - 1)"
  have D: "unat ?D = 2 ^ 32" by (intro unat_push_one) simp
  have E: "unat ?E = 2 ^ 32 * (unat ts div 2 ^ 32)" by (rule unat_epoch) simp
  have split: "unat ts = unat ?E + unat ts mod 2 ^ 32" unfolding E by simp
  have r: "unat ts mod 2 ^ 32 < 2 ^ 32" by simp
  have x: "unat (ucast (word_of_nat (us mod 2 ^ 32) :: u32) :: u64) = us mod 2 ^ 32"
    by (simp add: unat_ucast_mod unat_of_nat)
  show ?thesis
    unfolding CalculateTimestampFromWire_def Let_def
  proof (rule closest_epoch [where k = "unat ts div 2 ^ 32"])
    show "unat ?E \<le> unat ts" "unat ts \<le> unat ?E + unat ?D" unfolding D using split r by linarith+
    show "unat ?E + 2 * unat ?D < 2 ^ 63" unfolding D using split last by simp
  qed (use us E in \<open>simp_all only: D x\<close>, simp_all)
qed

section \<open>Appending and reading numbers\<close>

lemma appends_AppendPacketNumber [intro, simp]:
  assumes "len \<in> {1, 2, 4, 6, 8}"
  shows "appends e (AppendPacketNumber len n) (uint_bytes e len (unat n))"
  using assms by (intro appends_cong [OF appends_WriteBytesToUInt64]) (auto simp: AppendPacketNumber_def)

lemma appends_AppendStreamId [intro, simp]:
  "appends e (AppendStreamId (GetStreamIdSize sid) sid) (uint_bytes e (GetStreamIdSize sid) (unat sid))"
proof -
  have "unat (ucast sid :: u64) = unat sid" using unat_u32_less [of sid] by (simp add: unat_ucast_mod)
  moreover have "appends e (WriteBytesToUInt64 (GetStreamIdSize sid) (ucast sid))
     (uint_bytes e (GetStreamIdSize sid) (unat (ucast sid :: u64)))"
    using GetStreamIdSize_bounds(2) [of sid] by (intro appends_WriteBytesToUInt64) simp
  ultimately show ?thesis using GetStreamIdSize_bounds(1,2) [of sid]
    by (auto intro: appends_cong simp: AppendStreamId_def)
qed

lemma appends_AppendStreamOffset [intro, simp]:
  "appends e (AppendStreamOffset (GetStreamOffsetSize version offset) offset)
     (uint_bytes e (GetStreamOffsetSize version offset) (unat offset))"
  using GetStreamOffsetSize_bounds(1,2) [of version offset]
  by (intro appends_cong [OF appends_WriteBytesToUInt64]) (auto simp: AppendStreamOffset_def)

lemma appends_AppendAckBlock [intro, simp]:
  "len \<in> {1, 2, 4, 6, 8} \<Longrightarrow>
     appends e (AppendAckBlock gap len n) (gap # uint_bytes e len (unat n))"
  using appends_and_then [OF appends_WriteUInt8 appends_AppendPacketNumber, of len e gap n]
  by (simp add: AppendAckBlock_def)

end
