(* ===== verification/Framer_Frames.thy ===== *)
theory Framer_Frames
  imports Framer_Base
begin

text \<open>
  The Google-QUIC frames of quic/model/my\_quic\_framer.cc other than ACK: stream, reset,
  connection close, go-away, window update, blocked, stop-waiting and padding, each as the record
  the C++ struct is, with its append and its process function. The \<open>data_producer_\<close> that may
  supply stream data is an argument.
\<close>

section \<open>Frames\<close>

record quic_stream_frame =
  sf_stream_id :: u32
  sf_fin :: bool
  sf_offset :: u64
  sf_data :: "u8 list"

record quic_rst_stream_frame =
  rst_stream_id :: u32
  rst_error_code :: u32
  rst_byte_offset :: u64

record quic_connection_close_frame =
  cc_error_code :: u32
  cc_error_details :: "u8 list"

record quic_goaway_frame =
  ga_error_code :: u32
  ga_last_good_stream_id :: u32
  ga_reason_phrase :: "u8 list"

record quic_window_update_frame =
  wu_stream_id :: u32
  wu_byte_offset :: u64

record quic_blocked_frame =
  bl_stream_id :: u32

record quic_stop_waiting_frame =
  sw_least_unacked :: u64

record quic_padding_frame =
  num_padding_bytes :: int

type_synonym data_producer = "u32 \<Rightarrow> u64 \<Rightarrow> nat \<Rightarrow> write_op"

definition QUIC_STREAM_LAST_ERROR :: u32 where "QUIC_STREAM_LAST_ERROR = 17"
definition QUIC_LAST_ERROR :: u32 where "QUIC_LAST_ERROR = 120"
definition kMaxErrorStringLength :: nat where "kMaxErrorStringLength = 256"

definition TruncateErrorString :: "u8 list \<Rightarrow> u8 list" where
  "TruncateErrorString err =
     (if length err \<le> kMaxErrorStringLength then err else take kMaxErrorStringLength err)"

section \<open>Stream frames\<close>

definition stream_type_byte :: "transport_version \<Rightarrow> bool \<Rightarrow> bool \<Rightarrow> nat \<Rightarrow> nat \<Rightarrow> u8" where
  "stream_type_byte version fin no_stream_frame_length offset_len stream_id_len =
     (if version \<noteq> QUIC_VERSION_41 then
        let b = (if fin then 1 else 0);
            b = push_bit 1 b OR (if no_stream_frame_length then 0 else 1);
            b = push_bit 3 b;
            b = (if offset_len > 0 then b OR word_of_nat (offset_len - 1) else b);
            b = push_bit 2 b OR word_of_nat (stream_id_len - 1)
        in b OR 0x80
      else
        let b = SetBit 0 fin 5;
            b = SetBit b (\<not> no_stream_frame_length) 0;
            offset_len_encode = (if offset_len = 0 then 0 else if offset_len = 2 then 1
                                 else if offset_len = 4 then 2 else 3);
            b = SetBits b offset_len_encode 2 1;
            b = SetBits b (word_of_nat (stream_id_len - 1)) 2 3
        in b OR 0xc0)"

definition AppendStreamTypeByte :: "transport_version \<Rightarrow> quic_stream_frame \<Rightarrow> bool \<Rightarrow> append_op" where
  "AppendStreamTypeByte version frame no_stream_frame_length =
     try_write None (WriteUInt8 (stream_type_byte version (sf_fin frame) no_stream_frame_length
       (GetStreamOffsetSize version (sf_offset frame)) (GetStreamIdSize (sf_stream_id frame))))"

definition AppendStreamFrame ::
  "transport_version \<Rightarrow> data_producer option \<Rightarrow> quic_stream_frame \<Rightarrow> bool \<Rightarrow> append_op" where
  "AppendStreamFrame version producer frame no_stream_frame_length =
     append_then (try_write None
       (AppendStreamId (GetStreamIdSize (sf_stream_id frame)) (sf_stream_id frame)))
     (append_then (try_write None
       (AppendStreamOffset (GetStreamOffsetSize version (sf_offset frame)) (sf_offset frame)))
     (append_then
       (if \<not> no_stream_frame_length then
          (if length (sf_data frame) > 65535 then (\<lambda>w. (Refused None, w))
           else try_write None (WriteUInt16 (word_of_nat (length (sf_data frame)))))
        else append_done)
       (case producer of
          Some write_stream_data \<Rightarrow>
            (if length (sf_data frame) = 0 then append_done
             else try_write None
               (write_stream_data (sf_stream_id frame) (sf_offset frame) (length (sf_data frame))))
        | None \<Rightarrow> try_write None (WriteBytes (sf_data frame)))))"

definition stream_flags :: "transport_version \<Rightarrow> u8 \<Rightarrow> nat \<times> nat \<times> bool \<times> bool" where
  "stream_flags version frame_type =
     (if version \<noteq> QUIC_VERSION_41 then
        let flags = frame_type AND NOT 0x80;
            stream_id_length = unat (flags AND 3) + 1;
            flags = drop_bit 2 flags;
            offset_length = unat (flags AND 7);
            offset_length = (if offset_length > 0 then offset_length + 1 else offset_length);
            flags = drop_bit 3 flags;
            has_data_length = (flags AND 1 = 1);
            flags = drop_bit 1 flags
        in (stream_id_length, offset_length, has_data_length, flags AND 1 = 1)
      else
        let flags = frame_type AND NOT 0xc0;
            stream_id_length = 1 + unat (ExtractBits flags 2 3);
            offset_length = 2 ^ unat (ExtractBits flags 2 1);
            offset_length = (if offset_length = 1 then 0 else offset_length)
        in (stream_id_length, offset_length, ExtractBit flags 0, ExtractBit flags 5))"

definition ProcessStreamFrame :: "transport_version \<Rightarrow> u8 \<Rightarrow> quic_stream_frame parse_op" where
  "ProcessStreamFrame version frame_type =
     (case stream_flags version frame_type of
        (stream_id_length, offset_length, has_data_length, fin) \<Rightarrow>
          parse_bind (try_read ''Unable to read stream_id.'' (ReadBytesToUInt64 stream_id_length)) (\<lambda>stream_id.
          parse_bind (try_read ''Unable to read offset.'' (ReadBytesToUInt64 offset_length)) (\<lambda>offset.
          parse_bind (if has_data_length then try_read ''Unable to read frame data.'' ReadStringPiece16
                      else (\<lambda>r. try_read ''Unable to read frame data.''
                                  (ReadStringPiece (BytesRemaining r)) r)) (\<lambda>data.
          parse_return \<lparr>sf_stream_id = ucast stream_id, sf_fin = fin, sf_offset = offset,
            sf_data = take (length data mod 65536) data\<rparr>))))"

section \<open>Control frames\<close>

definition AppendRstStreamFrame :: "transport_version \<Rightarrow> quic_rst_stream_frame \<Rightarrow> append_op" where
  "AppendRstStreamFrame version frame =
     append_then (try_write None (WriteUInt32 (rst_stream_id frame)))
     (append_then (if version \<noteq> QUIC_VERSION_41
                   then try_write None (WriteUInt64 (rst_byte_offset frame)) else append_done)
     (append_then (try_write None (WriteUInt32 (rst_error_code frame)))
        (if version = QUIC_VERSION_41
         then try_write None (WriteUInt64 (rst_byte_offset frame)) else append_done)))"

definition ProcessRstStreamFrame :: "transport_version \<Rightarrow> quic_rst_stream_frame parse_op" where
  "ProcessRstStreamFrame version =
     parse_bind (try_read ''Unable to read stream_id.'' ReadUInt32) (\<lambda>stream_id.
     parse_bind (if version \<noteq> QUIC_VERSION_41
                 then try_read ''Unable to read rst stream sent byte offset.'' ReadUInt64
                 else parse_return 0) (\<lambda>offset1.
     parse_bind (try_read ''Unable to read rst stream error code.'' ReadUInt32) (\<lambda>error_code.
     parse_bind (if version = QUIC_VERSION_41
                 then try_read ''Unable to read rst stream sent byte offset.'' ReadUInt64
                 else parse_return offset1) (\<lambda>offset2.
     parse_return \<lparr>rst_stream_id = stream_id,
       rst_error_code = (if error_code \<ge> QUIC_STREAM_LAST_ERROR then QUIC_STREAM_LAST_ERROR else error_code),
       rst_byte_offset = offset2\<rparr>))))"

definition AppendConnectionCloseFrame :: "quic_connection_close_frame \<Rightarrow> append_op" where
  "AppendConnectionCloseFrame frame =
     append_then (try_write None (WriteUInt32 (cc_error_code frame)))
       (try_write None (WriteStringPiece16 (TruncateErrorString (cc_error_details frame))))"

definition ProcessConnectionCloseFrame :: "quic_connection_close_frame parse_op" where
  "ProcessConnectionCloseFrame =
     parse_bind (try_read ''Unable to read connection close error code.'' ReadUInt32) (\<lambda>error_code.
     parse_bind (try_read ''Unable to read connection close error details.'' ReadStringPiece16) (\<lambda>details.
     parse_return \<lparr>cc_error_code = (if error_code \<ge> QUIC_LAST_ERROR then QUIC_LAST_ERROR else error_code),
       cc_error_details = details\<rparr>))"

definition AppendGoAwayFrame :: "quic_goaway_frame \<Rightarrow> append_op" where
  "AppendGoAwayFrame frame =
     append_then (try_write None (WriteUInt32 (ga_error_code frame)))
     (append_then (try_write None (WriteUInt32 (ga_last_good_stream_id frame)))
       (try_write None (WriteStringPiece16 (TruncateErrorString (ga_reason_phrase frame)))))"

definition ProcessGoAwayFrame :: "quic_goaway_frame parse_op" where
  "ProcessGoAwayFrame =
     parse_bind (try_read ''Unable to read go away error code.'' ReadUInt32) (\<lambda>error_code.
     parse_bind (try_read ''Unable to read last good stream id.'' ReadUInt32) (\<lambda>stream_id.
     parse_bind (try_read ''Unable to read goaway reason.'' ReadStringPiece16) (\<lambda>reason.
     parse_return \<lparr>ga_error_code = (if error_code \<ge> QUIC_LAST_ERROR then QUIC_LAST_ERROR else error_code),
       ga_last_good_stream_id = stream_id, ga_reason_phrase = reason\<rparr>)))"

definition AppendWindowUpdateFrame :: "quic_window_update_frame \<Rightarrow> append_op" where
  "AppendWindowUpdateFrame frame =
     append_then (try_write None (WriteUInt32 (wu_stream_id frame)))
       (try_write None (WriteUInt64 (wu_byte_offset frame)))"

definition ProcessWindowUpdateFrame :: "quic_window_update_frame parse_op" where
  "ProcessWindowUpdateFrame =
     parse_bind (try_read ''Unable to read stream_id.'' ReadUInt32) (\<lambda>stream_id.
     parse_bind (try_read ''Unable to read window byte_offset.'' ReadUInt64) (\<lambda>offset.
     parse_return \<lparr>wu_stream_id = stream_id, wu_byte_offset = offset\<rparr>))"

definition AppendBlockedFrame :: "quic_blocked_frame \<Rightarrow> append_op" where
  "AppendBlockedFrame frame = try_write None (WriteUInt32 (bl_stream_id frame))"

definition ProcessBlockedFrame :: "quic_blocked_frame parse_op" where
  "ProcessBlockedFrame =
     parse_bind (try_read ''Unable to read stream_id.'' ReadUInt32) (\<lambda>stream_id.
     parse_return \<lparr>bl_stream_id = stream_id\<rparr>)"

text \<open>The header of the packet gives the packet number and its length.\<close>

definition AppendStopWaitingFrame :: "nat \<Rightarrow> u64 \<Rightarrow> quic_stop_waiting_frame \<Rightarrow> append_op" where
  "AppendStopWaitingFrame packet_number_length packet_number frame =
     (let least_unacked_delta = packet_number - sw_least_unacked frame;
          length_shift = packet_number_length * 8
      in if drop_bit length_shift least_unacked_delta > 0 then (\<lambda>w. (Refused None, w))
         else try_write None (AppendPacketNumber packet_number_length least_unacked_delta))"

definition ProcessStopWaitingFrame :: "nat \<Rightarrow> u64 \<Rightarrow> quic_stop_waiting_frame parse_op" where
  "ProcessStopWaitingFrame packet_number_length packet_number =
     parse_bind (try_read ''Unable to read least unacked delta.'' (ReadBytesToUInt64 packet_number_length))
       (\<lambda>least_unacked_delta.
          if packet_number < least_unacked_delta then parse_fail ''Invalid unacked delta.''
          else parse_return \<lparr>sw_least_unacked = packet_number - least_unacked_delta\<rparr>)"

section \<open>Padding\<close>

definition AppendPaddingFrame :: "transport_version \<Rightarrow> quic_padding_frame \<Rightarrow> append_op" where
  "AppendPaddingFrame version frame w =
     (if version \<le> QUIC_VERSION_37 then (Appended, WritePadding w)
      else if num_padding_bytes frame = 0 then (Refused None, w)
      else if num_padding_bytes frame < 0 then (Appended, WritePadding w)
      else try_write None (WritePaddingBytes (nat (num_padding_bytes frame - 1))) w)"

definition padding_measure :: "quic_data_reader \<Rightarrow> nat" where
  "padding_measure r = (if r_pos r > length (r_data r) then 1 else length (r_data r) - r_pos r)"

function padding_loop :: "quic_data_reader \<Rightarrow> int \<Rightarrow> int \<times> quic_data_reader" where
  "padding_loop r n =
     (if \<not> IsDoneReading r \<and> PeekByte r = 0 then padding_loop (snd (ReadBytes 1 r)) (n + 1) else (n, r))"
  by auto
termination
  by (relation "measure (\<lambda>(r, _). padding_measure r)")
    (auto simp: padding_measure_def ReadBytes_def CanRead_def OnFailure_def IsDoneReading_def)

definition ProcessPaddingFrame ::
  "transport_version \<Rightarrow> quic_data_reader \<Rightarrow> quic_padding_frame \<times> quic_data_reader" where
  "ProcessPaddingFrame version r =
     (if version \<le> QUIC_VERSION_37 then
        (\<lparr>num_padding_bytes = int (BytesRemaining r) + 1\<rparr>, snd (ReadRemainingPayload r))
      else case padding_loop r 1 of (n, r') \<Rightarrow> (\<lparr>num_padding_bytes = n\<rparr>, r'))"

declare padding_loop.simps [simp del]

section \<open>The type byte of a stream frame\<close>

lemma stream_flags_type_byte:
  assumes id: "id_len \<in> {1, 2, 3, 4}"
    and off: "off_len \<in> (if version = QUIC_VERSION_41 then {0, 2, 4, 8} else {0, 2, 3, 4, 5, 6, 7, 8})"
  shows "stream_flags version (stream_type_byte version fin no_len off_len id_len) = (id_len, off_len, \<not> no_len, fin)"
proof (cases "version = QUIC_VERSION_41")
  case True
  then have "off_len \<in> {0, 2, 4, 8}" using off by simp
  from id this show ?thesis
    by (elim insertE emptyE; cases fin; cases no_len; hypsubst)
      (simp_all add: True stream_flags_def stream_type_byte_def SetBit_def SetBits_def ExtractBit_def
        ExtractBits_def GetMaskFromNumBits_def Let_def)
next
  case False
  then have "off_len \<in> {0, 2, 3, 4, 5, 6, 7, 8}" using off by simp
  from id this show ?thesis
    by (elim insertE emptyE; cases fin; cases no_len; hypsubst)
      (simp_all add: False stream_flags_def stream_type_byte_def Let_def)
qed

lemma stream_flags_frame:
  "stream_flags version (stream_type_byte version fin no_len (GetStreamOffsetSize version offset) (GetStreamIdSize sid)) =
     (GetStreamIdSize sid, GetStreamOffsetSize version offset, \<not> no_len, fin)"
  by (rule stream_flags_type_byte) (simp_all add: GetStreamIdSize_eq GetStreamOffsetSize_eq)

section \<open>Round trips\<close>

definition stream_frame_bytes :: "endianness \<Rightarrow> transport_version \<Rightarrow> quic_stream_frame \<Rightarrow> bool \<Rightarrow> u8 list" where
  "stream_frame_bytes e version f no_len =
     uint_bytes e (GetStreamIdSize (sf_stream_id f)) (unat (sf_stream_id f)) @
     uint_bytes e (GetStreamOffsetSize version (sf_offset f)) (unat (sf_offset f)) @
     (if no_len then [] else uint_bytes e 2 (length (sf_data f))) @ sf_data f"

lemma appending_AppendStreamFrame:
  assumes "length (sf_data f) \<le> 65535"
  shows "appending e (AppendStreamFrame version None f no_len) (stream_frame_bytes e version f no_len)"
proof -
  have "appending e (if \<not> no_len then (if length (sf_data f) > 65535 then (\<lambda>w. (Refused None, w))
           else try_write None (WriteUInt16 (word_of_nat (length (sf_data f))))) else append_done)
        (if no_len then [] else uint_bytes e 2 (length (sf_data f)))"
    using assms appending_try [OF appends_WriteUInt16 [of e "word_of_nat (length (sf_data f))"], of None]
    by (simp add: unat_of_nat)
  then show ?thesis
    unfolding AppendStreamFrame_def stream_frame_bytes_def option.case
    by (intro appending_then appending_try appends_AppendStreamId appends_AppendStreamOffset appends_WriteBytes)
qed

lemma ucast_u32_roundtrip: "ucast (ucast (x :: u32) :: u64) = x"
  using unat_u32_less [of x] by (simp add: word_unat_eq_iff unat_ucast_mod)

lemma reads_stream_id:
  "reads e (ReadBytesToUInt64 (GetStreamIdSize sid)) (uint_bytes e (GetStreamIdSize sid) (unat sid)) (ucast sid)"
proof -
  have "unat (ucast sid :: u64) = unat sid" using unat_u32_less [of sid] by (simp add: unat_ucast_mod)
  then show ?thesis
    using reads_ReadBytesToUInt64_small [of "GetStreamIdSize sid" "ucast sid" e] GetStreamIdSize_bounds [of sid] by simp
qed

lemma reads_stream_offset:
  "reads e (ReadBytesToUInt64 (GetStreamOffsetSize version off)) (uint_bytes e (GetStreamOffsetSize version off) (unat off)) off"
  using GetStreamOffsetSize_bounds by (intro reads_ReadBytesToUInt64_small) auto

lemma parsing_ProcessStreamFrame:
  assumes len: "length (sf_data f) \<le> 65535"
    and byte: "b = stream_type_byte version (sf_fin f) False (GetStreamOffsetSize version (sf_offset f)) (GetStreamIdSize (sf_stream_id f))"
  shows "parsing e (ProcessStreamFrame version b) (stream_frame_bytes e version f False) f"
proof -
  have data: "reads e ReadStringPiece16 (uint_bytes e 2 (length (sf_data f)) @ sf_data f) (sf_data f)"
    using len by (intro reads_ReadStringPiece16)
  have res: "parsing e (parse_return \<lparr>sf_stream_id = ucast (ucast (sf_stream_id f) :: u64), sf_fin = sf_fin f,
      sf_offset = sf_offset f, sf_data = take (length (sf_data f) mod 65536) (sf_data f)\<rparr>) [] f"
    using len by (cases f) (simp add: ucast_u32_roundtrip)
  show ?thesis
    unfolding ProcessStreamFrame_def byte stream_flags_frame stream_frame_bytes_def prod.case if_False not_False_eq_True if_True
    by (intro parsing_bind [OF parsing_try [OF reads_stream_id]] parsing_bind [OF parsing_try [OF reads_stream_offset]]
        parsing_bind_last [OF parsing_try [OF data]] res)
qed

definition rst_stream_bytes :: "endianness \<Rightarrow> transport_version \<Rightarrow> quic_rst_stream_frame \<Rightarrow> u8 list" where
  "rst_stream_bytes e version f =
     uint_bytes e 4 (unat (rst_stream_id f)) @
     (if version \<noteq> QUIC_VERSION_41 then uint_bytes e 8 (unat (rst_byte_offset f)) else []) @
     uint_bytes e 4 (unat (rst_error_code f)) @
     (if version = QUIC_VERSION_41 then uint_bytes e 8 (unat (rst_byte_offset f)) else [])"

definition connection_close_bytes :: "endianness \<Rightarrow> quic_connection_close_frame \<Rightarrow> u8 list" where
  "connection_close_bytes e f =
     uint_bytes e 4 (unat (cc_error_code f)) @
     uint_bytes e 2 (length (cc_error_details f)) @ cc_error_details f"

definition goaway_bytes :: "endianness \<Rightarrow> quic_goaway_frame \<Rightarrow> u8 list" where
  "goaway_bytes e f =
     uint_bytes e 4 (unat (ga_error_code f)) @ uint_bytes e 4 (unat (ga_last_good_stream_id f)) @
     uint_bytes e 2 (length (ga_reason_phrase f)) @ ga_reason_phrase f"

definition window_update_bytes :: "endianness \<Rightarrow> quic_window_update_frame \<Rightarrow> u8 list" where
  "window_update_bytes e f = uint_bytes e 4 (unat (wu_stream_id f)) @ uint_bytes e 8 (unat (wu_byte_offset f))"

definition blocked_bytes :: "endianness \<Rightarrow> quic_blocked_frame \<Rightarrow> u8 list" where
  "blocked_bytes e f = uint_bytes e 4 (unat (bl_stream_id f))"

definition stop_waiting_bytes :: "endianness \<Rightarrow> nat \<Rightarrow> u64 \<Rightarrow> quic_stop_waiting_frame \<Rightarrow> u8 list" where
  "stop_waiting_bytes e len pn f = uint_bytes e len (unat (pn - sw_least_unacked f))"

lemmas parse_steps = parsing_bind [OF parsing_try] parsing_bind_last [OF parsing_try]

lemma TruncateErrorString_short: "length s \<le> 256 \<Longrightarrow> TruncateErrorString s = s"
  by (simp add: TruncateErrorString_def kMaxErrorStringLength_def)

interpretation stream: codec e "\<lambda>f. AppendStreamFrame version None f False"
  "ProcessStreamFrame version (stream_type_byte version fin False off_len id_len)"
  "\<lambda>f. stream_frame_bytes e version f False"
  "\<lambda>f. length (sf_data f) \<le> 65535 \<and> fin = sf_fin f \<and>
       off_len = GetStreamOffsetSize version (sf_offset f) \<and> id_len = GetStreamIdSize (sf_stream_id f)"
  for e version fin off_len id_len
  by unfold_locales (auto intro: appending_AppendStreamFrame parsing_ProcessStreamFrame)

interpretation rst: codec e "AppendRstStreamFrame version" "ProcessRstStreamFrame version"
  "rst_stream_bytes e version" "\<lambda>f. rst_error_code f \<le> QUIC_STREAM_LAST_ERROR"
  for e version
proof unfold_locales
  fix f :: quic_rst_stream_frame
  show "appending e (AppendRstStreamFrame version f) (rst_stream_bytes e version f)"
    unfolding AppendRstStreamFrame_def rst_stream_bytes_def
    by (intro appending_then) (auto intro: appending_try)
  assume le: "rst_error_code f \<le> QUIC_STREAM_LAST_ERROR"
  let ?res = "\<lambda>code off. \<lparr>rst_stream_id = rst_stream_id f,
       rst_error_code = (if code \<ge> QUIC_STREAM_LAST_ERROR then QUIC_STREAM_LAST_ERROR else code), rst_byte_offset = off\<rparr>"
  have res: "parsing e (parse_return (?res (rst_error_code f) (rst_byte_offset f))) [] f"
    using le by (cases f) (auto simp: order.antisym)
  show "parsing e (ProcessRstStreamFrame version) (rst_stream_bytes e version f) f"
  proof (cases "version = QUIC_VERSION_41")
    case True
    show ?thesis
      unfolding ProcessRstStreamFrame_def rst_stream_bytes_def
      by (simp add: True)
        (intro parsing_bind [OF parsing_try [OF reads_ReadUInt32]] parsing_bind_last [OF parsing_try [OF reads_ReadUInt64]] res)
  next
    case False
    show ?thesis
      unfolding ProcessRstStreamFrame_def rst_stream_bytes_def
      by (simp add: False)
        (intro parsing_bind [OF parsing_try [OF reads_ReadUInt32]] parsing_bind [OF parsing_try [OF reads_ReadUInt64]]
          parsing_bind_last [OF parsing_try [OF reads_ReadUInt32]] res)
  qed
qed

interpretation connection_close: codec e AppendConnectionCloseFrame ProcessConnectionCloseFrame
  "connection_close_bytes e" "\<lambda>f. cc_error_code f \<le> QUIC_LAST_ERROR \<and> length (cc_error_details f) \<le> 256"
  for e
proof unfold_locales
  fix f :: quic_connection_close_frame
  assume ok: "cc_error_code f \<le> QUIC_LAST_ERROR \<and> length (cc_error_details f) \<le> 256"
  then show "appending e (AppendConnectionCloseFrame f) (connection_close_bytes e f)"
    unfolding AppendConnectionCloseFrame_def connection_close_bytes_def
    by (intro appending_then) (auto intro!: appending_try simp: TruncateErrorString_short)
  have s: "reads e ReadStringPiece16 (uint_bytes e 2 (length (cc_error_details f)) @ cc_error_details f) (cc_error_details f)"
    using ok by (intro reads_ReadStringPiece16) simp
  show "parsing e ProcessConnectionCloseFrame (connection_close_bytes e f) f"
    unfolding ProcessConnectionCloseFrame_def connection_close_bytes_def
    using ok by (intro parsing_bind [OF parsing_try [OF reads_ReadUInt32]] parsing_bind_last [OF parsing_try [OF s]])
      (cases f, auto simp: order.antisym)
qed

interpretation goaway: codec e AppendGoAwayFrame ProcessGoAwayFrame
  "goaway_bytes e" "\<lambda>f. ga_error_code f \<le> QUIC_LAST_ERROR \<and> length (ga_reason_phrase f) \<le> 256"
  for e
proof unfold_locales
  fix f :: quic_goaway_frame
  assume ok: "ga_error_code f \<le> QUIC_LAST_ERROR \<and> length (ga_reason_phrase f) \<le> 256"
  then show "appending e (AppendGoAwayFrame f) (goaway_bytes e f)"
    unfolding AppendGoAwayFrame_def goaway_bytes_def
    by (intro appending_then) (auto intro!: appending_try simp: TruncateErrorString_short)
  have s: "reads e ReadStringPiece16 (uint_bytes e 2 (length (ga_reason_phrase f)) @ ga_reason_phrase f) (ga_reason_phrase f)"
    using ok by (intro reads_ReadStringPiece16) simp
  show "parsing e ProcessGoAwayFrame (goaway_bytes e f) f"
    unfolding ProcessGoAwayFrame_def goaway_bytes_def
    using ok by (intro parsing_bind [OF parsing_try [OF reads_ReadUInt32]] parsing_bind_last [OF parsing_try [OF s]])
      (cases f, auto simp: order.antisym)
qed

interpretation window_update: codec e AppendWindowUpdateFrame ProcessWindowUpdateFrame
  "window_update_bytes e" "\<lambda>_. True"
  for e
proof unfold_locales
  fix f :: quic_window_update_frame
  show "appending e (AppendWindowUpdateFrame f) (window_update_bytes e f)"
    unfolding AppendWindowUpdateFrame_def window_update_bytes_def by (intro appending_then) (auto intro!: appending_try)
  show "parsing e ProcessWindowUpdateFrame (window_update_bytes e f) f"
    unfolding ProcessWindowUpdateFrame_def window_update_bytes_def
    by (intro parsing_bind [OF parsing_try [OF reads_ReadUInt32]] parsing_bind_last [OF parsing_try [OF reads_ReadUInt64]])
      (cases f, simp)
qed

interpretation blocked: codec e AppendBlockedFrame ProcessBlockedFrame "blocked_bytes e" "\<lambda>_. True"
  for e
proof unfold_locales
  fix f :: quic_blocked_frame
  show "appending e (AppendBlockedFrame f) (blocked_bytes e f)"
    unfolding AppendBlockedFrame_def blocked_bytes_def by (intro appending_try) simp
  show "parsing e ProcessBlockedFrame (blocked_bytes e f) f"
    unfolding ProcessBlockedFrame_def blocked_bytes_def
    by (intro parsing_bind_last [OF parsing_try [OF reads_ReadUInt32]]) (cases f, simp)
qed

text \<open>
  A stop-waiting frame carries the distance from the packet number, so it needs the distance to
  fit the packet-number length of the header.
\<close>

interpretation stop_waiting: codec e "AppendStopWaitingFrame len pn" "ProcessStopWaitingFrame len pn"
  "stop_waiting_bytes e len pn"
  "\<lambda>f. len \<in> {1, 2, 4, 6} \<and> sw_least_unacked f \<le> pn \<and> unat (pn - sw_least_unacked f) < 2 ^ (len * 8)"
  for e len pn
proof unfold_locales
  fix f :: quic_stop_waiting_frame
  assume ok: "len \<in> {1, 2, 4, 6} \<and> sw_least_unacked f \<le> pn \<and> unat (pn - sw_least_unacked f) < 2 ^ (len * 8)"
  then have z: "drop_bit (len * 8) (pn - sw_least_unacked f) = 0" by (simp add: drop_bit_zero_iff)
  show "appending e (AppendStopWaitingFrame len pn f) (stop_waiting_bytes e len pn f)"
    unfolding AppendStopWaitingFrame_def stop_waiting_bytes_def Let_def z
    using ok by (auto intro!: appending_try)
  have b: "unat (pn - sw_least_unacked f) < 256 ^ len"
    using ok power_mult [of "2 :: nat" 8 len] by (simp add: mult.commute)
  have le: "\<not> pn < pn - sw_least_unacked f"
    using ok by (simp add: word_less_nat_alt unat_sub_if' word_le_nat_alt)
  have res: "parsing e (parse_return \<lparr>sw_least_unacked = sw_least_unacked f\<rparr>) [] f" by (cases f) simp
  show "parsing e (ProcessStopWaitingFrame len pn) (stop_waiting_bytes e len pn f) f"
    unfolding ProcessStopWaitingFrame_def stop_waiting_bytes_def
    by (rule parsing_bind_last [OF parsing_try [OF reads_ReadBytesToUInt64_small]])
      (use ok b le res in auto)
qed

section \<open>Padding\<close>

text \<open>The loop counts the run of zero bytes in front of the reader and stops behind it.\<close>

lemma padding_loop_eq:
  assumes "r_ok r"
  shows "padding_loop r n =
     (n + int (length (takeWhile (\<lambda>b. b = 0) (r_rest r))),
      r_skip (length (takeWhile (\<lambda>b. b = 0) (r_rest r))) r)"
  using assms
proof (induction r n rule: padding_loop.induct)
  case (1 r n)
  show ?case
  proof (cases "\<not> IsDoneReading r \<and> PeekByte r = 0")
    case True
    then have lt: "r_pos r < length (r_data r)" and z: "r_data r ! r_pos r = 0"
      using 1(2) by (auto simp: IsDoneReading_def PeekByte_def r_ok_def split: if_splits)
    have rd: "snd (ReadBytes 1 r) = r_skip 1 r"
      using lt by (simp add: ReadBytes_def CanRead_def r_skip_def)
    have rest: "r_rest r = 0 # r_rest (r_skip 1 r)"
      using lt z by (simp add: r_rest_def Cons_nth_drop_Suc [symmetric])
    have "r_ok (r_skip 1 r)" using lt by (simp add: r_ok_def)
    then show ?thesis using 1(1) [OF True, unfolded rd] True
      by (simp add: padding_loop.simps [of r] rd [simplified] rest)
  next
    case False
    have "takeWhile (\<lambda>b. b = 0) (r_rest r) = []"
    proof (cases "r_rest r")
      case (Cons b bs)
      then have lt: "r_pos r < length (r_data r)" by (metis drop_all list.distinct(1) not_le r_rest_def)
      then have "r_data r ! r_pos r = b" using Cons by (metis hd_drop_conv_nth list.sel(1) r_rest_def)
      then show ?thesis using lt False Cons by (auto simp: IsDoneReading_def PeekByte_def)
    qed simp
    then show ?thesis using False by (auto simp add: padding_loop.simps [of r])
  qed
qed

end
