(* ===== verification/Packet_Number_Queue.thy ===== *)
theory Packet_Number_Queue
  imports Quic_Prelude
begin

text \<open>
  \<open>PacketNumberQueue\<close> (frames/quic\_ack\_frame.cc): the set of received packet numbers as
  a deque of half-open intervals in ascending order. \<open>pnq_inv\<close> is its representation
  invariant (non-empty intervals, separated by gaps) and \<open>pnq_set\<close> the set it stands for.
  The \<open>packet_set\<close> locale is the interface the acknowledgement code relies on.
\<close>

section \<open>State\<close>

type_synonym interval = "u64 \<times> u64"
type_synonym packet_number_queue = "interval list"

definition interval_contains :: "interval \<Rightarrow> u64 \<Rightarrow> bool" where
  "interval_contains iv n \<longleftrightarrow> fst iv \<le> n \<and> n < snd iv"

definition interval_length :: "interval \<Rightarrow> u64" where
  "interval_length iv = (if fst iv < snd iv then snd iv - fst iv else 0)"

section \<open>Operations\<close>

primrec pnq_add_loop :: "nat \<Rightarrow> u64 \<Rightarrow> packet_number_queue \<Rightarrow> packet_number_queue" where
  "pnq_add_loop 0 packet_number q = q"
| "pnq_add_loop (Suc i) packet_number q =
     (let packet_interval = q ! i in
      if interval_contains packet_interval packet_number then q
      else if snd packet_interval = packet_number then
        q[i := (fst packet_interval, packet_number + 1)]
      else if fst packet_interval = packet_number + 1 then
        (if i > 0 \<and> packet_number = snd (q ! (i - 1))
         then take i (q[i - 1 := (fst (q ! (i - 1)), snd packet_interval)]) @ drop (Suc i) q
         else q[i := (packet_number, snd packet_interval)])
      else if snd packet_interval < packet_number + 1 then
        take (i + 1) q @ (packet_number, packet_number + 1) # drop (i + 1) q
      else pnq_add_loop i packet_number q)"

definition pnq_Add :: "u64 \<Rightarrow> packet_number_queue \<Rightarrow> packet_number_queue" where
  "pnq_Add packet_number q =
     (if q = [] then [(packet_number, packet_number + 1)]
      else if snd (last q) = packet_number then butlast q @ [(fst (last q), packet_number + 1)]
      else if snd (last q) < packet_number then q @ [(packet_number, packet_number + 1)]
      else if fst (hd q) > packet_number + 1 then (packet_number, packet_number + 1) # q
      else if fst (hd q) = packet_number + 1 then (packet_number, snd (hd q)) # tl q
      else pnq_add_loop (length q) packet_number q)"

definition pnq_AddRange :: "u64 \<Rightarrow> u64 \<Rightarrow> packet_number_queue \<Rightarrow> packet_number_queue" where
  "pnq_AddRange lower higher q =
     (if lower \<ge> higher then q
      else if q = [] then [(lower, higher)]
      else if snd (last q) = lower then butlast q @ [(fst (last q), higher)]
      else if snd (last q) < lower then q @ [(lower, higher)]
      else if fst (hd q) = higher then (lower, snd (hd q)) # tl q
      else if fst (hd q) > higher then (lower, higher) # q
      else q)"

definition pnq_Clear :: "packet_number_queue \<Rightarrow> packet_number_queue" where
  "pnq_Clear q = []"

definition pnq_Empty :: "packet_number_queue \<Rightarrow> bool" where
  "pnq_Empty q \<longleftrightarrow> q = []"

definition pnq_Min :: "packet_number_queue \<Rightarrow> u64" where
  "pnq_Min q = fst (hd q)"

definition pnq_Max :: "packet_number_queue \<Rightarrow> u64" where
  "pnq_Max q = snd (last q) - 1"

primrec pnq_remove_loop :: "u64 \<Rightarrow> packet_number_queue \<Rightarrow> packet_number_queue" where
  "pnq_remove_loop higher [] = []"
| "pnq_remove_loop higher (front # q) =
     (if snd front < higher then pnq_remove_loop higher q
      else if fst front < higher \<and> snd front \<ge> higher then
        (if snd front = higher then q else (higher, snd front) # q)
      else front # q)"

definition pnq_RemoveUpTo :: "u64 \<Rightarrow> packet_number_queue \<Rightarrow> bool \<times> packet_number_queue" where
  "pnq_RemoveUpTo higher q =
     (if pnq_Empty q then (False, q)
      else let old_min = pnq_Min q; q' = pnq_remove_loop higher q
           in (pnq_Empty q' \<or> old_min \<noteq> pnq_Min q', q'))"

definition pnq_RemoveSmallestInterval :: "packet_number_queue \<Rightarrow> packet_number_queue" where
  "pnq_RemoveSmallestInterval q = tl q"

definition pnq_Contains :: "u64 \<Rightarrow> packet_number_queue \<Rightarrow> bool" where
  "pnq_Contains packet_number q \<longleftrightarrow>
     (if q = [] then False
      else if fst (hd q) > packet_number \<or> snd (last q) \<le> packet_number then False
      else list_ex (\<lambda>iv. interval_contains iv packet_number) q)"

definition pnq_NumPacketsSlow :: "packet_number_queue \<Rightarrow> u64" where
  "pnq_NumPacketsSlow q = foldl (\<lambda>n iv. n + interval_length iv) 0 q"

definition pnq_NumIntervals :: "packet_number_queue \<Rightarrow> nat" where
  "pnq_NumIntervals q = length q"

definition pnq_LastIntervalLength :: "packet_number_queue \<Rightarrow> u64" where
  "pnq_LastIntervalLength q = interval_length (last q)"

section \<open>Invariant and abstraction\<close>

definition pnq_inv :: "packet_number_queue \<Rightarrow> bool" where
  "pnq_inv q \<longleftrightarrow> (\<forall>iv\<in>set q. fst iv < snd iv) \<and> sorted_wrt (\<lambda>a b. snd a < fst b) q"

definition interval_set :: "interval \<Rightarrow> nat set" where
  "interval_set iv = {unat (fst iv)..<unat (snd iv)}"

definition pnq_set :: "packet_number_queue \<Rightarrow> nat set" where
  "pnq_set q = (\<Union>iv\<in>set q. interval_set iv)"

lemma pnq_set_simps [simp]:
  "pnq_set [] = {}" "pnq_set (iv # q) = interval_set iv \<union> pnq_set q"
  "pnq_set (q @ q') = pnq_set q \<union> pnq_set q'"
  by (auto simp: pnq_set_def)

lemma pnq_inv_Nil [simp]: "pnq_inv []"
  by (simp add: pnq_inv_def)

lemma pnq_inv_append:
  "pnq_inv (q @ q') \<longleftrightarrow> pnq_inv q \<and> pnq_inv q' \<and> (\<forall>a\<in>set q. \<forall>b\<in>set q'. snd a < fst b)"
  by (auto simp: pnq_inv_def sorted_wrt_append)

lemma pnq_inv_Cons:
  "pnq_inv (iv # q) \<longleftrightarrow> fst iv < snd iv \<and> pnq_inv q \<and> (\<forall>b\<in>set q. snd iv < fst b)"
  by (auto simp: pnq_inv_def)

lemma interval_set_pair: "interval_set (a, b) = {unat a..<unat b}"
  by (simp add: interval_set_def)

lemma interval_contains_iff: "interval_contains iv n \<longleftrightarrow> unat n \<in> interval_set iv"
  by (simp add: interval_contains_def interval_set_def word_le_nat_alt word_less_nat_alt)

lemmas word_order_nat = word_le_nat_alt word_less_nat_alt

lemma unat_Suc: "n < 2 ^ 64 - 1 \<Longrightarrow> unat p = n \<Longrightarrow> unat (p + 1 :: u64) = Suc n"
  by (simp add: unat_word_ariths)

lemma inv_split_last: "q \<noteq> [] \<Longrightarrow> pnq_inv q \<Longrightarrow> a \<in> set (butlast q) \<Longrightarrow> snd a < fst (last q)"
  using pnq_inv_append [of "butlast q" "[last q]"] by simp

lemma inv_last: "q \<noteq> [] \<Longrightarrow> pnq_inv q \<Longrightarrow> pnq_inv (butlast q) \<and> fst (last q) < snd (last q)"
  using pnq_inv_append [of "butlast q" "[last q]"] by (simp add: pnq_inv_Cons)

lemma set_split_last: "q \<noteq> [] \<Longrightarrow> pnq_set q = pnq_set (butlast q) \<union> interval_set (last q)"
  using pnq_set_simps(3) [of "butlast q" "[last q]"] by simp

lemma inv_below_last:
  assumes "q \<noteq> []" "pnq_inv q" "a \<in> set q"
  shows "unat (snd a) \<le> unat (snd (last q))"
proof (cases "a = last q")
  case False
  then have "a \<in> set (butlast q)" using assms by (metis append_butlast_last_id rotate1.simps(2) set_ConsD set_rotate1)
  then have "snd a < fst (last q)" using assms by (simp add: inv_split_last)
  then show ?thesis using inv_last [OF assms(1,2)] by (simp add: word_order_nat)
qed simp

section \<open>Adding a packet\<close>

lemma pnq_add_loop_correct:
  assumes "i \<le> length q" "pnq_inv q" "unat p < 2 ^ 64 - 1"
    "\<forall>b\<in>set (drop i q). unat p + 1 < unat (fst b)" "q \<noteq> []" "unat (fst (hd q)) \<le> unat p"
  shows "pnq_inv (pnq_add_loop i p q) \<and> pnq_set (pnq_add_loop i p q) = insert (unat p) (pnq_set q)"
  using assms
proof (induction i)
  case 0
  then show ?case by (cases q) auto
next
  case (Suc i)
  define xs iv ys where defs: "xs = take i q" "iv = q ! i" "ys = drop (Suc i) q"
  have q: "q = xs @ iv # ys" and len: "length xs = i"
    using Suc.prems(1) by (simp_all add: defs id_take_nth_drop)
  have p1: "unat (p + 1) = unat p + 1" using Suc.prems(3) unat_Suc by simp
  have iv: "unat (fst iv) < unat (snd iv)" and xs: "\<And>a. a \<in> set xs \<Longrightarrow> unat (snd a) < unat (fst iv)"
    and ys: "\<And>b. b \<in> set ys \<Longrightarrow> unat (snd iv) < unat (fst b)"
    and xy: "\<And>a b. a \<in> set xs \<Longrightarrow> b \<in> set ys \<Longrightarrow> unat (snd a) < unat (fst b)"
    and inv: "pnq_inv xs" "pnq_inv ys"
    using Suc.prems(2) by (auto simp: q pnq_inv_append pnq_inv_Cons word_order_nat)
  have far: "\<And>b. b \<in> set ys \<Longrightarrow> unat p + 1 < unat (fst b)"
    using Suc.prems(4) by (simp add: defs)
  consider (inside) "interval_contains iv p"
    | (extend) "\<not> interval_contains iv p" "snd iv = p"
    | (front) "\<not> interval_contains iv p" "snd iv \<noteq> p" "fst iv = p + 1"
    | (new) "\<not> interval_contains iv p" "snd iv \<noteq> p" "fst iv \<noteq> p + 1" "snd iv < p + 1"
    | (skip) "\<not> interval_contains iv p" "snd iv \<noteq> p" "fst iv \<noteq> p + 1" "\<not> snd iv < p + 1"
    by blast
  then show ?case
  proof cases
    case inside
    then have "pnq_add_loop (Suc i) p q = q" by (simp add: defs Let_def)
    moreover have "unat p \<in> pnq_set q" using inside by (simp add: q interval_contains_iff)
    ultimately show ?thesis using Suc.prems(2) by (simp add: insert_absorb)
  next
    case extend
    then have e: "pnq_add_loop (Suc i) p q = xs @ (fst iv, p + 1) # ys"
      using len by (simp add: q Let_def nth_append list_update_append)
    show ?thesis unfolding e using iv inv xs far xy extend(2) p1
      by (auto simp: q pnq_inv_append pnq_inv_Cons word_order_nat interval_set_def)
  next
    case new
    then have e: "pnq_add_loop (Suc i) p q = (xs @ [iv]) @ (p, p + 1) # ys"
      using len by (simp add: q Let_def nth_append)
    have "unat (snd iv) < unat p" using new p1 by (auto simp: word_order_nat word_unat_eq_iff)
    moreover from this have "unat (snd a) < unat p" if "a \<in> set xs" for a using xs [OF that] iv by simp
    ultimately show ?thesis unfolding e using iv inv xs ys far xy p1
      by (auto simp: q pnq_inv_append pnq_inv_Cons word_order_nat interval_set_def)
  next
    case front
    then have f: "unat (fst iv) = unat p + 1" using p1 by simp
    show ?thesis
    proof (cases "i > 0 \<and> p = snd (q ! (i - 1))")
      case True
      then obtain ws l where w: "xs = ws @ [l]" using len by (cases xs rule: rev_cases) auto
      have i: "i = Suc (length ws)" using w len by simp
      then have l: "q ! (i - 1) = l" "p = snd l" using True by (simp_all add: q w nth_append)
      have e: "pnq_add_loop (Suc i) p q = ws @ (fst l, snd iv) # ys"
        using front l(2) by (simp add: q w i Let_def nth_append list_update_append)
      show ?thesis unfolding e using iv inv xs ys xy f l(2)
        by (auto simp: q w pnq_inv_append pnq_inv_Cons word_order_nat interval_set_def dest: less_trans)
    next
      case False
      then have e: "pnq_add_loop (Suc i) p q = xs @ (p, snd iv) # ys"
        using front len by (simp add: q Let_def nth_append list_update_append)
      have "unat (snd a) < unat p" if mem: "a \<in> set xs" for a
      proof -
        obtain ws l where w: "xs = ws @ [l]" using mem by (cases xs rule: rev_cases) auto
        then have "q ! (i - 1) = l" "i > 0" using len by (auto simp: q nth_append)
        then have "snd l \<noteq> p" using False by auto
        moreover have "unat (snd l) < unat p + 1" using xs [of l] f w by simp
        ultimately have "unat (snd l) < unat p" by (auto simp: word_unat_eq_iff)
        moreover have "unat (snd a) \<le> unat (snd l)"
          using inv_below_last [of xs a] inv(1) mem w by simp
        ultimately show ?thesis by simp
      qed
      then show ?thesis unfolding e using iv inv xs ys xy f
        by (auto simp: q pnq_inv_append pnq_inv_Cons word_order_nat interval_set_def dest: less_trans)
    qed
  next
    case skip
    then have e: "pnq_add_loop (Suc i) p q = pnq_add_loop i p q" by (simp add: defs Let_def)
    have "unat p + 1 < unat (fst iv)"
      using skip p1 iv by (auto simp: interval_contains_def word_order_nat word_unat_eq_iff)
    then have "\<forall>b\<in>set (drop i q). unat p + 1 < unat (fst b)" using far len by (simp add: q)
    then show ?thesis unfolding e using Suc by simp
  qed
qed

lemma pnq_Add_correct:
  assumes "pnq_inv q" "unat p < 2 ^ 64 - 1"
  shows "pnq_inv (pnq_Add p q) \<and> pnq_set (pnq_Add p q) = insert (unat p) (pnq_set q)"
proof (cases "q = []")
  case True
  then show ?thesis using unat_Suc [OF assms(2) refl]
    by (auto simp: pnq_Add_def pnq_inv_Cons word_order_nat interval_set_def)
next
  case False
  have p1: "unat (p + 1) = unat p + 1" using assms(2) unat_Suc by simp
  note last = inv_last [OF False assms(1)] inv_split_last [OF False assms(1)] set_split_last [OF False]
  obtain h t where q: "q = h # t" using False by (cases q) auto
  have h: "unat (fst h) < unat (snd h)" "pnq_inv t" "\<And>b. b \<in> set t \<Longrightarrow> unat (snd h) < unat (fst b)"
    using assms(1) by (auto simp: q pnq_inv_Cons word_order_nat)
  consider (next_one) "snd (last q) = p" | (above) "snd (last q) < p"
    | (below) "snd (last q) > p" "fst h > p + 1" | (down) "snd (last q) > p" "fst h = p + 1"
    | (loop) "snd (last q) > p" "fst h < p + 1"
    by (metis linorder_neqE)
  then show ?thesis
  proof cases
    case next_one
    then show ?thesis using False last p1
      by (auto simp: pnq_Add_def pnq_inv_append pnq_inv_Cons word_order_nat interval_set_def)
  next
    case above
    then have "\<forall>a\<in>set q. snd a < p" using inv_below_last [OF False assms(1)] by (force simp: word_order_nat)
    then show ?thesis using above False assms(1) p1
      by (auto simp: pnq_Add_def pnq_inv_append pnq_inv_Cons word_order_nat interval_set_def)
  next
    case below
    then show ?thesis using False h p1
      by (force simp: q pnq_Add_def pnq_inv_Cons word_order_nat interval_set_def)
  next
    case down
    then show ?thesis using False h p1
      by (force simp: q pnq_Add_def pnq_inv_Cons word_order_nat interval_set_def)
  next
    case loop
    then have e: "pnq_Add p q = pnq_add_loop (length q) p q" using False by (auto simp: q pnq_Add_def)
    show ?thesis unfolding e
      by (rule pnq_add_loop_correct) (use assms loop p1 in \<open>auto simp: q word_order_nat\<close>)
  qed
qed

section \<open>The other operations\<close>

lemma pnq_AddRange_correct:
  assumes "pnq_inv q" "lower < higher"
    and "q = [] \<or> snd (last q) \<le> lower \<or> higher \<le> fst (hd q)"
  shows "pnq_inv (pnq_AddRange lower higher q) \<and>
    pnq_set (pnq_AddRange lower higher q) = pnq_set q \<union> {unat lower..<unat higher}"
proof (cases "q = []")
  case True
  then show ?thesis using assms(2)
    by (auto simp: pnq_AddRange_def pnq_inv_Cons word_order_nat interval_set_def)
next
  case False
  note last = inv_last [OF False assms(1)] inv_split_last [OF False assms(1)] set_split_last [OF False]
  obtain h t where q: "q = h # t" using False by (cases q) auto
  have h: "unat (fst h) < unat (snd h)" "pnq_inv t" "\<And>b. b \<in> set t \<Longrightarrow> unat (snd h) < unat (fst b)"
    using assms(1) by (auto simp: q pnq_inv_Cons word_order_nat)
  have hl: "unat (snd h) \<le> unat (snd (last q))" using inv_below_last [OF False assms(1), of h] by (simp add: q)
  consider (next_one) "snd (last q) = lower" | (above) "snd (last q) < lower"
    | (down) "lower < snd (last q)" "fst h = higher" | (below) "lower < snd (last q)" "higher < fst h"
  proof -
    have "fst h = higher \<or> higher < fst h" if "lower < snd (last q)"
      using assms(3) False that by (auto simp: q)
    then show thesis using that by (metis linorder_neqE)
  qed
  then show ?thesis
  proof cases
    case next_one
    then show ?thesis using False last assms(2)
      by (auto simp: pnq_AddRange_def pnq_inv_append pnq_inv_Cons word_order_nat interval_set_def)
  next
    case above
    then have "\<forall>a\<in>set q. snd a < lower" using inv_below_last [OF False assms(1)] by (force simp: word_order_nat)
    then show ?thesis using above False assms
      by (auto simp: pnq_AddRange_def pnq_inv_append pnq_inv_Cons word_order_nat interval_set_def)
  next
    case down
    then show ?thesis using False h assms(2)
      by (force simp: q pnq_AddRange_def pnq_inv_Cons word_order_nat interval_set_def)
  next
    case below
    then show ?thesis using False h assms(2)
      by (force simp: q pnq_AddRange_def pnq_inv_Cons word_order_nat interval_set_def)
  qed
qed

text \<open>A range that overlaps the queue is refused: the queue is unchanged.\<close>

lemma pnq_AddRange_refused:
  assumes "q \<noteq> []" "lower < snd (last q)" "fst (hd q) < higher"
  shows "pnq_AddRange lower higher q = q"
  using assms by (auto simp: pnq_AddRange_def)

lemma pnq_remove_loop_correct:
  assumes "pnq_inv q"
  shows "pnq_inv (pnq_remove_loop higher q) \<and> pnq_set (pnq_remove_loop higher q) = pnq_set q - {..<unat higher}
    \<and> (\<forall>b\<in>set (pnq_remove_loop higher q). \<exists>a\<in>set q. fst a \<le> fst b \<and> snd b = snd a)"
  using assms
proof (induction q)
  case Nil
  then show ?case by simp
next
  case (Cons a q)
  then have a: "unat (fst a) < unat (snd a)" "pnq_inv q" "\<And>b. b \<in> set q \<Longrightarrow> unat (snd a) < unat (fst b)"
    by (auto simp: pnq_inv_Cons word_order_nat)
  have above: "pnq_set q \<inter> {..unat (snd a)} = {}"
    using a(3) by (force simp: pnq_set_def interval_set_def)
  consider (drop) "snd a < higher" | (cut) "fst a < higher" "higher < snd a"
    | (exact) "fst a < higher" "snd a = higher" | (stop) "higher \<le> fst a"
    by (metis linorder_neqE not_le)
  then show ?case
  proof cases
    case drop
    then have "interval_set a \<subseteq> {..<unat higher}" by (auto simp: interval_set_def word_order_nat)
    then show ?thesis using drop Cons.IH [OF a(2)] by auto
  next
    case cut
    then have e: "pnq_remove_loop higher (a # q) = (higher, snd a) # q" by (auto simp: word_order_nat)
    have "pnq_inv ((higher, snd a) # q)" using cut a by (auto simp: pnq_inv_Cons word_order_nat)
    moreover have "pnq_set ((higher, snd a) # q) = pnq_set (a # q) - {..<unat higher}"
      using cut above by (auto simp: interval_set_def word_order_nat)
    ultimately show ?thesis unfolding e using cut by (auto simp: word_order_nat intro: bexI [of _ a])
  next
    case exact
    then have e: "pnq_remove_loop higher (a # q) = q" by (auto simp: word_order_nat)
    have "pnq_set q = pnq_set (a # q) - {..<unat higher}"
      using exact above by (auto simp: interval_set_def word_order_nat)
    then show ?thesis unfolding e using a(2) by auto
  next
    case stop
    then have e: "pnq_remove_loop higher (a # q) = a # q" using a(1) by (auto simp: word_order_nat)
    have "pnq_set (a # q) \<inter> {..<unat higher} = {}"
      using stop above a(1) by (auto simp: interval_set_def word_order_nat)
    then show ?thesis unfolding e using Cons.prems by blast
  qed
qed

lemma pnq_RemoveUpTo_correct:
  assumes "pnq_inv q"
  shows "pnq_inv (snd (pnq_RemoveUpTo higher q)) \<and>
    pnq_set (snd (pnq_RemoveUpTo higher q)) = pnq_set q - {..<unat higher}"
  using pnq_remove_loop_correct [OF assms, of higher]
  by (auto simp: pnq_RemoveUpTo_def pnq_Empty_def Let_def)

lemma pnq_set_Min:
  assumes "q \<noteq> []" "pnq_inv q"
  shows "unat (pnq_Min q) \<in> pnq_set q \<and> (\<forall>n\<in>pnq_set q. unat (pnq_Min q) \<le> n)"
proof (cases q)
  case (Cons a t)
  then show ?thesis using assms
    by (force simp: pnq_Min_def pnq_inv_Cons pnq_set_def interval_set_def word_order_nat)
qed (use assms in simp)

lemma pnq_set_Max:
  assumes "q \<noteq> []" "pnq_inv q"
  shows "unat (pnq_Max q) \<in> pnq_set q \<and> (\<forall>n\<in>pnq_set q. n \<le> unat (pnq_Max q))"
proof -
  have l: "unat (fst (last q)) < unat (snd (last q))" using inv_last [OF assms] by (simp add: word_order_nat)
  then have m: "unat (pnq_Max q) = unat (snd (last q)) - 1"
    by (simp add: pnq_Max_def unat_sub_if')
  have "n < unat (snd (last q))" if mem: "n \<in> pnq_set q" for n
  proof -
    obtain a where a: "a \<in> set q" "n < unat (snd a)" using mem by (force simp: pnq_set_def interval_set_def)
    then show ?thesis using inv_below_last [OF assms a(1)] by simp
  qed
  moreover have "unat (pnq_Max q) \<in> interval_set (last q)" using l m by (auto simp: interval_set_def)
  then have "unat (pnq_Max q) \<in> pnq_set q" using assms(1) set_split_last [OF assms(1)] by simp
  ultimately show ?thesis using m by fastforce
qed

lemma pnq_Contains_correct:
  assumes "pnq_inv q"
  shows "pnq_Contains p q \<longleftrightarrow> unat p \<in> pnq_set q"
proof (cases "q = []")
  case False
  have "list_ex (\<lambda>iv. interval_contains iv p) q \<longleftrightarrow> unat p \<in> pnq_set q"
    by (auto simp: list_ex_iff interval_contains_iff pnq_set_def)
  moreover have "unat p \<notin> pnq_set q" if "fst (hd q) > p"
    using pnq_set_Min [OF False assms] that by (auto simp: pnq_Min_def word_order_nat)
  moreover have "unat p \<notin> pnq_set q" if "snd (last q) \<le> p"
  proof
    assume "unat p \<in> pnq_set q"
    then obtain a where "a \<in> set q" "unat p < unat (snd a)" by (force simp: pnq_set_def interval_set_def)
    then show False using inv_below_last [OF False assms, of a] that by (simp add: word_order_nat)
  qed
  ultimately show ?thesis using False by (auto simp: pnq_Contains_def)
qed (simp add: pnq_Contains_def)

section \<open>The interface of a packet set\<close>

locale packet_set =
  fixes empty :: 'q
    and add :: "u64 \<Rightarrow> 'q \<Rightarrow> 'q"
    and remove_up_to :: "u64 \<Rightarrow> 'q \<Rightarrow> bool \<times> 'q"
    and contains :: "u64 \<Rightarrow> 'q \<Rightarrow> bool"
    and inv :: "'q \<Rightarrow> bool"
    and abs :: "'q \<Rightarrow> nat set"
  assumes inv_empty: "inv empty" and abs_empty: "abs empty = {}"
    and inv_add: "inv q \<Longrightarrow> unat p < 2 ^ 64 - 1 \<Longrightarrow> inv (add p q)"
    and abs_add: "inv q \<Longrightarrow> unat p < 2 ^ 64 - 1 \<Longrightarrow> abs (add p q) = insert (unat p) (abs q)"
    and inv_remove: "inv q \<Longrightarrow> inv (snd (remove_up_to h q))"
    and abs_remove: "inv q \<Longrightarrow> abs (snd (remove_up_to h q)) = abs q - {..<unat h}"
    and contains_abs: "inv q \<Longrightarrow> contains p q \<longleftrightarrow> unat p \<in> abs q"
begin

lemma inv_fold: "inv q \<Longrightarrow> \<forall>p\<in>set ps. unat p < 2 ^ 64 - 1 \<Longrightarrow> inv (fold add ps q)"
  by (induction ps arbitrary: q) (simp_all add: inv_add)

lemma abs_fold:
  "inv q \<Longrightarrow> \<forall>p\<in>set ps. unat p < 2 ^ 64 - 1 \<Longrightarrow> abs (fold add ps q) = abs q \<union> unat ` set ps"
  by (induction ps arbitrary: q) (auto simp: inv_add abs_add)

lemma abs_from_empty: "\<forall>p\<in>set ps. unat p < 2 ^ 64 - 1 \<Longrightarrow> abs (fold add ps empty) = unat ` set ps"
  using abs_fold [OF inv_empty] abs_empty by simp

text \<open>The order in which packets arrive and are removed does not matter beyond the last threshold.\<close>

lemma contains_after:
  assumes "\<forall>p\<in>set ps. unat p < 2 ^ 64 - 1"
  shows "contains x (snd (remove_up_to h (fold add ps empty))) \<longleftrightarrow> x \<in> set ps \<and> h \<le> x"
proof -
  have i: "inv (fold add ps empty)" using inv_fold [OF inv_empty assms] .
  have "unat x \<in> unat ` set ps \<longleftrightarrow> x \<in> set ps" by (auto simp flip: word_unat_eq_iff)
  then show ?thesis
    using contains_abs [OF inv_remove [OF i]] abs_remove [OF i] abs_from_empty [OF assms]
    by (auto simp: word_le_nat_alt)
qed

end

interpretation pnq: packet_set "[]" pnq_Add pnq_RemoveUpTo pnq_Contains pnq_inv pnq_set
  by unfold_locales (simp_all add: pnq_Add_correct pnq_RemoveUpTo_correct pnq_Contains_correct)

section \<open>Properties\<close>

text \<open>
  C4. PacketNumberQueue implements a set of packet numbers: whatever numbers are added, in any
  order and with repetitions, and whatever threshold is then removed up to, Contains answers
  exactly for the added numbers at or above the threshold.
\<close>

theorem pnq_set_semantics:
  assumes "\<forall>p\<in>set ps. unat p < 2 ^ 64 - 1"
  shows "pnq_Contains x (snd (pnq_RemoveUpTo h (fold pnq_Add ps []))) \<longleftrightarrow> x \<in> set ps \<and> h \<le> x"
  using assms by (rule pnq.contains_after)

theorem pnq_set_semantics_witness:
  "pnq_Contains 7 (snd (pnq_RemoveUpTo 3 (fold pnq_Add [5, 2, 7, 6, 2] []))) \<longleftrightarrow> (7 :: u64) \<in> set [5, 2, 7, 6, 2] \<and> (3 :: u64) \<le> 7"
  by (rule pnq_set_semantics) simp

end
