(* ===== verification/Quic_Time.thy ===== *)
theory Quic_Time
  imports Quic_Prelude
begin

text \<open>
  Times, time differences and bandwidths (quic\_time.h, quic\_bandwidth.h), and the binary
  floating-point arithmetic the congestion controllers apply to them.

  A \<open>QuicTime\<close> or \<open>QuicTime::Delta\<close> is its number of microseconds and a
  \<open>QuicBandwidth\<close> its bits per second; the C++ stores them as \<open>int64_t\<close> and signed
  overflow is undefined there, so they are unbounded integers here. Byte counts are 64-bit words
  with wrap-around. A floating-point value is a dyadic rational \<open>(m, k)\<close>, standing for
  \<open>m / 2^k\<close>, and every operation rounds its exact result to the precision of the type, to
  nearest with ties to even: 24 bits for \<open>float\<close>, 53 bits for \<open>double\<close>.
  Exponent overflow and underflow are out of reach of the values the code computes with.
\<close>

section \<open>Times\<close>

type_synonym quic_time = int
type_synonym quic_delta = int

definition kQuicInfiniteTimeUs :: int where "kQuicInfiniteTimeUs = 2 ^ 63 - 1"

definition delta_IsInfinite :: "quic_delta \<Rightarrow> bool" where
  "delta_IsInfinite d \<longleftrightarrow> d = kQuicInfiniteTimeUs"

definition delta_FromMilliseconds :: "int \<Rightarrow> quic_delta" where
  "delta_FromMilliseconds ms = ms * 1000"

definition delta_FromSeconds :: "int \<Rightarrow> quic_delta" where
  "delta_FromSeconds secs = secs * 1000 * 1000"

definition delta_ToMilliseconds :: "quic_delta \<Rightarrow> int" where
  "delta_ToMilliseconds d = trunc_div d 1000"

text \<open>Conversions between the machine integers and the unbounded ones.\<close>

definition to_u64 :: "int \<Rightarrow> u64" where "to_u64 i = word_of_int i"
definition to_i64 :: "u64 \<Rightarrow> int" where "to_i64 w = sint w"

section \<open>Binary floating point\<close>

type_synonym dyadic = "int \<times> nat"

fun bit_length :: "nat \<Rightarrow> nat" where
  "bit_length n = (if n = 0 then 0 else Suc (bit_length (n div 2)))"

declare bit_length.simps [simp del]

text \<open>The nearest multiple of \<open>2^s\<close>, ties to the even multiple.\<close>

definition round_half_even :: "nat \<Rightarrow> nat \<Rightarrow> nat" where
  "round_half_even s n =
     (let q = n div 2 ^ s; r = n mod 2 ^ s
      in (if 2 * r < 2 ^ s \<or> (2 * r = 2 ^ s \<and> even q) then q else q + 1) * 2 ^ s)"

definition round_to :: "nat \<Rightarrow> dyadic \<Rightarrow> dyadic" where
  "round_to p x =
     (case x of (m, k) \<Rightarrow>
        let n = nat \<bar>m\<bar>; s = bit_length n - p
        in if s = 0 then (m, k) else (sgn m * int (round_half_even s n), k))"

definition float_of_int :: "int \<Rightarrow> dyadic" where "float_of_int i = round_to 24 (i, 0)"
definition double_of_int :: "int \<Rightarrow> dyadic" where "double_of_int i = round_to 53 (i, 0)"

definition float_mul :: "dyadic \<Rightarrow> dyadic \<Rightarrow> dyadic" where
  "float_mul x y = round_to 24 (fst x * fst y, snd x + snd y)"

definition double_mul :: "dyadic \<Rightarrow> dyadic \<Rightarrow> dyadic" where
  "double_mul x y = round_to 53 (fst x * fst y, snd x + snd y)"

definition dyadic_less :: "dyadic \<Rightarrow> dyadic \<Rightarrow> bool" where
  "dyadic_less x y \<longleftrightarrow> fst x * 2 ^ snd y < fst y * 2 ^ snd x"

text \<open>\<open>std::llround\<close>: to the nearest integer, halves away from zero; and the conversion to an integer type.\<close>

definition llround :: "dyadic \<Rightarrow> int" where
  "llround x = sgn (fst x) * ((2 * \<bar>fst x\<bar> + 2 ^ snd x) div 2 ^ Suc (snd x))"

definition dyadic_trunc :: "dyadic \<Rightarrow> int" where
  "dyadic_trunc x = trunc_div (fst x) (2 ^ snd x)"

section \<open>Bandwidths\<close>

type_synonym bandwidth = int

definition kNumMicrosPerSecond :: u64 where "kNumMicrosPerSecond = 1000000"

definition mk_bandwidth :: "int \<Rightarrow> bandwidth" where
  "mk_bandwidth bits_per_second = (if bits_per_second \<ge> 0 then bits_per_second else 0)"

definition bw_FromBitsPerSecond :: "int \<Rightarrow> bandwidth" where
  "bw_FromBitsPerSecond b = mk_bandwidth b"

definition bw_FromKBitsPerSecond :: "int \<Rightarrow> bandwidth" where
  "bw_FromKBitsPerSecond k = mk_bandwidth (k * 1000)"

text \<open>Dividing by a zero time difference is undefined in C++: \<open>None\<close>.\<close>

definition bw_FromBytesAndTimeDelta :: "u64 \<Rightarrow> quic_delta \<Rightarrow> bandwidth option" where
  "bw_FromBytesAndTimeDelta bytes delta =
     (if to_u64 delta = 0 then None
      else Some (mk_bandwidth (to_i64 ((bytes * kNumMicrosPerSecond) div to_u64 delta * 8))))"

definition bw_ToBytesPerSecond :: "bandwidth \<Rightarrow> int" where
  "bw_ToBytesPerSecond b = trunc_div b 8"

definition bw_ToKBitsPerSecond :: "bandwidth \<Rightarrow> int" where
  "bw_ToKBitsPerSecond b = trunc_div b 1000"

definition bw_ToBytesPerPeriod :: "bandwidth \<Rightarrow> quic_delta \<Rightarrow> u64" where
  "bw_ToBytesPerPeriod b time_period = to_u64 (bw_ToBytesPerSecond b * time_period) div kNumMicrosPerSecond"

definition bw_TransferTime :: "bandwidth \<Rightarrow> u64 \<Rightarrow> quic_delta" where
  "bw_TransferTime b bytes =
     (if b = 0 then 0 else to_i64 (bytes * 8 * kNumMicrosPerSecond div to_u64 b))"

definition bw_add :: "bandwidth \<Rightarrow> bandwidth \<Rightarrow> bandwidth" where "bw_add a b = mk_bandwidth (a + b)"
definition bw_sub :: "bandwidth \<Rightarrow> bandwidth \<Rightarrow> bandwidth" where "bw_sub a b = mk_bandwidth (a - b)"

definition bw_scale :: "dyadic \<Rightarrow> bandwidth \<Rightarrow> bandwidth" where
  "bw_scale factor b = mk_bandwidth (llround (float_mul (float_of_int b) factor))"

definition delta_scale :: "dyadic \<Rightarrow> quic_delta \<Rightarrow> quic_delta" where
  "delta_scale factor d = llround (double_mul (double_of_int d) factor)"

section \<open>Rounding lemmas\<close>

lemma bit_length_bounds: "n < 2 ^ bit_length n \<and> (0 < n \<longrightarrow> 2 ^ (bit_length n - 1) \<le> n)"
proof (induction n rule: bit_length.induct)
  case (1 n)
  show ?case
  proof (cases "n = 0")
    case False
    have b: "bit_length n = Suc (bit_length (n div 2))" using False by (simp add: bit_length.simps [of n])
    have lt: "n div 2 < 2 ^ bit_length (n div 2)" using 1 False by simp
    have "2 ^ bit_length (n div 2) \<le> n"
    proof (cases "n div 2 = 0")
      case True
      then show ?thesis using False by (simp add: bit_length.simps [of 0])
    next
      case nz: False
      then have "2 ^ (bit_length (n div 2) - 1) \<le> n div 2" using 1 False by simp
      moreover have "bit_length (n div 2) = Suc (bit_length (n div 2) - 1)"
        using nz by (simp add: bit_length.simps [of "n div 2"])
      ultimately show ?thesis by (metis div_times_less_eq_dividend dual_order.trans mult_le_mono1 power_Suc2)
    qed
    then show ?thesis using lt b by simp
  qed (simp add: bit_length.simps)
qed

lemma round_half_even_bounds:
  "2 * round_half_even s n \<le> 2 * n + 2 ^ s" "2 * n \<le> 2 * round_half_even s n + 2 ^ s"
proof -
  define q r where qr: "q = n div 2 ^ s" "r = n mod 2 ^ s"
  have n: "n = q * 2 ^ s + r" unfolding qr by (simp only: div_mult_mod_eq)
  have r: "r < 2 ^ s" unfolding qr by simp
  have "round_half_even s n = (if 2 * r < 2 ^ s \<or> (2 * r = 2 ^ s \<and> even q) then q * 2 ^ s else q * 2 ^ s + 2 ^ s)"
    by (simp add: round_half_even_def Let_def qr)
  then show "2 * round_half_even s n \<le> 2 * n + 2 ^ s" "2 * n \<le> 2 * round_half_even s n + 2 ^ s"
    using n r by (auto split: if_splits)
qed

lemma round_to_exact: "nat \<bar>m\<bar> < 2 ^ p \<Longrightarrow> round_to p (m, k) = (m, k)"
proof -
  assume "nat \<bar>m\<bar> < 2 ^ p"
  moreover have "2 ^ (bit_length (nat \<bar>m\<bar>) - 1) \<le> nat \<bar>m\<bar>" if "m \<noteq> 0"
    using bit_length_bounds [of "nat \<bar>m\<bar>"] that by simp
  ultimately have "bit_length (nat \<bar>m\<bar>) - 1 < p" if "m \<noteq> 0"
    using that by (meson le_less_trans power_less_imp_less_exp one_less_numeral_iff semiring_norm(76))
  then have "bit_length (nat \<bar>m\<bar>) \<le> p" by (cases "m = 0") (auto simp: bit_length.simps)
  then show ?thesis by (simp add: round_to_def)
qed

lemma round_half_even_mono: "n \<le> n' \<Longrightarrow> round_half_even s n \<le> round_half_even s n'"
proof -
  assume le: "n \<le> n'"
  let ?q = "n div 2 ^ s" and ?q' = "n' div 2 ^ s"
  have q: "?q \<le> ?q'" using le by (rule div_le_mono)
  show ?thesis
  proof (cases "?q = ?q'")
    case True
    then have "n mod 2 ^ s \<le> n' mod 2 ^ s" using le by (metis div_mult_mod_eq nat_add_left_cancel_le)
    then show ?thesis using True by (auto simp: round_half_even_def Let_def)
  next
    case False
    then have "?q + 1 \<le> ?q'" using q by simp
    then show ?thesis by (auto simp: round_half_even_def Let_def)
  qed
qed

lemma mk_bandwidth_nonneg [simp]: "0 \<le> mk_bandwidth b"
  by (simp add: mk_bandwidth_def)

lemma bw_nonneg [simp]:
  "0 \<le> bw_add a b" "0 \<le> bw_sub a b" "0 \<le> bw_scale f b" "0 \<le> bw_FromBitsPerSecond c" "0 \<le> bw_FromKBitsPerSecond c"
  by (simp_all add: bw_add_def bw_sub_def bw_scale_def bw_FromBitsPerSecond_def bw_FromKBitsPerSecond_def)

lemma bw_FromBytesAndTimeDelta_nonneg: "bw_FromBytesAndTimeDelta bytes d = Some b \<Longrightarrow> 0 \<le> b"
  by (auto simp: bw_FromBytesAndTimeDelta_def split: if_splits)

end
