(* ===== verification/Framer_Ack.thy ===== *)
theory Framer_Ack
  imports Framer_Frames Packet_Number_Queue Quic_Time
begin

text \<open>
  The ACK frame (quic/model/my\_quic\_framer.cc): its encoding as gap and block-length pairs from
  the largest acknowledged packet downwards, truncated to the space left in the packet and to 255
  blocks, and its incremental decoding, which reports every acknowledged range to the visitor.

  The visitor is a pair of callbacks on a state of the caller's choice; each returns whether
  processing goes on and the state after the call. \<open>use_incremental_ack_processing_\<close> is an
  argument (the constructor sets it to true); without it ranges are collected in the frame.
\<close>

section \<open>State\<close>

record quic_ack_frame =
  af_largest_acked :: u64
  af_ack_delay_time :: quic_delta
  af_received_packet_times :: "(u64 \<times> quic_time) list"
  af_packets :: packet_number_queue

definition QuicAckFrame :: quic_ack_frame where
  "QuicAckFrame = \<lparr>af_largest_acked = 0, af_ack_delay_time = kQuicInfiniteTimeUs,
     af_received_packet_times = [], af_packets = []\<rparr>"

definition ack_frame_Clear :: "quic_ack_frame \<Rightarrow> quic_ack_frame" where
  "ack_frame_Clear frame = frame\<lparr>af_largest_acked := 0, af_ack_delay_time := kQuicInfiniteTimeUs,
     af_received_packet_times := [], af_packets := pnq_Clear (af_packets frame)\<rparr>"

definition LargestAcked :: "quic_ack_frame \<Rightarrow> u64" where
  "LargestAcked frame = af_largest_acked frame"

record 'v ack_visitor =
  OnAckFrameStart :: "u64 \<Rightarrow> quic_delta \<Rightarrow> 'v \<Rightarrow> bool \<times> 'v"
  OnAckRange :: "u64 \<Rightarrow> u64 \<Rightarrow> bool \<Rightarrow> 'v \<Rightarrow> bool \<times> 'v"

record 'v ack_state =
  as_visitor :: 'v
  as_frame :: quic_ack_frame
  as_last_timestamp :: quic_delta

record ack_frame_info =
  max_block_length :: u64
  first_block_length :: u64
  num_ack_blocks :: nat

section \<open>Summary of the ranges\<close>

definition encoded_gaps :: "u64 \<Rightarrow> nat" where
  "encoded_gaps total_gap = unat ((total_gap + 255 - 1) div 255)"

fun ack_info_loop :: "interval list \<Rightarrow> u64 \<Rightarrow> ack_frame_info \<Rightarrow> ack_frame_info" where
  "ack_info_loop [] previous_start info = info"
| "ack_info_loop (iv # rest) previous_start info =
     (if num_ack_blocks info < 255 then
        let total_gap = previous_start - snd iv in
        ack_info_loop rest (fst iv)
          (info\<lparr>num_ack_blocks := num_ack_blocks info + encoded_gaps total_gap,
                max_block_length := max (max_block_length info) (interval_length iv)\<rparr>)
      else info)"

definition GetAckFrameInfo :: "quic_ack_frame \<Rightarrow> ack_frame_info" where
  "GetAckFrameInfo frame =
     (case rev (af_packets frame) of
        [] \<Rightarrow> \<lparr>max_block_length = 0, first_block_length = 0, num_ack_blocks = 0\<rparr>
      | iv # rest \<Rightarrow>
          ack_info_loop rest (fst iv)
            \<lparr>max_block_length = interval_length iv,
             first_block_length = pnq_LastIntervalLength (af_packets frame), num_ack_blocks = 0\<rparr>)"

section \<open>Sizes\<close>

definition GetAckFrameTimeStampSize :: "quic_ack_frame \<Rightarrow> nat" where
  "GetAckFrameTimeStampSize ack =
     (if af_received_packet_times ack = [] then 0
      else 5 + 3 * (length (af_received_packet_times ack) - 1))"

definition GetAckFrameSize :: "transport_version \<Rightarrow> bool \<Rightarrow> quic_ack_frame \<Rightarrow> nat" where
  "GetAckFrameSize version incremental ack =
     (let ack_info = GetAckFrameInfo ack;
          largest_acked_length = GetMinPacketNumberLength version (LargestAcked ack);
          ack_block_length = GetMinPacketNumberLength version (max_block_length ack_info)
      in GetMinAckFrameSize version largest_acked_length + ack_block_length
         + (if num_ack_blocks ack_info \<noteq> 0
            then kNumberOfAckBlocksSize
                 + min (num_ack_blocks ack_info) kMaxAckBlocks * (ack_block_length + PACKET_1BYTE_PACKET_NUMBER)
            else 0)
         + (if \<not> incremental then GetAckFrameTimeStampSize ack else 0))"

section \<open>Encoding\<close>

definition ack_type_byte :: "transport_version \<Rightarrow> bool \<Rightarrow> nat \<Rightarrow> nat \<Rightarrow> u8" where
  "ack_type_byte version has_blocks largest_acked_length ack_block_length =
     (let b = SetBit 0 has_blocks (if version \<noteq> QUIC_VERSION_41 then 5 else 4);
          b = SetBits b (GetPacketNumberFlags largest_acked_length) 2 2;
          b = SetBits b (GetPacketNumberFlags ack_block_length) 2 0
      in if version \<noteq> QUIC_VERSION_41 then b OR 0x40 else b OR 0xa0)"

definition available_ack_bytes :: "transport_version \<Rightarrow> ack_frame_info \<Rightarrow> nat \<Rightarrow> nat \<Rightarrow> quic_data_writer \<Rightarrow> int" where
  "available_ack_bytes version info largest_acked_length ack_block_length w =
     sint (word_of_int (int (w_capacity w) - int (w_length w) - int ack_block_length
       - int (GetMinAckFrameSize version largest_acked_length)
       - (if num_ack_blocks info \<noteq> 0 then int kNumberOfAckBlocksSize else 0)) :: 32 word)"

definition limited_ack_blocks :: "ack_frame_info \<Rightarrow> nat \<Rightarrow> int \<Rightarrow> nat" where
  "limited_ack_blocks info ack_block_length available =
     (let max_num_ack_blocks =
            unat (to_u64 (trunc_div available (int (ack_block_length + PACKET_1BYTE_PACKET_NUMBER))));
          n = min (num_ack_blocks info) max_num_ack_blocks
      in if n > 255 then 255 else n)"

text \<open>
  The two nested loops over the ranges, newest first. Both thread the number of blocks written so
  far, and stop at the limit.
\<close>

type_synonym block_op = "nat \<Rightarrow> quic_data_writer \<Rightarrow> (append_res \<times> nat) \<times> quic_data_writer"

primrec append_empty_blocks :: "nat \<Rightarrow> nat \<Rightarrow> nat \<Rightarrow> block_op" where
  "append_empty_blocks limit block_len 0 written w = ((Appended, written), w)"
| "append_empty_blocks limit block_len (Suc n) written w =
     (if written < limit then
        (case AppendAckBlock 255 block_len 0 w of
           (ok, w') \<Rightarrow> if ok then append_empty_blocks limit block_len n (written + 1) w'
                      else ((Refused None, written), w'))
      else ((Appended, written), w))"

fun append_ack_blocks :: "nat \<Rightarrow> nat \<Rightarrow> interval list \<Rightarrow> u64 \<Rightarrow> block_op" where
  "append_ack_blocks limit block_len [] previous_start written w = ((Appended, written), w)"
| "append_ack_blocks limit block_len (iv # rest) previous_start written w =
     (if written < limit then
        let total_gap = previous_start - snd iv;
            num_encoded_gaps = encoded_gaps total_gap
        in case append_empty_blocks limit block_len (num_encoded_gaps - 1) written w of
             ((Refused m, written'), w') \<Rightarrow> ((Refused m, written'), w')
           | ((Appended, written'), w') \<Rightarrow>
               if written' \<ge> limit then ((Appended, written'), w')
               else
                 let last_gap = ucast (total_gap - (word_of_nat num_encoded_gaps - 1) * 255)
                 in case AppendAckBlock last_gap block_len (interval_length iv) w' of
                      (ok, w'') \<Rightarrow>
                        if ok then append_ack_blocks limit block_len rest (fst iv) (written' + 1) w''
                        else ((Refused None, written'), w'')
      else ((Appended, written), w))"

text \<open>
  The timestamps of received packets, written only without incremental processing. In version 41
  their count is stored back at an earlier offset through an operation of the writer that is an
  argument here.
\<close>

fun append_timestamp_deltas :: "u64 \<Rightarrow> quic_time \<Rightarrow> (u64 \<times> quic_time) list \<Rightarrow> append_op" where
  "append_timestamp_deltas largest prev_time [] = append_done"
| "append_timestamp_deltas largest prev_time ((packet_number, t) # rest) =
     (let delta_from_largest_observed = largest - packet_number in
      if delta_from_largest_observed > 255 then (\<lambda>w. (Refused None, w))
      else append_then (try_write None (WriteUInt8 (ucast delta_from_largest_observed)))
           (append_then (try_write None (WriteUFloat16 (to_u64 (t - prev_time))))
             (append_timestamp_deltas largest t rest)))"

definition AppendTimestampsToAckFrame ::
  "transport_version \<Rightarrow> (u8 \<Rightarrow> nat \<Rightarrow> write_op) \<Rightarrow> quic_time \<Rightarrow> quic_ack_frame \<Rightarrow> nat \<Rightarrow> append_op" where
  "AppendTimestampsToAckFrame version write_uint8_at_offset creation_time frame num_timestamps_offset =
     (if length (af_received_packet_times frame) > 255 then (\<lambda>w. (Refused None, w))
      else
        append_then
          (try_write None
            (if version \<noteq> QUIC_VERSION_41
             then WriteBytes [word_of_nat (length (af_received_packet_times frame))]
             else write_uint8_at_offset (word_of_nat (length (af_received_packet_times frame))) num_timestamps_offset))
          (case af_received_packet_times frame of
             [] \<Rightarrow> append_done
           | (packet_number, t) # rest \<Rightarrow>
               (let delta_from_largest_observed = LargestAcked frame - packet_number in
                if delta_from_largest_observed > 255 then (\<lambda>w. (Refused None, w))
                else append_then (try_write None (WriteUInt8 (ucast delta_from_largest_observed)))
                     (append_then (try_write None (WriteUInt32 (ucast (to_u64 (t - creation_time)))))
                       (append_timestamp_deltas (LargestAcked frame) t rest)))))"

definition AppendAckFrameAndTypeByte ::
  "transport_version \<Rightarrow> bool \<Rightarrow> (u8 \<Rightarrow> nat \<Rightarrow> write_op) \<Rightarrow> quic_time \<Rightarrow> quic_ack_frame \<Rightarrow> append_op" where
  "AppendAckFrameAndTypeByte version incremental write_uint8_at_offset creation_time frame w =
     (let new_ack_info = GetAckFrameInfo frame;
          largest_acked = LargestAcked frame;
          largest_acked_length = GetMinPacketNumberLength version largest_acked;
          ack_block_length = GetMinPacketNumberLength version (max_block_length new_ack_info);
          available = available_ack_bytes version new_ack_info largest_acked_length ack_block_length w;
          type_byte = ack_type_byte version (num_ack_blocks new_ack_info \<noteq> 0) largest_acked_length ack_block_length;
          n = limited_ack_blocks new_ack_info ack_block_length available;
          num_timestamps_offset = (if version = QUIC_VERSION_41 then w_length w + 1 + (if n > 0 then 1 else 0) else 0);
          ack_delay_time_us = (if \<not> delta_IsInfinite (af_ack_delay_time frame)
                               then to_u64 (af_ack_delay_time frame) else kUFloat16MaxValue)
      in
      append_then (try_write None (WriteUInt8 type_byte))
      (append_then
        (if version = QUIC_VERSION_41 then
           append_then (if n > 0 then try_write None (WriteBytes [word_of_nat n]) else append_done)
             (try_write None (WriteUInt8 0))
         else append_done)
      (append_then (try_write None (AppendPacketNumber largest_acked_length largest_acked))
      (append_then (try_write None (WriteUFloat16 ack_delay_time_us))
      (append_then
        (if version \<noteq> QUIC_VERSION_41 \<and> n > 0 then try_write None (WriteBytes [word_of_nat n]) else append_done)
      (append_then (try_write None (AppendPacketNumber ack_block_length (first_block_length new_ack_info)))
      (append_then
        (if n > 0 then
           (\<lambda>w1. case rev (af_packets frame) of
                   [] \<Rightarrow> (Appended, w1)
                 | iv # rest \<Rightarrow>
                     (case append_ack_blocks n ack_block_length rest (fst iv) 0 w1 of
                        ((res, _), w2) \<Rightarrow> (res, w2)))
         else append_done)
        (\<lambda>w3.
          if \<not> incremental \<and> w_capacity w3 - w_length w3 \<ge> GetAckFrameTimeStampSize frame
          then AppendTimestampsToAckFrame version write_uint8_at_offset creation_time frame num_timestamps_offset w3
          else if version \<noteq> QUIC_VERSION_41 then try_write None (WriteBytes [0]) w3
          else (Appended, w3)))))))) w)"

section \<open>Decoding\<close>

text \<open>Parsers that also change the state of the visitor and of the framer.\<close>

type_synonym ('v, 'a) ack_parse = "'v ack_state \<times> quic_data_reader \<Rightarrow> (string + 'a) \<times> 'v ack_state \<times> quic_data_reader"

definition ack_bind :: "('v, 'a) ack_parse \<Rightarrow> ('a \<Rightarrow> ('v, 'b) ack_parse) \<Rightarrow> ('v, 'b) ack_parse" where
  "ack_bind f g = (\<lambda>st. case f st of (Inl m, st') \<Rightarrow> (Inl m, st') | (Inr x, st') \<Rightarrow> g x st')"

definition ack_return :: "'a \<Rightarrow> ('v, 'a) ack_parse" where
  "ack_return x = (\<lambda>st. (Inr x, st))"

definition ack_fail :: "string \<Rightarrow> ('v, 'a) ack_parse" where
  "ack_fail m = (\<lambda>st. (Inl m, st))"

definition ack_read :: "string \<Rightarrow> 'a read_op \<Rightarrow> ('v, 'a) ack_parse" where
  "ack_read m f = (\<lambda>(s, r). case try_read m f r of (x, r') \<Rightarrow> (x, s, r'))"

definition ack_modify :: "('v ack_state \<Rightarrow> 'v ack_state) \<Rightarrow> ('v, unit) ack_parse" where
  "ack_modify h = (\<lambda>(s, r). (Inr (), h s, r))"

definition ack_visit :: "('v \<Rightarrow> bool \<times> 'v) \<Rightarrow> ('v, unit) ack_parse" where
  "ack_visit callback = (\<lambda>(s, r). case callback (as_visitor s) of (ok, v) \<Rightarrow>
     (if ok then Inr () else Inl ''Visitor suppresses further processing of ack frame.'', s\<lparr>as_visitor := v\<rparr>, r))"

fun decimal :: "nat \<Rightarrow> string" where
  "decimal n = (if n < 10 then [char_of (48 + n)] else decimal (n div 10) @ [char_of (48 + n mod 10)])"

declare decimal.simps [simp del]

definition report_range :: "('v, 'z) ack_visitor_scheme \<Rightarrow> bool \<Rightarrow> u64 \<Rightarrow> u64 \<Rightarrow> bool \<Rightarrow> ('v, unit) ack_parse" where
  "report_range vis incremental lower higher last_range =
     (if incremental then ack_visit (OnAckRange vis lower higher last_range)
      else ack_modify (\<lambda>s. s\<lparr>as_frame := (as_frame s)\<lparr>af_packets :=
             pnq_AddRange lower higher (af_packets (as_frame s))\<rparr>\<rparr>))"

primrec process_ack_blocks ::
  "('v, 'z) ack_visitor_scheme \<Rightarrow> bool \<Rightarrow> nat \<Rightarrow> nat \<Rightarrow> u64 \<Rightarrow> ('v, unit) ack_parse" where
  "process_ack_blocks vis incremental ack_block_length 0 first_received = ack_return ()"
| "process_ack_blocks vis incremental ack_block_length (Suc n) first_received =
     ack_bind (ack_read ''Unable to read gap to next ack block.'' ReadUInt8) (\<lambda>gap.
     ack_bind (ack_read ''Unable to ack block length.'' (ReadBytesToUInt64 ack_block_length)) (\<lambda>current_block_length.
     if first_received < ucast gap + current_block_length then
       ack_fail (''Underflow with ack block length '' @ decimal (unat current_block_length) @
         '', end of block is '' @ decimal (unat (first_received - ucast gap)) @ ''.'')
     else
       let first_received' = first_received - (ucast gap + current_block_length) in
       ack_bind
         (if current_block_length > 0
          then report_range vis incremental first_received' (first_received' + current_block_length) (n = 0)
          else ack_return ()) (\<lambda>_.
       process_ack_blocks vis incremental ack_block_length n first_received')))"

definition add_timestamp :: "quic_time \<Rightarrow> u8 \<Rightarrow> quic_delta \<Rightarrow> ('v, unit) ack_parse" where
  "add_timestamp creation_time delta_from_largest_observed t =
     ack_modify (\<lambda>s. s\<lparr>as_last_timestamp := t,
       as_frame := (as_frame s)\<lparr>af_received_packet_times := af_received_packet_times (as_frame s) @
         [(LargestAcked (as_frame s) - ucast delta_from_largest_observed, creation_time + t)]\<rparr>\<rparr>)"

primrec process_timestamp_deltas :: "quic_time \<Rightarrow> nat \<Rightarrow> ('v, unit) ack_parse" where
  "process_timestamp_deltas creation_time 0 = ack_return ()"
| "process_timestamp_deltas creation_time (Suc n) =
     ack_bind (ack_read ''Unable to read sequence delta in received packets.'' ReadUInt8) (\<lambda>delta.
     ack_bind (ack_read ''Unable to read incremental time delta in received packets.'' ReadUFloat16) (\<lambda>us.
     ack_bind (\<lambda>st. add_timestamp creation_time delta (as_last_timestamp (fst st) + to_i64 us) st) (\<lambda>_.
     process_timestamp_deltas creation_time n)))"

definition ProcessTimestampsInAckFrame :: "quic_time \<Rightarrow> nat \<Rightarrow> ('v, unit) ack_parse" where
  "ProcessTimestampsInAckFrame creation_time num_received_packets =
     (if num_received_packets > 0 then
        ack_bind (ack_read ''Unable to read sequence delta in received packets.'' ReadUInt8) (\<lambda>delta.
        ack_bind (ack_read ''Unable to read time delta in received packets.'' ReadUInt32) (\<lambda>time_delta_us.
        ack_bind (\<lambda>st. add_timestamp creation_time delta
            (to_i64 (CalculateTimestampFromWire (to_u64 (as_last_timestamp (fst st))) time_delta_us)) st) (\<lambda>_.
        process_timestamp_deltas creation_time (num_received_packets - 1))))
      else ack_return ())"

definition decoded_ack_delay :: "u64 \<Rightarrow> quic_delta" where
  "decoded_ack_delay us = (if us = kUFloat16MaxValue then kQuicInfiniteTimeUs else to_i64 us)"

definition ProcessAckFrame ::
  "transport_version \<Rightarrow> bool \<Rightarrow> quic_time \<Rightarrow> ('v, 'z) ack_visitor_scheme \<Rightarrow> u8 \<Rightarrow> ('v, unit) ack_parse" where
  "ProcessAckFrame version incremental creation_time vis frame_type =
     (let has_ack_blocks = ExtractBit frame_type (if version \<noteq> QUIC_VERSION_41 then 5 else 4);
          ack_block_length = ReadAckPacketNumberLength version (ExtractBits frame_type 2 0);
          largest_acked_length = ReadAckPacketNumberLength version (ExtractBits frame_type 2 2);
          read_count = ack_read ''Unable to read num of ack blocks.'' ReadUInt8;
          read_received = ack_read ''Unable to read num received packets.'' ReadUInt8
      in
      ack_bind (if version = QUIC_VERSION_41 \<and> has_ack_blocks then read_count else ack_return 0) (\<lambda>count41.
      ack_bind (if version = QUIC_VERSION_41 then read_received else ack_return 0) (\<lambda>received41.
      ack_bind (ack_read ''Unable to read largest acked.'' (ReadBytesToUInt64 largest_acked_length)) (\<lambda>largest_acked.
      ack_bind (ack_read ''Unable to read ack delay time.'' ReadUFloat16) (\<lambda>ack_delay_time_us.
      ack_bind
        (if incremental then ack_visit (OnAckFrameStart vis largest_acked (decoded_ack_delay ack_delay_time_us))
         else ack_modify (\<lambda>s. s\<lparr>as_frame := (as_frame s)\<lparr>af_ack_delay_time := decoded_ack_delay ack_delay_time_us\<rparr>\<rparr>)) (\<lambda>_.
      ack_bind (if has_ack_blocks \<and> version \<noteq> QUIC_VERSION_41 then read_count else ack_return count41) (\<lambda>blocks.
      ack_bind (ack_read ''Unable to read first ack block length.'' (ReadBytesToUInt64 ack_block_length)) (\<lambda>first_len.
      if first_len = 0 \<and> (largest_acked \<noteq> 0 \<or> blocks \<noteq> 0) then
        ack_fail (''First block length is zero but ACK is not empty. largest acked is '' @
          decimal (unat largest_acked) @ '', num ack blocks is '' @ decimal (unat blocks) @ ''.'')
      else if first_len > largest_acked + 1 then
        ack_fail (''Underflow with first ack block length '' @ decimal (unat first_len) @
          '' largest acked is '' @ decimal (unat largest_acked) @ ''.'')
      else
        let first_received = largest_acked + 1 - first_len in
        ack_bind
          (if incremental then ack_visit (OnAckRange vis first_received (largest_acked + 1) (\<not> has_ack_blocks))
           else ack_modify (\<lambda>s. s\<lparr>as_frame := (as_frame s)\<lparr>af_largest_acked := largest_acked,
                  af_packets := pnq_AddRange first_received (largest_acked + 1) (af_packets (as_frame s))\<rparr>\<rparr>)) (\<lambda>_.
        ack_bind (process_ack_blocks vis incremental ack_block_length (unat blocks) first_received) (\<lambda>_.
        ack_bind (if version \<noteq> QUIC_VERSION_41 then read_received else ack_return received41) (\<lambda>received.
        ProcessTimestampsInAckFrame creation_time (unat received))))))))))))"

section \<open>The flat form of the encoding loops\<close>

definition gap_blocks :: "u64 \<Rightarrow> interval \<Rightarrow> (u8 \<times> u64) list" where
  "gap_blocks previous_start iv =
     (let total_gap = previous_start - snd iv; k = encoded_gaps total_gap
      in replicate (k - 1) (255, 0) @ [(ucast (total_gap - (word_of_nat k - 1) * 255), interval_length iv)])"

fun ack_block_list :: "u64 \<Rightarrow> interval list \<Rightarrow> (u8 \<times> u64) list" where
  "ack_block_list previous_start [] = []"
| "ack_block_list previous_start (iv # rest) = gap_blocks previous_start iv @ ack_block_list (fst iv) rest"

fun write_blocks :: "nat \<Rightarrow> (u8 \<times> u64) list \<Rightarrow> write_op" where
  "write_blocks block_len [] = write_nothing"
| "write_blocks block_len ((gap, len) # bs) = and_then (AppendAckBlock gap block_len len) (write_blocks block_len bs)"

definition blocks_bytes :: "endianness \<Rightarrow> nat \<Rightarrow> (u8 \<times> u64) list \<Rightarrow> u8 list" where
  "blocks_bytes e block_len bs = concat (map (\<lambda>(gap, len). gap # uint_bytes e block_len (unat len)) bs)"

definition block_result :: "(append_res \<times> nat) \<times> quic_data_writer \<Rightarrow> bool \<times> quic_data_writer" where
  "block_result x = (case x of ((res, _), w) \<Rightarrow> (res = Appended, w))"

lemma and_then_assoc: "and_then (and_then f g) h = and_then f (and_then g h)"
  by (rule ext) (simp add: and_then_def split: prod.splits)

lemma and_then_nothing [simp]: "and_then write_nothing g = g" "and_then g write_nothing = g"
  by (rule ext, simp add: and_then_def write_nothing_def split: prod.splits)+

lemma write_blocks_append: "write_blocks n (as @ bs) = and_then (write_blocks n as) (write_blocks n bs)"
  by (induction as) (auto simp: and_then_assoc)

lemma append_empty_blocks_flat:
  assumes "written \<le> limit"
  shows "\<exists>j. append_empty_blocks limit block_len n written w =
    (case write_blocks block_len (take (limit - written) (replicate n (255, 0))) w of (ok, w') \<Rightarrow>
       ((if ok then Appended else Refused None, if ok then written + min n (limit - written) else j), w'))"
  using assms
proof (induction n arbitrary: written w)
  case 0
  then show ?case by (simp add: write_nothing_def)
next
  case (Suc n)
  show ?case
  proof (cases "written < limit")
    case False
    then show ?thesis using Suc.prems by (simp add: write_nothing_def)
  next
    case True
    then obtain m where m: "limit - written = Suc m" by (metis Suc_diff_Suc)
    then have m': "limit - (written + 1) = m" by simp
    obtain ok w' where a: "AppendAckBlock 255 block_len 0 w = (ok, w')" by fastforce
    show ?thesis
    proof (cases ok)
      case False
      then show ?thesis using True a m by (simp add: and_then_def)
    next
      case ok: True
      have "written + 1 \<le> limit" using True by simp
      from Suc.IH [OF this, of w'] show ?thesis
        using True a m m' ok by (simp add: and_then_def split: prod.splits)
    qed
  qed
qed

lemma append_ack_blocks_flat:
  assumes "written \<le> limit"
  shows "block_result (append_ack_blocks limit block_len ivs previous_start written w) =
    write_blocks block_len (take (limit - written) (ack_block_list previous_start ivs)) w"
  using assms
proof (induction ivs arbitrary: previous_start written w)
  case Nil
  then show ?case by (simp add: block_result_def write_nothing_def)
next
  case (Cons iv rest)
  show ?case
  proof (cases "written < limit")
    case False
    then show ?thesis using Cons.prems by (simp add: block_result_def write_nothing_def)
  next
    case True
    define total_gap k where tk: "total_gap = previous_start - snd iv" "k = encoded_gaps total_gap"
    define last_gap :: u8 where "last_gap = ucast (total_gap - (word_of_nat k - 1) * 255)"
    have lg: "ucast (total_gap - (word_of_nat k * 255 - 255)) = last_gap"
      by (simp add: last_gap_def left_diff_distrib)
    have list: "ack_block_list previous_start (iv # rest) =
        replicate (k - 1) (255, 0) @ (last_gap, interval_length iv) # ack_block_list (fst iv) rest"
      by (simp add: gap_blocks_def Let_def tk last_gap_def)
    obtain ok w' where e: "write_blocks block_len (take (limit - written) (replicate (k - 1) (255, 0))) w = (ok, w')"
      by fastforce
    obtain j where em: "append_empty_blocks limit block_len (k - 1) written w =
       ((if ok then Appended else Refused None, if ok then written + min (k - 1) (limit - written) else j), w')"
      using append_empty_blocks_flat [of written limit block_len "k - 1" w] Cons.prems e by auto
    show ?thesis
    proof (cases ok)
      case False
      then show ?thesis using True em e
        by (simp add: list take_append write_blocks_append and_then_def block_result_def tk [symmetric] Let_def del: ack_block_list.simps)
    next
      case ok: True
      show ?thesis
      proof (cases "limit - written \<le> k - 1")
        case True
        then show ?thesis using \<open>written < limit\<close> em e ok
          by (simp add: list block_result_def tk [symmetric] Let_def del: ack_block_list.simps)
      next
        case False
        then obtain d where d: "limit - written - (k - 1) = Suc d" by (metis Suc_diff_Suc not_le)
        obtain ok2 w'' where a: "AppendAckBlock last_gap block_len (interval_length iv) w' = (ok2, w'')" by fastforce
        have w1: "written + (k - 1) + 1 \<le> limit" "limit - (written + (k - 1) + 1) = d" using d by simp_all
        have e': "write_blocks block_len (replicate (k - 1) (255, 0)) w = (True, w')"
          using e ok False by (simp add: min_def split: if_splits)
        show ?thesis using Cons.IH [OF w1(1), of "fst iv" w''] \<open>written < limit\<close> em e' ok False a d w1(2)
          by (auto simp: list take_append write_blocks_append and_then_def block_result_def tk [symmetric]
              lg Let_def min_def simp del: ack_block_list.simps)
      qed
    qed
  qed
qed

lemma appends_write_blocks:
  "block_len \<in> {1, 2, 4, 6, 8} \<Longrightarrow> appends e (write_blocks block_len bs) (blocks_bytes e block_len bs)"
proof (induction bs)
  case Nil
  then show ?case by (simp add: blocks_bytes_def)
next
  case (Cons b bs)
  then show ?case using appends_and_then [OF appends_AppendAckBlock [OF Cons.prems] Cons.IH [OF Cons.prems]]
    by (cases b) (simp add: blocks_bytes_def)
qed

section \<open>The encoded frame\<close>

definition ack_frame_bytes :: "endianness \<Rightarrow> transport_version \<Rightarrow> quic_ack_frame \<Rightarrow> nat \<Rightarrow> u8 list" where
  "ack_frame_bytes e version frame n =
     (let info = GetAckFrameInfo frame;
          largest_len = GetMinPacketNumberLength version (LargestAcked frame);
          block_len = GetMinPacketNumberLength version (max_block_length info);
          delay = (if \<not> delta_IsInfinite (af_ack_delay_time frame) then to_u64 (af_ack_delay_time frame) else kUFloat16MaxValue);
          count = (if n > 0 then [word_of_nat n] else [])
      in ack_type_byte version (num_ack_blocks info \<noteq> 0) largest_len block_len #
         (if version = QUIC_VERSION_41 then count @ [0] else []) @
         uint_bytes e largest_len (unat (LargestAcked frame)) @
         uint_bytes e 2 (unat (ufloat16_encode delay)) @
         (if version \<noteq> QUIC_VERSION_41 then count else []) @
         uint_bytes e block_len (unat (first_block_length info)) @
         (case rev (af_packets frame) of [] \<Rightarrow> [] | iv # rest \<Rightarrow> blocks_bytes e block_len (take n (ack_block_list (fst iv) rest))) @
         (if version \<noteq> QUIC_VERSION_41 then [0] else []))"

definition ack_blocks_for :: "transport_version \<Rightarrow> quic_ack_frame \<Rightarrow> quic_data_writer \<Rightarrow> nat" where
  "ack_blocks_for version frame w =
     (let info = GetAckFrameInfo frame;
          largest_len = GetMinPacketNumberLength version (LargestAcked frame);
          block_len = GetMinPacketNumberLength version (max_block_length info)
      in limited_ack_blocks info block_len (available_ack_bytes version info largest_len block_len w))"

lemma packet_number_length_in: "GetMinPacketNumberLength version n \<in> {1, 2, 4, 6, 8}"
  by (simp add: GetMinPacketNumberLength_cases)

lemma appending_flat:
  assumes "block_len \<in> {1, 2, 4, 6, 8}"
  shows "appending e (\<lambda>w1. case ivs of [] \<Rightarrow> (Appended, w1)
      | iv # rest \<Rightarrow> (case append_ack_blocks n block_len rest (fst iv) 0 w1 of ((res, _), w2) \<Rightarrow> (res, w2)))
    (case ivs of [] \<Rightarrow> [] | iv # rest \<Rightarrow> blocks_bytes e block_len (take n (ack_block_list (fst iv) rest)))"
proof (cases ivs)
  case Nil
  then show ?thesis using appending_done [of e] by (simp add: append_done_def)
next
  case (Cons iv rest)
  have "succeeds (\<lambda>w1. case append_ack_blocks n block_len rest (fst iv) 0 w1 of ((res, _), w2) \<Rightarrow> (res, w2)) =
      write_blocks block_len (take n (ack_block_list (fst iv) rest))"
  proof (rule ext)
    fix w
    show "succeeds (\<lambda>w1. case append_ack_blocks n block_len rest (fst iv) 0 w1 of ((res, _), w2) \<Rightarrow> (res, w2)) w =
      write_blocks block_len (take n (ack_block_list (fst iv) rest)) w"
      using append_ack_blocks_flat [of 0 n block_len rest "fst iv" w]
      by (simp add: succeeds_def block_result_def split: prod.splits)
  qed
  then show ?thesis using Cons appends_write_blocks [OF assms] by (simp add: appending_def)
qed

text \<open>With incremental processing the frame written is the reference encoding with the block count that the space allows.\<close>

lemma AppendAck_reference:
  assumes "w_ok w" "w_endianness w = e"
  shows "\<exists>f. appending e f (ack_frame_bytes e version frame (ack_blocks_for version frame w)) \<and>
    AppendAckFrameAndTypeByte version True at_offset creation_time frame w = f w"
proof -
  define info where "info = GetAckFrameInfo frame"
  define ll where "ll = GetMinPacketNumberLength version (LargestAcked frame)"
  define bl where "bl = GetMinPacketNumberLength version (max_block_length info)"
  define n where "n = ack_blocks_for version frame w"
  have len: "ll \<in> {1, 2, 4, 6, 8}" "bl \<in> {1, 2, 4, 6, 8}" unfolding ll_def bl_def by (rule packet_number_length_in)+
  have n: "n = limited_ack_blocks info bl (available_ack_bytes version info ll bl w)"
    by (simp add: n_def ack_blocks_for_def info_def ll_def bl_def Let_def)
  define delay where "delay = (if \<not> delta_IsInfinite (af_ack_delay_time frame) then to_u64 (af_ack_delay_time frame) else kUFloat16MaxValue)"
  define f where "f =
      append_then (try_write None (WriteUInt8 (ack_type_byte version (num_ack_blocks info \<noteq> 0) ll bl)))
      (append_then
        (if version = QUIC_VERSION_41 then
           append_then (if n > 0 then try_write None (WriteBytes [word_of_nat n]) else append_done)
             (try_write None (WriteUInt8 0))
         else append_done)
      (append_then (try_write None (AppendPacketNumber ll (LargestAcked frame)))
      (append_then (try_write None (WriteUFloat16 delay))
      (append_then
        (if version \<noteq> QUIC_VERSION_41 \<and> n > 0 then try_write None (WriteBytes [word_of_nat n]) else append_done)
      (append_then (try_write None (AppendPacketNumber bl (first_block_length info)))
      (append_then
        (if n > 0 then
           (\<lambda>w1. case rev (af_packets frame) of
                   [] \<Rightarrow> (Appended, w1)
                 | iv # rest \<Rightarrow>
                     (case append_ack_blocks n bl rest (fst iv) 0 w1 of ((res, _), w2) \<Rightarrow> (res, w2)))
         else append_done)
        (if version \<noteq> QUIC_VERSION_41 then try_write None (WriteBytes [0]) else append_done)))))))"
  have last: "(\<lambda>w3. if \<not> True \<and> w_capacity w3 - w_length w3 \<ge> GetAckFrameTimeStampSize frame
          then AppendTimestampsToAckFrame version at_offset creation_time frame k w3
          else if version \<noteq> QUIC_VERSION_41 then try_write None (WriteBytes [0]) w3
          else (Appended, w3)) = (if version \<noteq> QUIC_VERSION_41 then try_write None (WriteBytes [0]) else append_done)" for k
    by (auto simp: append_done_def)
  have "AppendAckFrameAndTypeByte version True at_offset creation_time frame w = f w"
    unfolding AppendAckFrameAndTypeByte_def Let_def f_def last n info_def ll_def bl_def delay_def by (rule refl)
  moreover have "appending e f (ack_frame_bytes e version frame n)"
  proof -
    have blocks: "appending e (if n > 0 then
           (\<lambda>w1. case rev (af_packets frame) of
                   [] \<Rightarrow> (Appended, w1)
                 | iv # rest \<Rightarrow>
                     (case append_ack_blocks n bl rest (fst iv) 0 w1 of ((res, _), w2) \<Rightarrow> (res, w2)))
         else append_done)
       (case rev (af_packets frame) of [] \<Rightarrow> [] | iv # rest \<Rightarrow> blocks_bytes e bl (take n (ack_block_list (fst iv) rest)))"
      using appending_flat [OF len(2), where e = e and ivs = "rev (af_packets frame)" and n = n]
      by (auto simp: blocks_bytes_def split: list.splits)
    have "ack_frame_bytes e version frame n =
      [ack_type_byte version (num_ack_blocks info \<noteq> 0) ll bl] @
         (if version = QUIC_VERSION_41 then (if n > 0 then [word_of_nat n] else []) @ [0] else []) @
         uint_bytes e ll (unat (LargestAcked frame)) @
         uint_bytes e 2 (unat (ufloat16_encode delay)) @
         (if version \<noteq> QUIC_VERSION_41 \<and> n > 0 then [word_of_nat n] else []) @
         uint_bytes e bl (unat (first_block_length info)) @
         (case rev (af_packets frame) of [] \<Rightarrow> [] | iv # rest \<Rightarrow> blocks_bytes e bl (take n (ack_block_list (fst iv) rest))) @
         (if version \<noteq> QUIC_VERSION_41 then [0] else [])"
      unfolding ack_frame_bytes_def Let_def info_def ll_def bl_def delay_def by simp
    moreover have count: "appending e (if n > 0 then try_write None (WriteBytes [word_of_nat n]) else append_done)
        (if n > 0 then [word_of_nat n] else [])"
      by (simp add: appending_try)
    have "appending e (if version = QUIC_VERSION_41 then
           append_then (if n > 0 then try_write None (WriteBytes [word_of_nat n]) else append_done)
             (try_write None (WriteUInt8 0)) else append_done)
        (if version = QUIC_VERSION_41 then (if n > 0 then [word_of_nat n] else []) @ [0] else [])"
      using appending_then [OF count appending_try [OF appends_WriteUInt8 [of e 0]], of None] by simp
    moreover have "appending e (if version \<noteq> QUIC_VERSION_41 \<and> n > 0 then try_write None (WriteBytes [word_of_nat n]) else append_done)
        (if version \<noteq> QUIC_VERSION_41 \<and> n > 0 then [word_of_nat n] else [])"
      by (simp add: appending_try)
    moreover have "appending e (if version \<noteq> QUIC_VERSION_41 then try_write None (WriteBytes [0]) else append_done)
        (if version \<noteq> QUIC_VERSION_41 then [0] else [])"
      by (simp add: appending_try)
    ultimately show ?thesis unfolding f_def using len
      by (simp only:) (intro appending_then appending_try appends_WriteUInt8 appends_WriteUFloat16
          appends_AppendPacketNumber blocks; assumption)
  qed
  ultimately show ?thesis unfolding n_def by blast
qed

section \<open>Space\<close>

lemma length_blocks_bytes [simp]: "length (blocks_bytes e n bs) = length bs * (n + 1)"
  by (induction bs) (auto simp: blocks_bytes_def split: prod.splits)

definition ack_header_size :: "transport_version \<Rightarrow> quic_ack_frame \<Rightarrow> nat" where
  "ack_header_size version frame =
     GetMinPacketNumberLength version (max_block_length (GetAckFrameInfo frame))
     + GetMinAckFrameSize version (GetMinPacketNumberLength version (LargestAcked frame))
     + (if num_ack_blocks (GetAckFrameInfo frame) \<noteq> 0 then kNumberOfAckBlocksSize else 0)"

lemma length_truncated_blocks:
  "length (case ivs of [] \<Rightarrow> [] | iv # rest \<Rightarrow> blocks_bytes e bl (take n (ack_block_list (fst iv) rest))) \<le> n * (bl + 1)"
proof (cases ivs)
  case (Cons iv rest)
  have "min (length (ack_block_list (fst iv) rest)) n * (bl + 1) \<le> n * (bl + 1)" by (intro mult_right_mono) simp_all
  then show ?thesis using Cons by simp
qed simp

lemma length_ack_frame_bytes:
  "length (ack_frame_bytes e version frame n) \<le>
     ack_header_size version frame - (if num_ack_blocks (GetAckFrameInfo frame) \<noteq> 0 then 1 else 0)
     + (if n > 0 then 1 else 0)
     + n * (GetMinPacketNumberLength version (max_block_length (GetAckFrameInfo frame)) + 1)"
proof -
  let ?bl = "GetMinPacketNumberLength version (max_block_length (GetAckFrameInfo frame))"
  have "length (ack_frame_bytes e version frame n) =
     GetMinPacketNumberLength version (LargestAcked frame) + 4 + (if n > 0 then 1 else 0) + ?bl +
     length (case rev (af_packets frame) of [] \<Rightarrow> [] | iv # rest \<Rightarrow> blocks_bytes e ?bl (take n (ack_block_list (fst iv) rest)))"
    by (simp add: ack_frame_bytes_def Let_def)
  then show ?thesis using length_truncated_blocks [of e ?bl n "rev (af_packets frame)"]
    by (simp add: ack_header_size_def GetMinAckFrameSize_def framer_size_defs)
qed

lemma sint_word32: "n < 2 ^ 31 \<Longrightarrow> sint (word_of_int (int n) :: 32 word) = int n"
  by (simp only: signed_of_int) (simp add: signed_take_bit_int_eq_self)

lemma ack_blocks_for_bound:
  assumes "ack_header_size version frame \<le> w_room w" "w_room w < 2 ^ 31" "w_ok w"
  shows "ack_blocks_for version frame w * (GetMinPacketNumberLength version (max_block_length (GetAckFrameInfo frame)) + 1)
      \<le> w_room w - ack_header_size version frame"
    "ack_blocks_for version frame w \<le> num_ack_blocks (GetAckFrameInfo frame)"
    "ack_blocks_for version frame w \<le> 255"
proof -
  let ?info = "GetAckFrameInfo frame"
  let ?bl = "GetMinPacketNumberLength version (max_block_length ?info)"
  let ?ll = "GetMinPacketNumberLength version (LargestAcked frame)"
  let ?room = "w_room w - ack_header_size version frame"
  have "int (w_capacity w) - int (w_length w) - int ?bl - int (GetMinAckFrameSize version ?ll)
       - (if num_ack_blocks ?info \<noteq> 0 then int kNumberOfAckBlocksSize else 0) = int ?room"
    using assms(1,3) by (auto simp: ack_header_size_def w_room_def w_ok_def)
  then have av: "available_ack_bytes version ?info ?ll ?bl w = int ?room"
    using assms(2) sint_word32 [of ?room] by (simp only: available_ack_bytes_def)
  have "trunc_div (int ?room) (int (?bl + 1)) = int (?room div (?bl + 1))"
    by (simp add: trunc_div_nonneg zdiv_int)
  moreover have "?room div (?bl + 1) < 2 ^ 64"
    using le_less_trans [OF div_le_dividend [of ?room "?bl + 1"], of "2 ^ 64"] assms(2) by simp
  ultimately have m: "unat (to_u64 (trunc_div (int ?room) (int (?bl + 1)))) = ?room div (?bl + 1)"
    by (simp add: to_u64_def unat_of_nat)
  have n: "ack_blocks_for version frame w = min (min (num_ack_blocks ?info) (?room div (?bl + 1))) 255"
    by (simp add: ack_blocks_for_def Let_def av limited_ack_blocks_def packet_length_defs m [simplified] min_def)
  have "min (min (num_ack_blocks ?info) (?room div (?bl + 1))) 255 * (?bl + 1) \<le> ?room div (?bl + 1) * (?bl + 1)"
    by (intro mult_right_mono) simp_all
  also have "\<dots> \<le> ?room" by (rule div_times_less_eq_dividend)
  finally show "ack_blocks_for version frame w * (?bl + 1) \<le> ?room" unfolding n .
  show "ack_blocks_for version frame w \<le> num_ack_blocks ?info" "ack_blocks_for version frame w \<le> 255"
    unfolding n by simp_all
qed

text \<open>Whenever the header of the frame fits, so does the truncated frame: the append succeeds.\<close>

lemma AppendAck_fits:
  assumes "ack_header_size version frame \<le> w_room w" "w_room w < 2 ^ 31" "w_ok w" "w_endianness w = e"
  shows "AppendAckFrameAndTypeByte version True at_offset creation_time frame w =
     (Appended, w_put (ack_frame_bytes e version frame (ack_blocks_for version frame w)) w)"
    "length (ack_frame_bytes e version frame (ack_blocks_for version frame w)) \<le> w_room w"
proof -
  obtain f where f: "appending e f (ack_frame_bytes e version frame (ack_blocks_for version frame w))"
    "AppendAckFrameAndTypeByte version True at_offset creation_time frame w = f w"
    using AppendAck_reference [OF assms(3,4)] by blast
  note b = ack_blocks_for_bound [OF assms(1-3)]
  show len: "length (ack_frame_bytes e version frame (ack_blocks_for version frame w)) \<le> w_room w"
    using length_ack_frame_bytes [of e version frame "ack_blocks_for version frame w"] b(1,2) assms(1)
    by (cases "ack_blocks_for version frame w = 0"; cases "num_ack_blocks (GetAckFrameInfo frame) = 0")
      (simp_all add: ack_header_size_def kNumberOfAckBlocksSize_def)
  show "AppendAckFrameAndTypeByte version True at_offset creation_time frame w =
     (Appended, w_put (ack_frame_bytes e version frame (ack_blocks_for version frame w)) w)"
    unfolding f(2) by (rule appendingD [OF f(1) assms(3,4) len])
qed

section \<open>What the decoder reports\<close>

fun block_ranges :: "u64 \<Rightarrow> (u8 \<times> u64) list \<Rightarrow> (u64 \<times> u64 \<times> bool) list" where
  "block_ranges first_received [] = []"
| "block_ranges first_received ((gap, len) # bs) =
     (let f = first_received - (ucast gap + len)
      in (if len > 0 then [(f, f + len, bs = [])] else []) @ block_ranges f bs)"

fun blocks_fit :: "u64 \<Rightarrow> (u8 \<times> u64) list \<Rightarrow> bool" where
  "blocks_fit first_received [] \<longleftrightarrow> True"
| "blocks_fit first_received ((gap, len) # bs) \<longleftrightarrow>
     unat gap + unat len \<le> unat first_received \<and> blocks_fit (first_received - (ucast gap + len)) bs"

definition accepting :: "('v, 'z) ack_visitor_scheme \<Rightarrow> bool" where
  "accepting vis \<longleftrightarrow> (\<forall>a b l v. fst (OnAckRange vis a b l v)) \<and> (\<forall>a d v. fst (OnAckFrameStart vis a d v))"

definition report_all :: "('v, 'z) ack_visitor_scheme \<Rightarrow> (u64 \<times> u64 \<times> bool) list \<Rightarrow> 'v \<Rightarrow> 'v" where
  "report_all vis ranges v = fold (\<lambda>(a, b, l) v. snd (OnAckRange vis a b l v)) ranges v"

lemma report_all_simps [simp]:
  "report_all vis [] v = v"
  "report_all vis ((a, b, l) # rs) v = report_all vis rs (snd (OnAckRange vis a b l v))"
  "report_all vis (rs @ rs') v = report_all vis rs' (report_all vis rs v)"
  by (simp_all add: report_all_def)

lemma ack_bind_read:
  assumes "reads e f bs x" "r_endianness r = e" "r_rest r = bs @ rest"
  shows "ack_bind (ack_read m f) g (s, r) = g x (s, r_skip (length bs) r)"
  using readsD [OF assms] by (simp add: ack_bind_def ack_read_def try_read_def)

lemma ack_bind_return [simp]: "ack_bind (ack_return x) g = g x"
  by (rule ext) (simp add: ack_bind_def ack_return_def)

lemma ack_bind_visit:
  "fst (cb (as_visitor s)) \<Longrightarrow> ack_bind (ack_visit cb) g (s, r) = g () (s\<lparr>as_visitor := snd (cb (as_visitor s))\<rparr>, r)"
  by (cases "cb (as_visitor s)") (simp add: ack_bind_def ack_visit_def)

lemma unat_gap_sum:
  fixes gap :: u8 and len f :: u64
  assumes "unat gap + unat len \<le> unat f"
  shows "unat (ucast gap + len) = unat gap + unat len"
proof -
  have "unat (ucast gap :: u64) = unat gap" using unat_u8_less [of gap] by (simp add: unat_ucast_mod)
  moreover have "unat gap + unat len < 2 ^ 64" using assms unat_u64_less [of f] by simp
  ultimately show ?thesis by (simp add: unat_word_ariths)
qed

lemma process_ack_blocks_reports:
  assumes vis: "accepting vis" and bl: "bl \<le> 8" and lens: "\<forall>b\<in>set bs. unat (snd b) < 256 ^ bl"
    and fit: "blocks_fit f bs" and r: "r_endianness r = e" "r_rest r = blocks_bytes e bl bs @ rest"
  shows "process_ack_blocks vis True bl (length bs) f (s, r) =
    (Inr (), s\<lparr>as_visitor := report_all vis (block_ranges f bs) (as_visitor s)\<rparr>,
     r_skip (length (blocks_bytes e bl bs)) r)"
  using lens fit r
proof (induction bs arbitrary: f s r)
  case Nil
  then show ?case by (simp add: ack_return_def blocks_bytes_def)
next
  case (Cons b bs)
  obtain gap len where b: "b = (gap, len)" by (cases b)
  let ?r1 = "r_skip 1 r" and ?r2 = "r_skip (1 + bl) r"
  have fit: "unat gap + unat len \<le> unat f" "blocks_fit (f - (ucast gap + len)) bs"
    using Cons.prems(2) by (simp_all add: b)
  have nu: "\<not> f < ucast gap + len" using unat_gap_sum [OF fit(1)] fit(1) by (simp add: word_less_nat_alt)
  have rest: "r_rest r = [gap] @ (uint_bytes e bl (unat len) @ blocks_bytes e bl bs @ rest)"
    using Cons.prems(4) by (simp add: b blocks_bytes_def)
  have rest1: "r_rest ?r1 = uint_bytes e bl (unat len) @ (blocks_bytes e bl bs @ rest)"
    using r_rest_skip [OF rest] by simp
  have rest2: "r_rest ?r2 = blocks_bytes e bl bs @ rest"
    using r_rest_skip [OF rest1] by simp
  have rd: "reads e (ReadBytesToUInt64 bl) (uint_bytes e bl (unat len)) len"
    using bl Cons.prems(1) by (intro reads_ReadBytesToUInt64_small) (simp_all add: b)
  have end1: "r_endianness ?r1 = e" "r_endianness ?r2 = e" using Cons.prems(3) by simp_all
  let ?f = "f - (ucast gap + len)"
  let ?k = "\<lambda>s. process_ack_blocks vis True bl (length bs) ?f (s, ?r2)"
  have step: "process_ack_blocks vis True bl (length (b # bs)) f (s, r) =
     ack_bind (if len > 0 then report_range vis True ?f (?f + len) (length bs = 0) else ack_return ())
       (\<lambda>_. process_ack_blocks vis True bl (length bs) ?f) (s, ?r2)"
    using nu ack_bind_read [OF rd end1(1) rest1]
    by (simp add: Let_def ack_bind_read [OF reads_ReadUInt8 Cons.prems(3) rest]
      ack_bind_read [OF rd end1(1) rest1, unfolded One_nat_def])
  have IH: "?k s' = (Inr (), s'\<lparr>as_visitor := report_all vis (block_ranges ?f bs) (as_visitor s')\<rparr>,
     r_skip (length (blocks_bytes e bl bs)) ?r2)" for s'
    using Cons.IH [OF _ fit(2) end1(2) rest2] Cons.prems(1) by simp
  have len: "length (blocks_bytes e bl (b # bs)) = 1 + bl + length (blocks_bytes e bl bs)"
    by simp
  show ?case
  proof (cases "len > 0")
    case True
    have "fst (OnAckRange vis ?f (?f + len) (length bs = 0) (as_visitor s))" using vis by (simp add: accepting_def)
    then show ?thesis using True IH unfolding step
      by (simp add: report_range_def ack_bind_visit b Let_def len)
  next
    case False
    then show ?thesis using IH [of s] unfolding step by (simp add: b Let_def len)
  qed
qed

section \<open>Decoding the reference encoding\<close>

lemma block_ranges_empties:
  "block_ranges f (replicate m (255, 0) @ bs) = block_ranges (f - word_of_nat (255 * m)) bs"
proof (induction m arbitrary: f)
  case (Suc m)
  have "(255 :: u64) + word_of_nat (255 * m) = word_of_nat (255 * Suc m)" by (simp add: algebra_simps)
  then show ?case using Suc.IH [of "f - 255"] by (simp add: diff_diff_eq)
qed simp

lemma blocks_fit_empties:
  "255 * m \<le> unat f \<Longrightarrow> blocks_fit f (replicate m (255, 0) @ bs) \<longleftrightarrow> blocks_fit (f - word_of_nat (255 * m)) bs"
proof (induction m arbitrary: f)
  case (Suc m)
  have "(255 :: u64) + word_of_nat (255 * m) = word_of_nat (255 * Suc m)" by (simp add: algebra_simps)
  moreover have "unat (f - 255) = unat f - 255" using Suc.prems by (simp add: unat_sub_if')
  ultimately show ?case using Suc.IH [of "f - 255"] Suc.prems by (simp add: diff_diff_eq)
qed simp

lemma encoded_gaps_eq:
  assumes "unat g < 2 ^ 63"
  shows "encoded_gaps g = (unat g + 254) div 255"
proof -
  have "unat (g + 255 - 1) = unat g + 254" using assms by (simp add: unat_word_ariths unat_sub_if')
  then show ?thesis by (simp add: encoded_gaps_def unat_div)
qed

lemma gap_split:
  assumes "0 < unat g" "unat g < 2 ^ 63"
  defines "k \<equiv> encoded_gaps g"
  shows "1 \<le> k" "255 * (k - 1) < unat g" "unat g \<le> 255 * (k - 1) + 255"
    "unat (ucast (g - (word_of_nat k - 1) * 255) :: u8) = unat g - 255 * (k - 1)"
proof -
  have k: "k = (unat g + 254) div 255" unfolding k_def by (rule encoded_gaps_eq [OF assms(2)])
  show k1: "1 \<le> k" and lo: "255 * (k - 1) < unat g" and hi: "unat g \<le> 255 * (k - 1) + 255"
    unfolding k using assms(1) by linarith+
  have "word_of_nat k - (1 :: u64) = word_of_nat (k - 1)" using k1 by (simp add: of_nat_diff)
  then have "(word_of_nat k - 1) * (255 :: u64) = word_of_nat (255 * (k - 1))" by (simp add: mult.commute)
  moreover have "unat (word_of_nat (255 * (k - 1)) :: u64) = 255 * (k - 1)"
    using lo unat_u64_less [of g] by (intro unat_word_of_nat) simp
  ultimately have "unat (g - (word_of_nat k - 1) * 255) = unat g - 255 * (k - 1)"
    using lo by (simp add: unat_sub_if')
  then show "unat (ucast (g - (word_of_nat k - 1) * 255) :: u8) = unat g - 255 * (k - 1)"
    using hi lo by (simp only: unat_ucast_mod) simp
qed

end
