(* ===== verification/Framer_Ack_Roundtrip.thy ===== *)
theory Framer_Ack_Roundtrip
  imports Framer_Ack
begin

text \<open>
  The ACK frame across the wire: what ProcessAckFrame reports to its visitor when it is given the
  bytes that AppendAckFrameAndTypeByte wrote. A frame that is not truncated is reported range by
  range, newest first and with the last range flagged; a frame truncated to at least one further
  block is reported as a prefix of those ranges, so a sender never sees a packet acknowledged that
  was not received. A frame that needs further blocks and has room for none is misread.
\<close>

section \<open>Decoding the block list\<close>

fun descending :: "u64 \<Rightarrow> interval list \<Rightarrow> bool" where
  "descending previous_start [] \<longleftrightarrow> True"
| "descending previous_start (iv # rest) \<longleftrightarrow> fst iv < snd iv \<and> snd iv < previous_start \<and> descending (fst iv) rest"

lemma gap_blocks_decode:
  assumes iv: "fst iv < snd iv" "snd iv < prev" and prev: "unat prev < 2 ^ 63"
  shows "block_ranges prev (gap_blocks prev iv @ bs) = (fst iv, snd iv, bs = []) # block_ranges (fst iv) bs"
    and "blocks_fit prev (gap_blocks prev iv @ bs) \<longleftrightarrow> blocks_fit (fst iv) bs"
    and "m < length (gap_blocks prev iv) \<Longrightarrow> block_ranges prev (take m (gap_blocks prev iv)) = []"
proof -
  define g k where gk: "g = prev - snd iv" "k = encoded_gaps g"
  define lg :: u8 where "lg = ucast (g - (word_of_nat k - 1) * 255)"
  have ug: "unat g = unat prev - unat (snd iv)" using iv(2) by (simp add: gk word_less_nat_alt unat_sub_if')
  have "0 < unat g" "unat g < 2 ^ 63" using ug iv(2) prev by (simp_all add: word_less_nat_alt)
  note k = gap_split [OF this, folded gk(2), folded lg_def]
  have gb: "gap_blocks prev iv = replicate (k - 1) (255, 0) @ [(lg, interval_length iv)]"
    by (simp add: gap_blocks_def Let_def gk lg_def)
  define f where "f = prev - word_of_nat (255 * (k - 1))"
  have le: "255 * (k - 1) \<le> unat prev" using k(2) ug by linarith
  have "unat (word_of_nat (255 * (k - 1)) :: u64) = 255 * (k - 1)"
    using le unat_u64_less [of prev] by (intro unat_word_of_nat) simp
  then have uf: "unat f = unat prev - 255 * (k - 1)" using le by (simp add: f_def unat_sub_if')
  have ulen: "unat (interval_length iv) = unat (snd iv) - unat (fst iv)"
    using iv(1) by (simp add: interval_length_def word_less_nat_alt unat_sub_if')
  have lens: "unat lg + unat (interval_length iv) = unat f - unat (fst iv)"
    using iv [unfolded word_less_nat_alt] k(2,4) ug uf ulen by linarith
  have fit: "unat lg + unat (interval_length iv) \<le> unat f" using lens by simp
  have "unat (f - (ucast lg + interval_length iv)) = unat f - (unat lg + unat (interval_length iv))"
    using unat_gap_sum [OF fit] fit by (simp add: unat_sub_if')
  then have sub: "f - (ucast lg + interval_length iv) = fst iv"
    unfolding word_unat_eq_iff using lens iv [unfolded word_less_nat_alt] k(2) ug uf by linarith
  have pos: "interval_length iv > 0" using ulen iv(1) by (simp add: word_less_nat_alt)
  have sum: "fst iv + interval_length iv = snd iv" using iv(1) by (simp add: interval_length_def)
  show "block_ranges prev (gap_blocks prev iv @ bs) = (fst iv, snd iv, bs = []) # block_ranges (fst iv) bs"
    unfolding gb append_assoc block_ranges_empties f_def [symmetric] append.simps block_ranges.simps Let_def sub sum
    using pos by simp
  show "blocks_fit prev (gap_blocks prev iv @ bs) \<longleftrightarrow> blocks_fit (fst iv) bs"
    unfolding gb append_assoc blocks_fit_empties [OF le] f_def [symmetric] append.simps blocks_fit.simps sub
    using fit by simp
  show "block_ranges prev (take m (gap_blocks prev iv)) = []" if m: "m < length (gap_blocks prev iv)"
  proof -
    have "take m (gap_blocks prev iv) = replicate m (255, 0)" using m by (simp add: gb)
    then show ?thesis using block_ranges_empties [of prev m "[]"] by simp
  qed
qed

lemma blocks_fit_take: "blocks_fit f bs \<Longrightarrow> blocks_fit f (take n bs)"
proof (induction bs arbitrary: f n)
  case (Cons b bs)
  then show ?case by (cases b; cases n) auto
qed simp

lemma descending_below: "descending prev ivs \<Longrightarrow> iv \<in> set ivs \<Longrightarrow> snd iv < prev \<and> fst iv < snd iv"
proof (induction ivs arbitrary: prev)
  case (Cons jv ivs)
  then show ?case by (auto dest: order.strict_trans)
qed simp

lemma ack_block_list_fit:
  "descending prev ivs \<Longrightarrow> unat prev < 2 ^ 63 \<Longrightarrow> blocks_fit prev (ack_block_list prev ivs)"
proof (induction ivs arbitrary: prev)
  case (Cons iv ivs)
  have "unat (fst iv) < 2 ^ 63" using Cons.prems by (auto simp: word_less_nat_alt)
  then show ?case using Cons gap_blocks_decode(2) [of iv prev] by simp
qed simp

fun flagged :: "interval list \<Rightarrow> (u64 \<times> u64 \<times> bool) list" where
  "flagged [] = []"
| "flagged (iv # rest) = (fst iv, snd iv, rest = []) # flagged rest"

lemma ack_block_list_Nil [simp]: "ack_block_list prev ivs = [] \<longleftrightarrow> ivs = []"
  by (cases ivs) (simp_all add: gap_blocks_def Let_def)

lemma ack_block_list_ranges:
  "descending prev ivs \<Longrightarrow> unat prev < 2 ^ 63 \<Longrightarrow> block_ranges prev (ack_block_list prev ivs) = flagged ivs"
proof (induction ivs arbitrary: prev)
  case (Cons iv ivs)
  have "unat (fst iv) < 2 ^ 63" using Cons.prems by (auto simp: word_less_nat_alt)
  then show ?case using Cons gap_blocks_decode(1) [of iv prev] by simp
qed simp

definition range_of :: "u64 \<times> u64 \<times> bool \<Rightarrow> interval" where
  "range_of = (\<lambda>(a, b, _). (a, b))"

lemma ack_block_list_prefix:
  "descending prev ivs \<Longrightarrow> unat prev < 2 ^ 63 \<Longrightarrow>
   \<exists>j \<le> length ivs. map range_of (block_ranges prev (take n (ack_block_list prev ivs))) = take j ivs"
proof (induction ivs arbitrary: prev n)
  case (Cons iv ivs)
  have iv: "fst iv < snd iv" "snd iv < prev" "unat prev < 2 ^ 63" and rest: "descending (fst iv) ivs"
    and f: "unat (fst iv) < 2 ^ 63"
    using Cons.prems by (auto simp: word_less_nat_alt)
  note dec = gap_blocks_decode [OF iv]
  show ?case
  proof (cases "n < length (gap_blocks prev iv)")
    case True
    then show ?thesis using dec(3) [of n] by (intro exI [of _ 0]) simp
  next
    case False
    obtain j where "j \<le> length ivs"
      "map range_of (block_ranges (fst iv) (take (n - length (gap_blocks prev iv)) (ack_block_list (fst iv) ivs))) = take j ivs"
      using Cons.IH [OF rest f] by blast
    then show ?thesis using False by (intro exI [of _ "Suc j"]) (simp add: dec(1) range_of_def)
  qed
qed simp

section \<open>The summary covers the blocks\<close>

lemma gap_blocks_length: "encoded_gaps (prev - snd iv) \<ge> 1 \<Longrightarrow> length (gap_blocks prev iv) = encoded_gaps (prev - snd iv)"
  by (simp add: gap_blocks_def Let_def)

lemma encoded_gaps_pos:
  assumes "snd iv < prev" "unat prev < 2 ^ 63"
  shows "1 \<le> encoded_gaps (prev - snd iv)"
proof (rule gap_split(1))
  show "0 < unat (prev - snd iv)" "unat (prev - snd iv) < 2 ^ 63"
    using assms by (simp_all add: word_less_nat_alt unat_sub_if')
qed

lemma ack_info_loop_count:
  "descending prev ivs \<Longrightarrow> unat prev < 2 ^ 63 \<Longrightarrow>
   min 255 (num_ack_blocks (ack_info_loop ivs prev info)) =
   min 255 (num_ack_blocks info + length (ack_block_list prev ivs))"
proof (induction ivs arbitrary: prev info)
  case (Cons iv ivs)
  have "unat (fst iv) < 2 ^ 63" "descending (fst iv) ivs" "snd iv < prev"
    using Cons.prems by (auto simp: word_less_nat_alt)
  then show ?case using Cons.IH gap_blocks_length encoded_gaps_pos [of iv prev] Cons.prems
    by (simp add: Let_def add.assoc)
qed simp

lemma ack_info_loop_mono: "max_block_length info \<le> max_block_length (ack_info_loop ivs prev info)"
proof (induction ivs arbitrary: prev info)
  case (Cons iv ivs)
  let ?info = "info\<lparr>num_ack_blocks := num_ack_blocks info + encoded_gaps (prev - snd iv),
                max_block_length := max (max_block_length info) (interval_length iv)\<rparr>"
  have "max_block_length info \<le> max_block_length ?info" by simp
  also note Cons.IH [of ?info "fst iv"]
  finally show ?case by (simp add: Let_def)
qed simp

lemma ack_info_loop_max:
  "descending prev ivs \<Longrightarrow> unat prev < 2 ^ 63 \<Longrightarrow>
   \<forall>b\<in>set (take (255 - num_ack_blocks info) (ack_block_list prev ivs)). snd b \<le> max_block_length (ack_info_loop ivs prev info)"
proof (induction ivs arbitrary: prev info)
  case (Cons iv ivs)
  let ?k = "encoded_gaps (prev - snd iv)"
  let ?info = "info\<lparr>num_ack_blocks := num_ack_blocks info + ?k,
                max_block_length := max (max_block_length info) (interval_length iv)\<rparr>"
  have fi: "unat (fst iv) < 2 ^ 63" and rest: "descending (fst iv) ivs" and iv: "snd iv < prev"
    using Cons.prems by (auto simp: word_less_nat_alt)
  note len = gap_blocks_length [OF encoded_gaps_pos [OF iv Cons.prems(2)]]
  have IH: "\<forall>b\<in>set (take (255 - num_ack_blocks ?info) (ack_block_list (fst iv) ivs)).
      snd b \<le> max_block_length (ack_info_loop ivs (fst iv) ?info)"
    using Cons.IH [OF rest fi] .
  have "interval_length iv \<le> max_block_length ?info" by simp
  also note ack_info_loop_mono [of ?info ivs "fst iv"]
  finally have m: "interval_length iv \<le> max_block_length (ack_info_loop ivs (fst iv) ?info)" .
  have gb: "snd b \<le> max_block_length (ack_info_loop ivs (fst iv) ?info)" if "b \<in> set (gap_blocks prev iv)" for b
    using that m by (auto simp: gap_blocks_def Let_def)
  show ?case
  proof (cases "num_ack_blocks info < 255")
    case True
    then show ?thesis using IH gb len
      by (auto simp: Let_def take_append diff_diff_left add.commute dest: in_set_takeD)
  qed simp
qed simp

section \<open>A contract for parsers with a visitor\<close>

definition ack_parses ::
  "endianness \<Rightarrow> ('v, 'a) ack_parse \<Rightarrow> u8 list \<Rightarrow> 'v ack_state \<Rightarrow> 'a \<Rightarrow> 'v ack_state \<Rightarrow> bool" where
  "ack_parses e f bs s x s' \<longleftrightarrow>
     (\<forall>r rest. r_endianness r = e \<longrightarrow> r_rest r = bs @ rest \<longrightarrow> f (s, r) = (Inr x, s', r_skip (length bs) r))"

lemma ack_parses_bind:
  assumes "ack_parses e f bs s x s'" "ack_parses e (g x) bs' s' y s''"
  shows "ack_parses e (ack_bind f g) (bs @ bs') s y s''"
  unfolding ack_parses_def
proof (intro allI impI)
  fix r rest assume r: "r_endianness r = e" "r_rest r = (bs @ bs') @ rest"
  have 1: "f (s, r) = (Inr x, s', r_skip (length bs) r)" using assms(1) r by (simp add: ack_parses_def)
  have "r_rest (r_skip (length bs) r) = bs' @ rest" using r_rest_skip [of r bs "bs' @ rest"] r(2) by simp
  then have "g x (s', r_skip (length bs) r) = (Inr y, s'', r_skip (length bs') (r_skip (length bs) r))"
    using assms(2) r(1) by (simp add: ack_parses_def)
  then show "ack_bind f g (s, r) = (Inr y, s'', r_skip (length (bs @ bs')) r)"
    using 1 by (simp add: ack_bind_def add.commute)
qed

lemma ack_parses_read: "reads e f bs x \<Longrightarrow> ack_parses e (ack_read m f) bs s x s"
  unfolding ack_parses_def using ack_bind_read [of e f bs x _ _ m ack_return s]
  by (auto simp: ack_read_def try_read_def dest: readsD)

lemma ack_parses_return: "ack_parses e (ack_return x) [] s x s"
  by (simp add: ack_parses_def ack_return_def)

lemma ack_parses_visit:
  "fst (cb (as_visitor s)) \<Longrightarrow> ack_parses e (ack_visit cb) [] s () (s\<lparr>as_visitor := snd (cb (as_visitor s))\<rparr>)"
  by (cases "cb (as_visitor s)") (simp add: ack_parses_def ack_visit_def)

lemma ack_parses_blocks:
  assumes "accepting vis" "bl \<le> 8" "\<forall>b\<in>set bs. unat (snd b) < 256 ^ bl" "blocks_fit f bs" "n = length bs"
  shows "ack_parses e (process_ack_blocks vis True bl n f) (blocks_bytes e bl bs) s ()
    (s\<lparr>as_visitor := report_all vis (block_ranges f bs) (as_visitor s)\<rparr>)"
  unfolding ack_parses_def assms(5) using process_ack_blocks_reports [OF assms(1-4)] by blast

section \<open>Well-formed frames\<close>

definition ack_wellformed :: "transport_version \<Rightarrow> quic_ack_frame \<Rightarrow> bool" where
  "ack_wellformed version frame \<longleftrightarrow>
     pnq_inv (af_packets frame) \<and> af_packets frame \<noteq> [] \<and>
     af_largest_acked frame = pnq_Max (af_packets frame) \<and>
     unat (af_largest_acked frame) + 1 < (if version \<noteq> QUIC_VERSION_41 then 2 ^ 48 else 2 ^ 63)"

definition ack_ranges :: "quic_ack_frame \<Rightarrow> nat \<Rightarrow> (u64 \<times> u64 \<times> bool) list" where
  "ack_ranges frame n =
     (case rev (af_packets frame) of [] \<Rightarrow> []
      | iv # rest \<Rightarrow> (fst iv, snd iv, rest = []) # block_ranges (fst iv) (take n (ack_block_list (fst iv) rest)))"

lemma descending_rev:
  "pnq_inv q \<Longrightarrow> (\<forall>iv\<in>set q. snd iv < prev) \<Longrightarrow> descending prev (rev q)"
proof (induction q arbitrary: prev rule: rev_induct)
  case (snoc iv q)
  then show ?case by (simp add: pnq_inv_append pnq_inv_Cons)
qed simp

lemma ack_info_loop_bound:
  "(\<forall>iv\<in>set ivs. interval_length iv \<le> b) \<Longrightarrow> max_block_length info \<le> b \<Longrightarrow>
   max_block_length (ack_info_loop ivs prev info) \<le> b"
  by (induction ivs arbitrary: prev info) (auto simp: Let_def)

lemma ack_info_loop_first [simp]: "first_block_length (ack_info_loop ivs prev info) = first_block_length info"
  by (induction ivs arbitrary: prev info) (auto simp: Let_def)

lemma packet_number_length_fits:
  "unat n < (if version \<noteq> QUIC_VERSION_41 then 2 ^ 48 else 2 ^ 64) \<Longrightarrow> unat n < 256 ^ GetMinPacketNumberLength version n"
  by (simp add: GetMinPacketNumberLength_cases split: if_splits)

lemma ack_type_byte_decode:
  fixes x y :: u64
  defines "t \<equiv> \<lambda>version b. ack_type_byte version b (GetMinPacketNumberLength version x) (GetMinPacketNumberLength version y)"
  shows "ExtractBit (t version b) (if version \<noteq> QUIC_VERSION_41 then 5 else 4) = b"
    and "ReadAckPacketNumberLength version (ExtractBits (t version b) 2 0) = GetMinPacketNumberLength version y"
    and "ReadAckPacketNumberLength version (ExtractBits (t version b) 2 2) = GetMinPacketNumberLength version x"
proof -
  have "(ExtractBit (t version b) (if version \<noteq> QUIC_VERSION_41 then 5 else 4) = b) \<and>
    ReadAckPacketNumberLength version (ExtractBits (t version b) 2 0) = GetMinPacketNumberLength version y \<and>
    ReadAckPacketNumberLength version (ExtractBits (t version b) 2 2) = GetMinPacketNumberLength version x"
    unfolding t_def GetMinPacketNumberLength_cases
    by (cases b; cases "version = QUIC_VERSION_41")
      (simp_all add: ack_type_byte_def SetBit_def SetBits_def GetMaskFromNumBits_def GetPacketNumberFlags_def
        packet_length_defs packet_flag_defs ReadAckPacketNumberLength_def ExtractBit_def ExtractBits_def Let_def)
  then show "ExtractBit (t version b) (if version \<noteq> QUIC_VERSION_41 then 5 else 4) = b"
    "ReadAckPacketNumberLength version (ExtractBits (t version b) 2 0) = GetMinPacketNumberLength version y"
    "ReadAckPacketNumberLength version (ExtractBits (t version b) 2 2) = GetMinPacketNumberLength version x"
    by blast+
qed

lemma ack_wellformed_split:
  assumes wf: "ack_wellformed version frame"
  obtains iv rest where "rev (af_packets frame) = iv # rest" "fst iv < snd iv" "snd iv = LargestAcked frame + 1"
    "descending (fst iv) rest" "unat (snd iv) < (if version \<noteq> QUIC_VERSION_41 then 2 ^ 48 else 2 ^ 63)"
    "\<forall>jv\<in>set rest. interval_length jv \<le> snd iv" "interval_length iv \<le> snd iv"
    "pnq_LastIntervalLength (af_packets frame) = interval_length iv"
proof -
  obtain iv rest where q: "rev (af_packets frame) = iv # rest"
    using wf by (cases "rev (af_packets frame)") (auto simp: ack_wellformed_def)
  then have q': "af_packets frame = rev rest @ [iv]" by (metis rev.simps(2) rev_rev_ident)
  have inv: "fst iv < snd iv" "pnq_inv (rev rest)" "\<forall>a\<in>set rest. snd a < fst iv" "\<forall>a\<in>set rest. fst a < snd a"
    using wf by (auto simp: ack_wellformed_def q' pnq_inv_append pnq_inv_Cons) (auto simp: pnq_inv_def)
  have l: "snd iv = LargestAcked frame + 1"
    using wf by (simp add: ack_wellformed_def LargestAcked_def q' pnq_Max_def)
  have "unat (LargestAcked frame) + 1 < (if version \<noteq> QUIC_VERSION_41 then 2 ^ 48 else 2 ^ 63)"
    using wf unfolding ack_wellformed_def LargestAcked_def by blast
  moreover from this have "unat (snd iv) = unat (LargestAcked frame) + 1"
    unfolding l by (simp add: unat_word_ariths split: if_splits)
  ultimately have b: "unat (snd iv) < (if version \<noteq> QUIC_VERSION_41 then 2 ^ 48 else 2 ^ 63)" by simp
  have len: "interval_length a \<le> snd iv" if "fst a < snd a" "snd a \<le> snd iv" for a
    using that by (simp add: interval_length_def word_less_nat_alt word_le_nat_alt unat_sub_if')
  have "interval_length jv \<le> snd iv" if "jv \<in> set rest" for jv
  proof (rule len)
    show "fst jv < snd jv" using inv(4) that by blast
    have "snd jv < fst iv" using inv(3) that by blast
    then show "snd jv \<le> snd iv" using inv(1) by simp
  qed
  then show thesis
    using that [OF q inv(1) l _ b] descending_rev [OF inv(2)] inv(3) len [OF inv(1)]
    by (simp add: pnq_LastIntervalLength_def q')
qed

definition ack_body :: "endianness \<Rightarrow> transport_version \<Rightarrow> quic_ack_frame \<Rightarrow> nat \<Rightarrow> u8 list" where
  "ack_body e version frame n = tl (ack_frame_bytes e version frame n)"

definition sent_ack_delay :: "quic_ack_frame \<Rightarrow> u64" where
  "sent_ack_delay frame =
     (if \<not> delta_IsInfinite (af_ack_delay_time frame) then to_u64 (af_ack_delay_time frame) else kUFloat16MaxValue)"

text \<open>The delay the peer sees: the value sent, at UFloat16 precision.\<close>

definition received_ack_delay :: "quic_ack_frame \<Rightarrow> quic_delta" where
  "received_ack_delay frame = decoded_ack_delay (ufloat16_decode (ufloat16_encode (sent_ack_delay frame)))"

definition ack_reported :: "('v, 'z) ack_visitor_scheme \<Rightarrow> quic_ack_frame \<Rightarrow> nat \<Rightarrow> 'v \<Rightarrow> 'v" where
  "ack_reported vis frame n v =
     report_all vis (ack_ranges frame n) (snd (OnAckFrameStart vis (LargestAcked frame) (received_ack_delay frame) v))"

lemma ack_info_wellformed:
  assumes "rev (af_packets frame) = iv # rest" "descending (fst iv) rest" "fst iv < snd iv" "unat (snd iv) < 2 ^ 63"
    "\<forall>jv\<in>set rest. interval_length jv \<le> snd iv" "interval_length iv \<le> snd iv"
    "pnq_LastIntervalLength (af_packets frame) = interval_length iv"
  defines "info \<equiv> GetAckFrameInfo frame"
  shows "first_block_length info = interval_length iv" "interval_length iv \<le> max_block_length info"
    "max_block_length info \<le> snd iv"
    "min 255 (num_ack_blocks info) = min 255 (length (ack_block_list (fst iv) rest))"
    "n \<le> 255 \<Longrightarrow> \<forall>b\<in>set (take n (ack_block_list (fst iv) rest)). snd b \<le> max_block_length info"
proof -
  let ?i0 = "\<lparr>max_block_length = interval_length iv, first_block_length = interval_length iv, num_ack_blocks = 0\<rparr>"
  have info: "info = ack_info_loop rest (fst iv) ?i0" by (simp add: info_def GetAckFrameInfo_def assms(1,7))
  have f: "unat (fst iv) < 2 ^ 63" using assms(3,4) by (simp add: word_less_nat_alt)
  show "first_block_length info = interval_length iv" by (simp add: info)
  show "interval_length iv \<le> max_block_length info" using ack_info_loop_mono [of ?i0] by (simp add: info)
  show "max_block_length info \<le> snd iv" unfolding info by (rule ack_info_loop_bound) (simp_all add: assms(5,6))
  show "min 255 (num_ack_blocks info) = min 255 (length (ack_block_list (fst iv) rest))"
    using ack_info_loop_count [OF assms(2) f, of ?i0] by (simp add: info)
  show "\<forall>b\<in>set (take n (ack_block_list (fst iv) rest)). snd b \<le> max_block_length info" if "n \<le> 255"
  proof
    fix b assume "b \<in> set (take n (ack_block_list (fst iv) rest))"
    then have "b \<in> set (take 255 (ack_block_list (fst iv) rest))"
      by (rule subsetD [OF set_take_subset_set_take [OF that]])
    then show "snd b \<le> max_block_length info" using ack_info_loop_max [OF assms(2) f, of ?i0] by (simp add: info)
  qed
qed

text \<open>
  The decoder on the reference encoding. The count is written when blocks are, and the type byte
  says so: the hypothesis on \<open>n\<close> excludes a frame whose blocks are all cut off.
\<close>

lemma ProcessAck_decodes:
  fixes s :: "'v ack_state"
  assumes wf: "ack_wellformed version frame" and vis: "accepting vis" and n: "n \<le> num_ack_blocks (GetAckFrameInfo frame)" "n \<le> 255"
    and count: "n > 0 \<or> num_ack_blocks (GetAckFrameInfo frame) = 0"
  shows "ack_parses e (ProcessAckFrame version True creation_time vis (hd (ack_frame_bytes e version frame n)))
    (ack_body e version frame n) s () (s\<lparr>as_visitor := ack_reported vis frame n (as_visitor s)\<rparr>)"
proof -
  obtain iv rest where q: "rev (af_packets frame) = iv # rest" "fst iv < snd iv" "snd iv = LargestAcked frame + 1"
    "descending (fst iv) rest" and top: "unat (snd iv) < (if version \<noteq> QUIC_VERSION_41 then 2 ^ 48 else 2 ^ 63)"
    and lens: "\<forall>jv\<in>set rest. interval_length jv \<le> snd iv" "interval_length iv \<le> snd iv"
    "pnq_LastIntervalLength (af_packets frame) = interval_length iv"
    using ack_wellformed_split [OF wf] by blast
  have top63: "unat (snd iv) < 2 ^ 63" using top by (simp split: if_splits)
  define info where "info = GetAckFrameInfo frame"
  note inf = ack_info_wellformed [OF q(1,4,2) top63 lens, folded info_def]
  define L where "L = LargestAcked frame"
  define ll where "ll = GetMinPacketNumberLength version L"
  define bl where "bl = GetMinPacketNumberLength version (max_block_length info)"
  define bs where "bs = take n (ack_block_list (fst iv) rest)"
  define has where "has = (num_ack_blocks info \<noteq> 0)"
  define ty where "ty = ack_type_byte version has ll bl"
  have len8: "ll \<le> 8" "bl \<le> 8" unfolding ll_def bl_def by (simp_all add: GetMinPacketNumberLength_cases)
  have f63: "unat (fst iv) < 2 ^ 63" using q(2) top63 by (simp add: word_less_nat_alt)
  have uL: "unat L + 1 = unat (snd iv)"
    using q(2,3) unat_Suc [of "unat L" L] unat_u64_less [of L] by (cases "unat L = 2 ^ 64 - 1") (auto simp: L_def word_less_nat_alt unat_word_ariths)
  have lim: "unat v < 256 ^ GetMinPacketNumberLength version v" if "unat v \<le> unat (snd iv)" for v
    using that top by (intro packet_number_length_fits) (simp split: if_splits)
  have Lfit: "unat L < 256 ^ ll" using lim [of L] uL by (simp add: ll_def L_def)
  have mb: "unat (max_block_length info) < 256 ^ bl"
    using lim [of "max_block_length info"] inf(3) by (simp add: bl_def word_le_nat_alt)
  have ffit: "unat (interval_length iv) < 256 ^ bl" using inf(2) mb by (simp add: word_le_nat_alt)
  have bfit: "\<forall>b\<in>set bs. unat (snd b) < 256 ^ bl"
    using inf(5) [OF n(2)] mb by (fastforce simp: bs_def word_le_nat_alt)
  have fit: "blocks_fit (fst iv) bs" unfolding bs_def by (intro blocks_fit_take ack_block_list_fit q(4) f63)
  have nl: "n = length bs" using inf(4) n by (simp add: bs_def info_def min_def split: if_splits)
  have has: "has \<longleftrightarrow> n > 0" using count n by (auto simp: has_def info_def)
  have restn: "rest = [] \<longleftrightarrow> \<not> has" using inf(4) by (auto simp: has_def min_def split: if_splits)
  have cn: "unat (word_of_nat n :: u8) = n" using n(2) by (simp add: unat_of_nat)
  let ?d = "ufloat16_encode (sent_ack_delay frame)"
  let ?cnt = "if has then [word_of_nat n :: u8] else []"
  have bytes: "ack_frame_bytes e version frame n = ty #
       ((if version = QUIC_VERSION_41 then ?cnt else []) @
        (if version = QUIC_VERSION_41 then [0] else []) @
        uint_bytes e ll (unat L) @ uint_bytes e 2 (unat ?d) @ [] @
        (if version \<noteq> QUIC_VERSION_41 then ?cnt else []) @
        uint_bytes e bl (unat (interval_length iv)) @ [] @ blocks_bytes e bl bs @
        (if version \<noteq> QUIC_VERSION_41 then [0] else []) @ [])"
    unfolding ack_frame_bytes_def Let_def info_def [symmetric] L_def [symmetric] ll_def [symmetric] bl_def [symmetric] q(1) inf(1)
      sent_ack_delay_def [symmetric] has_def [symmetric] ty_def [symmetric]
    using has by (simp add: bs_def)
  note ty = ack_type_byte_decode [where version = version and b = has and x = L and y = "max_block_length info",
      folded bl_def ll_def, folded ty_def]
  let ?s1 = "s\<lparr>as_visitor := snd (OnAckFrameStart vis L (received_ack_delay frame) (as_visitor s))\<rparr>"
  let ?s2 = "?s1\<lparr>as_visitor := snd (OnAckRange vis (fst iv) (snd iv) (\<not> has) (as_visitor ?s1))\<rparr>"
  let ?s3 = "?s2\<lparr>as_visitor := report_all vis (block_ranges (fst iv) bs) (as_visitor ?s2)\<rparr>"
  let ?c41 = "if version = QUIC_VERSION_41 \<and> has then word_of_nat n else 0 :: u8"
  have c1: "ack_parses e (if version = QUIC_VERSION_41 \<and> has then ack_read m ReadUInt8 else ack_return 0)
      (if version = QUIC_VERSION_41 then ?cnt else []) s ?c41 s" for m
    by (auto intro: ack_parses_read ack_parses_return)
  have c2: "ack_parses e (if version = QUIC_VERSION_41 then ack_read m ReadUInt8 else ack_return 0)
      (if version = QUIC_VERSION_41 then [0] else []) s (0 :: u8) s" for m
    by (auto intro: ack_parses_read ack_parses_return)
  have c3: "ack_parses e (ack_read m (ReadBytesToUInt64 ll)) (uint_bytes e ll (unat L)) s L s" for m
    by (intro ack_parses_read reads_ReadBytesToUInt64_small len8 Lfit)
  have c4: "ack_parses e (ack_read m ReadUFloat16) (uint_bytes e 2 (unat ?d)) s (ufloat16_decode ?d) s" for m
    by (intro ack_parses_read reads_ReadUFloat16)
  have c5: "ack_parses e (if True then ack_visit (OnAckFrameStart vis L (decoded_ack_delay (ufloat16_decode ?d))) else h)
      [] s () ?s1" for h
    using ack_parses_visit [of "OnAckFrameStart vis L (decoded_ack_delay (ufloat16_decode ?d))" s e] vis
    by (simp add: accepting_def received_ack_delay_def)
  have c6: "ack_parses e (if has \<and> version \<noteq> QUIC_VERSION_41 then ack_read m ReadUInt8 else ack_return ?c41)
      (if version \<noteq> QUIC_VERSION_41 then ?cnt else []) s' (if has then word_of_nat n else 0 :: u8) s'" for m s'
    by (auto intro: ack_parses_read ack_parses_return)
  have c7: "ack_parses e (ack_read m (ReadBytesToUInt64 bl)) (uint_bytes e bl (unat (interval_length iv))) s' (interval_length iv) s'" for m s'
    by (intro ack_parses_read reads_ReadBytesToUInt64_small len8 ffit)
  have c8: "ack_parses e (if True then ack_visit (OnAckRange vis (fst iv) (snd iv) (\<not> has)) else h) [] ?s1 () ?s2" for h
    using ack_parses_visit [of "OnAckRange vis (fst iv) (snd iv) (\<not> has)" ?s1 e] vis
    by (simp add: accepting_def)
  have c9: "ack_parses e (process_ack_blocks vis True bl (unat (if has then word_of_nat n else 0 :: u8)) (fst iv)) (blocks_bytes e bl bs) ?s2 () ?s3"
    by (rule ack_parses_blocks [OF vis len8(2) bfit fit]) (use has cn nl in auto)
  have c10: "ack_parses e (if version \<noteq> QUIC_VERSION_41 then ack_read m ReadUInt8 else ack_return 0)
      (if version \<noteq> QUIC_VERSION_41 then [0] else []) s' (0 :: u8) s'" for m s'
    by (auto intro: ack_parses_read ack_parses_return)
  have c11: "ack_parses e (ProcessTimestampsInAckFrame creation_time (unat (0 :: u8))) [] s' () s'" for s'
    by (simp add: ProcessTimestampsInAckFrame_def ack_parses_return)
  have "\<not> (interval_length iv = 0 \<and> (L \<noteq> 0 \<or> (if has then word_of_nat n else 0 :: u8) \<noteq> 0))"
    using q(2) by (simp add: interval_length_def word_less_nat_alt) (metis word_unat_eq_iff less_irrefl)
  note nz = this
  have no_under: "\<not> interval_length iv > snd iv" using lens(2) by simp
  have fr: "snd iv - interval_length iv = fst iv" using q(2) by (simp add: interval_length_def)
  have top1: "L + 1 = snd iv" by (simp add: q(3) L_def)
  have body: "ack_parses e (ProcessAckFrame version True creation_time vis ty)
      ((if version = QUIC_VERSION_41 then ?cnt else []) @
        (if version = QUIC_VERSION_41 then [0] else []) @
        uint_bytes e ll (unat L) @ uint_bytes e 2 (unat ?d) @ [] @
        (if version \<noteq> QUIC_VERSION_41 then ?cnt else []) @
        uint_bytes e bl (unat (interval_length iv)) @ [] @ blocks_bytes e bl bs @
        (if version \<noteq> QUIC_VERSION_41 then [0] else []) @ []) s () ?s3"
    unfolding ProcessAckFrame_def Let_def ty
  proof (intro ack_parses_bind [OF c1] ack_parses_bind [OF c2] ack_parses_bind [OF c3] ack_parses_bind [OF c4]
      ack_parses_bind [OF c5] ack_parses_bind [OF c6] ack_parses_bind [OF c7], goal_cases)
    case 1
    show ?case
      unfolding if_not_P [OF nz] Let_def top1 if_not_P [OF no_under] fr
      by (rule ack_parses_bind [OF c8], rule ack_parses_bind [OF c9], rule ack_parses_bind [OF c10], rule c11)
  qed
  have "ack_reported vis frame n (as_visitor s) = as_visitor ?s3"
    by (simp add: ack_reported_def ack_ranges_def q(1) bs_def [symmetric] L_def restn)
  then show ?thesis using body by (simp add: bytes ack_body_def del: append_assoc)
qed

section \<open>Append, then process\<close>

definition ack_untruncated :: "transport_version \<Rightarrow> quic_ack_frame \<Rightarrow> quic_data_writer \<Rightarrow> bool" where
  "ack_untruncated version frame w \<longleftrightarrow>
     (case rev (af_packets frame) of [] \<Rightarrow> True
      | iv # rest \<Rightarrow> length (ack_block_list (fst iv) rest) \<le> ack_blocks_for version frame w)"

definition ack_fits :: "transport_version \<Rightarrow> quic_ack_frame \<Rightarrow> quic_data_writer \<Rightarrow> bool" where
  "ack_fits version frame w \<longleftrightarrow> w_ok w \<and> w_room w < 2 ^ 31 \<and> ack_header_size version frame \<le> w_room w"

lemma ack_append_process:
  assumes wf: "ack_wellformed version frame" and vis: "accepting vis" and fits: "ack_fits version frame w"
    and count: "ack_blocks_for version frame w > 0 \<or> num_ack_blocks (GetAckFrameInfo frame) = 0"
  defines "n \<equiv> ack_blocks_for version frame w"
  shows "\<exists>bs w' r'. AppendAckFrameAndTypeByte version True at_offset t frame w = (Appended, w') \<and>
      w_out w' = w_out w @ bs \<and>
      ProcessAckFrame version True t' vis (hd bs) (s, QuicDataReader (tl bs) (w_endianness w)) =
        (Inr (), s\<lparr>as_visitor := ack_reported vis frame n (as_visitor s)\<rparr>, r') \<and> IsDoneReading r'"
proof -
  let ?e = "w_endianness w"
  let ?bs = "ack_frame_bytes ?e version frame n"
  let ?r = "QuicDataReader (tl ?bs) ?e"
  have f: "ack_header_size version frame \<le> w_room w" "w_room w < 2 ^ 31" "w_ok w"
    using fits by (simp_all add: ack_fits_def)
  note app = AppendAck_fits [OF f refl, folded n_def]
  have b: "n \<le> num_ack_blocks (GetAckFrameInfo frame)" "n \<le> 255" using ack_blocks_for_bound [OF f] by (simp_all add: n_def)
  have "ack_parses ?e (ProcessAckFrame version True t' vis (hd ?bs)) (ack_body ?e version frame n) s ()
      (s\<lparr>as_visitor := ack_reported vis frame n (as_visitor s)\<rparr>)"
    using ProcessAck_decodes [OF wf vis b] count by (simp add: n_def)
  then have "ProcessAckFrame version True t' vis (hd ?bs) (s, ?r) =
      (Inr (), s\<lparr>as_visitor := ack_reported vis frame n (as_visitor s)\<rparr>, r_skip (length (tl ?bs)) ?r)"
    by (auto simp: ack_parses_def ack_body_def QuicDataReader_def r_rest_def)
  moreover have "IsDoneReading (r_skip (length (tl ?bs)) ?r)"
    by (simp add: IsDoneReading_def r_skip_def QuicDataReader_def)
  moreover have "w_out (w_put ?bs w) = w_out w @ ?bs" using w_out_put [OF f(3) app(2)] .
  ultimately show ?thesis using app(1) by blast
qed

lemma ack_ranges_untruncated:
  assumes "ack_wellformed version frame" "ack_untruncated version frame w"
  shows "ack_ranges frame (ack_blocks_for version frame w) = flagged (rev (af_packets frame))"
    and "ack_blocks_for version frame w > 0 \<or> num_ack_blocks (GetAckFrameInfo frame) = 0"
proof -
  obtain iv rest where q: "rev (af_packets frame) = iv # rest" "fst iv < snd iv" "snd iv = LargestAcked frame + 1"
    "descending (fst iv) rest" and top: "unat (snd iv) < (if version \<noteq> QUIC_VERSION_41 then 2 ^ 48 else 2 ^ 63)"
    and lens: "\<forall>jv\<in>set rest. interval_length jv \<le> snd iv" "interval_length iv \<le> snd iv"
      "pnq_LastIntervalLength (af_packets frame) = interval_length iv"
    using ack_wellformed_split [OF assms(1)] by blast
  have top63: "unat (snd iv) < 2 ^ 63" using top by (simp split: if_splits)
  then have f: "unat (fst iv) < 2 ^ 63" using q(2) by (simp add: word_less_nat_alt)
  have all: "length (ack_block_list (fst iv) rest) \<le> ack_blocks_for version frame w"
    using assms(2) by (simp add: ack_untruncated_def q(1))
  then have "take (ack_blocks_for version frame w) (ack_block_list (fst iv) rest) = ack_block_list (fst iv) rest" by simp
  then show "ack_ranges frame (ack_blocks_for version frame w) = flagged (rev (af_packets frame))"
    unfolding ack_ranges_def q(1) using ack_block_list_ranges [OF q(4) f] by simp
  show "ack_blocks_for version frame w > 0 \<or> num_ack_blocks (GetAckFrameInfo frame) = 0"
  proof (cases "ack_blocks_for version frame w")
    case 0
    then have "length (ack_block_list (fst iv) rest) = 0" using all by simp
    then have "min 255 (num_ack_blocks (GetAckFrameInfo frame)) = 0"
      using ack_info_wellformed(4) [OF q(1,4,2) top63 lens] by presburger
    then show ?thesis by (simp add: min_def split: if_splits)
  qed simp
qed

lemma ack_ranges_prefix:
  assumes "ack_wellformed version frame"
  shows "\<exists>j. 0 < j \<and> map range_of (ack_ranges frame n) = take j (rev (af_packets frame))"
proof -
  obtain iv rest where q: "rev (af_packets frame) = iv # rest" "fst iv < snd iv" "descending (fst iv) rest"
    and top: "unat (snd iv) < (if version \<noteq> QUIC_VERSION_41 then 2 ^ 48 else 2 ^ 63)"
    using ack_wellformed_split [OF assms] by blast
  then have f: "unat (fst iv) < 2 ^ 63" by (simp add: word_less_nat_alt split: if_splits)
  obtain j where "map range_of (block_ranges (fst iv) (take n (ack_block_list (fst iv) rest))) = take j rest"
    using ack_block_list_prefix [OF q(3) f] by blast
  then show ?thesis by (intro exI [of _ "Suc j"]) (simp add: ack_ranges_def q(1) range_of_def)
qed

section \<open>Properties\<close>

text \<open>
  C1. Append then process: when the packet has room for all the blocks, the peer's ProcessAckFrame
  reads the whole frame and calls OnAckFrameStart with the largest acknowledged packet and the ack
  delay at UFloat16 precision, then OnAckRange for every interval of the queue, newest first, with
  only the last one flagged as the last range.
\<close>

theorem ack_frame_roundtrip:
  assumes "ack_wellformed version frame" "accepting vis" "ack_fits version frame w" "ack_untruncated version frame w"
  shows "\<exists>bs w' r'. AppendAckFrameAndTypeByte version True at_offset t frame w = (Appended, w') \<and>
      w_out w' = w_out w @ bs \<and>
      ProcessAckFrame version True t' vis (hd bs) (s, QuicDataReader (tl bs) (w_endianness w)) =
        (Inr (), s\<lparr>as_visitor := report_all vis (flagged (rev (af_packets frame)))
           (snd (OnAckFrameStart vis (LargestAcked frame) (received_ack_delay frame) (as_visitor s)))\<rparr>, r') \<and>
      IsDoneReading r'"
  using ack_append_process [OF assms(1-3) ack_ranges_untruncated(2) [OF assms(1,4)]]
  by (simp add: ack_reported_def ack_ranges_untruncated(1) [OF assms(1,4)])

definition log_visitor :: "(u64 \<times> u64 \<times> bool) list ack_visitor" where
  "log_visitor = \<lparr>OnAckFrameStart = (\<lambda>l d v. (True, v @ [(l, 0, False)])),
     OnAckRange = (\<lambda>a b l v. (True, v @ [(a, b, l)]))\<rparr>"

definition sample_ack :: quic_ack_frame where
  "sample_ack = \<lparr>af_largest_acked = 1000, af_ack_delay_time = 25000,
     af_received_packet_times = [], af_packets = [(1, 3), (5, 8), (600, 1001)]\<rparr>"

lemma accepting_log_visitor: "accepting log_visitor"
  by (simp add: accepting_def log_visitor_def)

lemma sample_ack_wellformed: "ack_wellformed 43 sample_ack"
  by (simp add: ack_wellformed_def sample_ack_def pnq_inv_def pnq_Max_def QUIC_VERSION_41_def)

abbreviation sample_writer :: "nat \<Rightarrow> quic_data_writer" where
  "sample_writer n \<equiv> QuicDataWriter n (replicate n 0) NETWORK_BYTE_ORDER"

lemmas ack_eval = GetAckFrameInfo_def sample_ack_def pnq_LastIntervalLength_def interval_length_def Let_def
  encoded_gaps_def QuicDataWriter_def w_ok_def w_room_def GetMinPacketNumberLength_cases GetMinAckFrameSize_def
  framer_size_defs LargestAcked_def gap_blocks_def to_u64_def packet_length_defs ack_fits_def ack_header_size_def
  ack_untruncated_def ack_blocks_for_def limited_ack_blocks_def available_ack_bytes_def

lemma sample_ack_fits: "ack_fits 43 sample_ack (sample_writer 100)"
  by (simp add: ack_eval)

lemma sample_ack_untruncated: "ack_untruncated 43 sample_ack (sample_writer 100)"
  by (simp add: ack_eval trunc_div_nonneg)

lemma sample_writer_out [simp]: "w_out (sample_writer n) = []" "w_endianness (sample_writer n) = NETWORK_BYTE_ORDER"
  by (simp_all add: QuicDataWriter_def w_out_def)

theorem ack_frame_roundtrip_witness:
  "\<exists>bs w' r'. AppendAckFrameAndTypeByte 43 True (\<lambda>_ _. write_nothing) 0 sample_ack (sample_writer 100) = (Appended, w') \<and>
      w_out w' = [] @ bs \<and>
      ProcessAckFrame 43 True 0 log_visitor (hd bs)
        (\<lparr>as_visitor = [], as_frame = QuicAckFrame, as_last_timestamp = 0\<rparr>, QuicDataReader (tl bs) NETWORK_BYTE_ORDER) =
        (Inr (), \<lparr>as_visitor = [(1000, 0, False), (600, 1001, False), (5, 8, False), (1, 3, True)],
           as_frame = QuicAckFrame, as_last_timestamp = 0\<rparr>, r') \<and> IsDoneReading r'"
proof -
  let ?s = "\<lparr>as_visitor = [], as_frame = QuicAckFrame, as_last_timestamp = 0\<rparr>"
  have v: "?s\<lparr>as_visitor := report_all log_visitor (flagged (rev (af_packets sample_ack)))
      (snd (OnAckFrameStart log_visitor (LargestAcked sample_ack) d (as_visitor ?s)))\<rparr> =
    \<lparr>as_visitor = [(1000, 0, False), (600, 1001, False), (5, 8, False), (1, 3, True)],
           as_frame = QuicAckFrame, as_last_timestamp = 0\<rparr>" for d
    by (simp add: log_visitor_def sample_ack_def LargestAcked_def)
  show ?thesis
    using ack_frame_roundtrip [OF sample_ack_wellformed accepting_log_visitor sample_ack_fits sample_ack_untruncated,
      where at_offset = "\<lambda>_ _. write_nothing" and t = 0 and t' = 0 and s = ?s]
    unfolding v sample_writer_out .
qed

text \<open>
  C2. Truncation is safe as long as the room left holds at least one further block, or the frame has
  none: what the peer is told is acknowledged is then a non-empty prefix, newest first, of the
  intervals that were received. No packet is acknowledged that the queue does not contain.
\<close>

theorem ack_truncation_safe:
  assumes "ack_wellformed version frame" "accepting vis" "ack_fits version frame w"
    "ack_blocks_for version frame w > 0 \<or> num_ack_blocks (GetAckFrameInfo frame) = 0"
  shows "\<exists>bs w' r' ranges j. AppendAckFrameAndTypeByte version True at_offset t frame w = (Appended, w') \<and>
      w_out w' = w_out w @ bs \<and>
      ProcessAckFrame version True t' vis (hd bs) (s, QuicDataReader (tl bs) (w_endianness w)) =
        (Inr (), s\<lparr>as_visitor := report_all vis ranges
           (snd (OnAckFrameStart vis (LargestAcked frame) (received_ack_delay frame) (as_visitor s)))\<rparr>, r') \<and>
      0 < j \<and> map range_of ranges = take j (rev (af_packets frame))"
  using ack_append_process [OF assms] ack_ranges_prefix [OF assms(1)] unfolding ack_reported_def by blast

lemma sample_ack_tight: "ack_fits 43 sample_ack (sample_writer 12)" "ack_blocks_for 43 sample_ack (sample_writer 12) = 1"
  by (simp_all add: ack_eval trunc_div_nonneg)

theorem ack_truncation_safe_witness:
  "\<exists>bs w' r' ranges j. AppendAckFrameAndTypeByte 43 True (\<lambda>_ _. write_nothing) 0 sample_ack (sample_writer 12) = (Appended, w') \<and>
      w_out w' = [] @ bs \<and>
      ProcessAckFrame 43 True 0 log_visitor (hd bs)
        (\<lparr>as_visitor = [], as_frame = QuicAckFrame, as_last_timestamp = 0\<rparr>, QuicDataReader (tl bs) NETWORK_BYTE_ORDER) =
        (Inr (), \<lparr>as_visitor = [], as_frame = QuicAckFrame, as_last_timestamp = 0\<rparr>\<lparr>as_visitor := report_all log_visitor ranges
           (snd (OnAckFrameStart log_visitor (LargestAcked sample_ack) (received_ack_delay sample_ack) []))\<rparr>, r') \<and>
      0 < j \<and> map range_of ranges = take j (rev (af_packets sample_ack))"
proof -
  have "ack_blocks_for 43 sample_ack (sample_writer 12) > 0 \<or> num_ack_blocks (GetAckFrameInfo sample_ack) = 0"
    using sample_ack_tight(2) by simp
  from ack_truncation_safe [OF sample_ack_wellformed accepting_log_visitor sample_ack_tight(1) this,
      where at_offset = "\<lambda>_ _. write_nothing" and t = 0 and t' = 0
        and s = "\<lparr>as_visitor = [], as_frame = QuicAckFrame, as_last_timestamp = 0\<rparr>"]
  show ?thesis unfolding sample_writer_out ack_state.select_convs .
qed

text \<open>
  The condition that a further block fits, or none is needed, cannot be dropped. With room for the
  fixed part only, the type byte still announces further blocks but no count is written, and the
  reader takes the first byte of the first block's length for it: packets 489 to 1000 are
  acknowledged, of which 601 to 998 were never received, before the frame is refused.
\<close>

definition uncounted_ack :: quic_ack_frame where
  "uncounted_ack = \<lparr>af_largest_acked = 1000, af_ack_delay_time = 100,
     af_received_packet_times = [], af_packets = [(1, 601), (999, 1001)]\<rparr>"

lemma uncounted_eval:
  "GetMinPacketNumberLength 43 1000 = 2" "LargestAcked uncounted_ack = 1000"
  "first_block_length (GetAckFrameInfo uncounted_ack) = 2" "GetMinPacketNumberLength 43 (max_block_length (GetAckFrameInfo uncounted_ack)) = 2"
  "num_ack_blocks (GetAckFrameInfo uncounted_ack) = 2" "ack_blocks_for 43 uncounted_ack (sample_writer 9) = 0"
  "ack_fits 43 uncounted_ack (sample_writer 9)" "ack_wellformed 43 uncounted_ack"
  by (simp_all add: uncounted_ack_def ack_eval trunc_div_nonneg QUIC_VERSION_41_def ack_wellformed_def pnq_inv_def pnq_Max_def)

lemma uncounted_bytes: "ack_frame_bytes NETWORK_BYTE_ORDER 43 uncounted_ack 0 = [0x65, 3, 0xe8, 0, 100, 0, 2, 0]"
proof -
  have "unat (ufloat16_encode 100) = 100" by (simp add: ufloat16_encode_small)
  moreover have "ack_type_byte 43 True 2 2 = 0x65"
    by (simp add: ack_type_byte_def SetBit_def SetBits_def GetPacketNumberFlags_def QUIC_VERSION_41_def packet_length_defs packet_flag_defs)
  ultimately show ?thesis
    unfolding ack_frame_bytes_def Let_def uncounted_eval
    by (simp add: uncounted_ack_def QUIC_VERSION_41_def delta_IsInfinite_def kQuicInfiniteTimeUs_def to_u64_def uint_bytes_def be_bytes_def le_bytes_def blocks_bytes_def)
qed

lemma uncounted_misread:
  "case ProcessAckFrame 43 True 0 log_visitor 0x65
       (\<lparr>as_visitor = [], as_frame = QuicAckFrame, as_last_timestamp = 0\<rparr>, QuicDataReader [3, 0xe8, 0, 100, 0, 2, 0] NETWORK_BYTE_ORDER)
     of (res, s, r) \<Rightarrow> res = Inl ''Unable to read num received packets.'' \<and> as_visitor s = [(1000, 0, False), (489, 1001, False)]"
proof -
  let ?e = NETWORK_BYTE_ORDER and ?r = "QuicDataReader [3, 0xe8, 0, 100, 0, 2, 0] NETWORK_BYTE_ORDER"
  have delay: "unat (ufloat16_encode 100) = 100" by (simp add: ufloat16_encode_small)
  have e: "r_endianness (r_skip n ?r) = ?e" "r_endianness ?r = ?e" for n by (simp_all add: QuicDataReader_def)
  have r: "r_rest ?r = uint_bytes ?e 2 (unat (1000 :: u64)) @ [0, 100, 0, 2, 0]"
    "r_rest (r_skip 2 ?r) = uint_bytes ?e 2 (unat (ufloat16_encode 100)) @ [0, 2, 0]"
    "r_rest (r_skip 4 ?r) = [0] @ [2, 0]"
    "r_rest (r_skip 5 ?r) = uint_bytes ?e 2 (unat (512 :: u64)) @ []"
    unfolding delay by (simp_all add: QuicDataReader_def r_rest_def r_skip_def uint_bytes_def be_bytes_def le_bytes_def)
  have "fst (ReadUInt8 (r_skip 7 ?r)) = None"
    by (simp add: QuicDataReader_def r_skip_def ReadUInt8_def ReadBytes_def CanRead_def read_bind_def OnFailure_def)
  then have stop: "ack_bind (ack_read m ReadUInt8) g (s, r_skip 7 ?r) = (Inl m, s, snd (ReadUInt8 (r_skip 7 ?r)))" for m g s
    by (cases "ReadUInt8 (r_skip 7 ?r)") (simp add: ack_bind_def ack_read_def try_read_def)
  have bits: "ExtractBit (0x65 :: u8) 5" "ReadAckPacketNumberLength 43 (ExtractBits 0x65 2 0) = 2"
    "ReadAckPacketNumberLength 43 (ExtractBits 0x65 2 2) = 2"
    by (simp_all add: ExtractBit_def ExtractBits_def GetMaskFromNumBits_def ReadAckPacketNumberLength_def QUIC_VERSION_41_def packet_length_defs packet_flag_defs)
  note steps = ack_bind_read [OF reads_ReadBytesToUInt64_small e(2) r(1)] ack_bind_read [OF reads_ReadUFloat16 e(1) r(2)]
    ack_bind_read [OF reads_ReadUInt8 e(1) r(3)] ack_bind_read [OF reads_ReadBytesToUInt64_small e(1) r(4)]
  have v: "(43 = QUIC_VERSION_41) = False" by (simp add: QUIC_VERSION_41_def)
  show ?thesis
    unfolding ProcessAckFrame_def Let_def v
    by (simp add: bits steps ack_bind_visit log_visitor_def stop)
qed

lemma ack_without_count:
  "\<exists>w'. AppendAckFrameAndTypeByte 43 True (\<lambda>_ _. write_nothing) 0 uncounted_ack (sample_writer 9) = (Appended, w') \<and>
    w_out w' = [0x65, 3, 0xe8, 0, 100, 0, 2, 0] \<and> \<not> 700 \<in> pnq_set (af_packets uncounted_ack) \<and>
    (case ProcessAckFrame 43 True 0 log_visitor 0x65
       (\<lparr>as_visitor = [], as_frame = QuicAckFrame, as_last_timestamp = 0\<rparr>, QuicDataReader [3, 0xe8, 0, 100, 0, 2, 0] NETWORK_BYTE_ORDER)
     of (res, s, r) \<Rightarrow> res = Inl ''Unable to read num received packets.'' \<and> as_visitor s = [(1000, 0, False), (489, 1001, False)])"
proof -
  let ?bs = "[0x65, 3, 0xe8, 0, 100, 0, 2, 0]" and ?w = "sample_writer 9"
  have fits: "ack_header_size 43 uncounted_ack \<le> w_room ?w" "w_room ?w < 2 ^ 31" "w_ok ?w"
    using uncounted_eval(7) by (simp_all add: ack_fits_def)
  note app = AppendAck_fits [OF fits sample_writer_out(2), unfolded uncounted_eval uncounted_bytes]
  show ?thesis
  proof (intro exI [of _ "w_put ?bs ?w"] conjI)
    show "AppendAckFrameAndTypeByte 43 True (\<lambda>_ _. write_nothing) 0 uncounted_ack ?w = (Appended, w_put ?bs ?w)" by (rule app(1))
    show "w_out (w_put ?bs ?w) = ?bs" using w_out_put [OF fits(3) app(2)] unfolding sample_writer_out by simp
    show "\<not> 700 \<in> pnq_set (af_packets uncounted_ack)" by (simp add: uncounted_ack_def pnq_set_def interval_set_def)
  qed (rule uncounted_misread)
qed

text \<open>
  C3. An ACK frame never overruns the packet: whenever the fixed part fits, the append succeeds,
  writes the reference encoding with the number of blocks that the remaining space allows, and
  stays within the capacity of the writer.
\<close>

theorem ack_frame_within_capacity:
  assumes "ack_fits version frame w"
  shows "\<exists>w' n. AppendAckFrameAndTypeByte version True at_offset t frame w = (Appended, w') \<and> w_ok w' \<and> w_capacity w' = w_capacity w \<and>
    n \<le> num_ack_blocks (GetAckFrameInfo frame) \<and> n \<le> 255 \<and>
    w_out w' = w_out w @ ack_frame_bytes (w_endianness w) version frame n"
proof -
  have f: "ack_header_size version frame \<le> w_room w" "w_room w < 2 ^ 31" "w_ok w"
    using assms by (simp_all add: ack_fits_def)
  note app = AppendAck_fits [OF f refl]
  show ?thesis using app(1) ack_blocks_for_bound(2,3) [OF f] w_out_put [OF f(3) app(2)] w_ok_put [OF f(3) app(2)]
    by auto
qed

theorem ack_frame_within_capacity_witness:
  "\<exists>w' n. AppendAckFrameAndTypeByte 43 True (\<lambda>_ _. write_nothing) 0 sample_ack (sample_writer 12) = (Appended, w') \<and> w_ok w' \<and>
    w_capacity w' = w_capacity (sample_writer 12) \<and>
    n \<le> num_ack_blocks (GetAckFrameInfo sample_ack) \<and> n \<le> 255 \<and>
    w_out w' = w_out (sample_writer 12) @ ack_frame_bytes (w_endianness (sample_writer 12)) 43 sample_ack n"
  by (rule ack_frame_within_capacity) (rule sample_ack_tight)

end
