(* ===== verification/Framer_Ietf.thy ===== *)
theory Framer_Ietf
  imports Framer_Frames
begin

text \<open>
  The IETF-format frames of quic/model/my\_quic\_framer.cc: stream, connection and application
  close, padding, path challenge and response, reset, stop-sending, flow-control and blocked
  frames. Unlike their Google-QUIC counterparts they use variable-length integers, write their
  own type byte and record a message for every failing step.
\<close>

section \<open>Frame types\<close>

definition IETF_RST_STREAM :: u8 where "IETF_RST_STREAM = 0x01"
definition IETF_CONNECTION_CLOSE :: u8 where "IETF_CONNECTION_CLOSE = 0x02"
definition IETF_APPLICATION_CLOSE :: u8 where "IETF_APPLICATION_CLOSE = 0x03"
definition IETF_MAX_DATA :: u8 where "IETF_MAX_DATA = 0x04"
definition IETF_MAX_STREAM_DATA :: u8 where "IETF_MAX_STREAM_DATA = 0x05"
definition IETF_MAX_STREAM_ID :: u8 where "IETF_MAX_STREAM_ID = 0x06"
definition IETF_BLOCKED :: u8 where "IETF_BLOCKED = 0x08"
definition IETF_STREAM_BLOCKED :: u8 where "IETF_STREAM_BLOCKED = 0x09"
definition IETF_STREAM_ID_BLOCKED :: u8 where "IETF_STREAM_ID_BLOCKED = 0x0a"
definition IETF_STOP_SENDING :: u8 where "IETF_STOP_SENDING = 0x0c"
definition IETF_PATH_CHALLENGE :: u8 where "IETF_PATH_CHALLENGE = 0x0e"
definition IETF_PATH_RESPONSE :: u8 where "IETF_PATH_RESPONSE = 0x0f"
definition IETF_STREAM :: u8 where "IETF_STREAM = 0x10"
definition IETF_STREAM_FRAME_FIN_BIT :: u8 where "IETF_STREAM_FRAME_FIN_BIT = 0x01"
definition IETF_STREAM_FRAME_LEN_BIT :: u8 where "IETF_STREAM_FRAME_LEN_BIT = 0x02"
definition IETF_STREAM_FRAME_OFF_BIT :: u8 where "IETF_STREAM_FRAME_OFF_BIT = 0x04"

definition kQuicPathFrameBufferSize :: nat where "kQuicPathFrameBufferSize = 8"

record quic_stop_sending_frame =
  ss_stream_id :: u32
  ss_application_error_code :: u16

record quic_path_frame =
  path_data_buffer :: "u8 list"

record quic_ietf_max_stream_id_frame =
  msi_max_stream_id :: u32

record quic_ietf_blocked_frame =
  ib_offset :: u64

record quic_ietf_stream_id_blocked_frame =
  sib_stream_id :: u32

section \<open>Stream frames\<close>

definition ietf_stream_type :: "bool \<Rightarrow> u64 \<Rightarrow> bool \<Rightarrow> u8" where
  "ietf_stream_type fin offset last_frame_in_packet =
     (let t = IETF_STREAM;
          t = (if fin then t OR IETF_STREAM_FRAME_FIN_BIT else t);
          t = (if offset \<noteq> 0 then t OR IETF_STREAM_FRAME_OFF_BIT else t)
      in if \<not> last_frame_in_packet then t OR IETF_STREAM_FRAME_LEN_BIT else t)"

definition AppendIetfStreamFrame ::
  "data_producer option \<Rightarrow> quic_stream_frame \<Rightarrow> bool \<Rightarrow> append_op" where
  "AppendIetfStreamFrame producer frame last_frame_in_packet =
     (let frame_type = ietf_stream_type (sf_fin frame) (sf_offset frame) last_frame_in_packet in
      append_then (try_write (Some ''Unable to write frame-type.'') (WriteUInt8 frame_type))
      (append_then (try_write (Some ''Writing stream id failed.'') (WriteVarInt62 (ucast (sf_stream_id frame))))
      (append_then
        (if frame_type AND IETF_STREAM_FRAME_OFF_BIT \<noteq> 0
         then try_write (Some ''Writing data offset failed.'') (WriteVarInt62 (sf_offset frame))
         else append_done)
      (append_then
        (if frame_type AND IETF_STREAM_FRAME_LEN_BIT \<noteq> 0
         then try_write (Some ''Writing data length failed.'')
                (WriteVarInt62 (word_of_nat (length (sf_data frame))))
         else append_done)
        (case producer of
           None \<Rightarrow> try_write (Some ''Writing frame data failed.'') (WriteBytes (sf_data frame))
         | Some write_stream_data \<Rightarrow>
             try_write (Some ''Writing frame data failed.'')
               (write_stream_data (sf_stream_id frame) (sf_offset frame) (length (sf_data frame))))))))"

definition ProcessIetfStreamFrame :: "u8 \<Rightarrow> quic_stream_frame parse_op" where
  "ProcessIetfStreamFrame frame_type =
     parse_bind (try_read ''Unable to read stream_id.'' ReadVarIntStreamId) (\<lambda>stream_id.
     parse_bind (if frame_type AND IETF_STREAM_FRAME_OFF_BIT \<noteq> 0
                 then try_read ''Unable to read stream data offset.'' ReadVarInt62
                 else parse_return 0) (\<lambda>offset.
     parse_bind (if frame_type AND IETF_STREAM_FRAME_LEN_BIT \<noteq> 0
                 then parse_bind (try_read ''Unable to read stream data length.'' ReadVarInt62) (\<lambda>len.
                        if len > 0xffff then parse_fail ''Stream data length is too large.''
                        else parse_return (unat len))
                 else (\<lambda>r. (Inr (BytesRemaining r mod 65536), r))) (\<lambda>data_length.
     parse_bind (try_read ''Unable to read frame data.'' (ReadStringPiece data_length)) (\<lambda>data.
     parse_return \<lparr>sf_stream_id = stream_id,
       sf_fin = (frame_type AND IETF_STREAM_FRAME_FIN_BIT \<noteq> 0),
       sf_offset = offset, sf_data = data\<rparr>))))"

section \<open>Close frames\<close>

definition AppendIetfCloseFrame :: "u8 \<Rightarrow> u16 \<Rightarrow> u8 list \<Rightarrow> append_op" where
  "AppendIetfCloseFrame ty code phrase =
     append_then (try_write (Some ''Can not write close frame type byte'') (WriteUInt8 ty))
     (append_then (try_write (Some ''Can not write close frame code'') (WriteUInt16 code))
     (append_then (try_write (Some ''Can not write phrase-length'') (WriteVarInt62 (word_of_nat (length phrase))))
       (if phrase \<noteq> [] then try_write (Some ''Can not write phrase'') (WriteBytes phrase) else append_done)))"

definition AppendIetfConnectionCloseFrame :: "quic_connection_close_frame \<Rightarrow> append_op" where
  "AppendIetfConnectionCloseFrame frame =
     AppendIetfCloseFrame IETF_CONNECTION_CLOSE (ucast (cc_error_code frame)) (cc_error_details frame)"

definition AppendIetfApplicationCloseFrame :: "quic_connection_close_frame \<Rightarrow> append_op" where
  "AppendIetfApplicationCloseFrame frame =
     AppendIetfCloseFrame IETF_APPLICATION_CLOSE (ucast (cc_error_code frame)) (cc_error_details frame)"

definition ProcessIetfCloseFrame :: "u8 \<Rightarrow> quic_connection_close_frame parse_op" where
  "ProcessIetfCloseFrame frame_type =
     parse_bind (try_read ''Unable to read close frame code.'' ReadUInt16) (\<lambda>code.
     parse_bind (try_read ''Unable to read phrase length'' ReadVarInt62) (\<lambda>phrase_length.
     parse_bind (try_read ''Can not read extended close information phrase''
                   (ReadStringPiece (unat phrase_length))) (\<lambda>phrase.
     parse_return \<lparr>cc_error_code = ucast code, cc_error_details = phrase\<rparr>)))"

definition ProcessIetfConnectionCloseFrame :: "u8 \<Rightarrow> quic_connection_close_frame parse_op" where
  "ProcessIetfConnectionCloseFrame frame_type = ProcessIetfCloseFrame frame_type"

definition ProcessIetfApplicationCloseFrame :: "u8 \<Rightarrow> quic_connection_close_frame parse_op" where
  "ProcessIetfApplicationCloseFrame frame_type = ProcessIetfCloseFrame frame_type"

section \<open>Padding and path frames\<close>

definition AppendIetfPaddingFrame :: "transport_version \<Rightarrow> quic_padding_frame \<Rightarrow> append_op" where
  "AppendIetfPaddingFrame version frame =
     append_then (try_write (Some ''Can not write close frame type byte'') (WriteUInt8 0))
       (AppendPaddingFrame version frame)"

definition ProcessIetfPaddingFrame ::
  "transport_version \<Rightarrow> quic_data_reader \<Rightarrow> quic_padding_frame \<times> quic_data_reader" where
  "ProcessIetfPaddingFrame version r = ProcessPaddingFrame version r"

definition ProcessIetfPathChallengeFrame :: "quic_path_frame parse_op" where
  "ProcessIetfPathChallengeFrame =
     parse_bind (try_read ''Can not read path Challenge data'' (ReadBytes kQuicPathFrameBufferSize)) (\<lambda>data.
     parse_return \<lparr>path_data_buffer = data\<rparr>)"

definition ProcessIetfPathResponseFrame :: "quic_path_frame parse_op" where
  "ProcessIetfPathResponseFrame =
     parse_bind (try_read ''Can not read path Response data'' (ReadBytes kQuicPathFrameBufferSize)) (\<lambda>data.
     parse_return \<lparr>path_data_buffer = data\<rparr>)"

definition AppendIetfPathChallengeFrame :: "quic_path_frame \<Rightarrow> append_op" where
  "AppendIetfPathChallengeFrame frame =
     append_then (try_write (Some ''Can not write Path Challenge frame type byte'') (WriteUInt8 IETF_PATH_CHALLENGE))
       (try_write (Some ''Writing Path Challenge data failed.'')
         (WriteBytes (take kQuicPathFrameBufferSize (path_data_buffer frame))))"

definition AppendIetfPathResponseFrame :: "quic_path_frame \<Rightarrow> append_op" where
  "AppendIetfPathResponseFrame frame =
     append_then (try_write (Some ''Can not write Path Response frame type byte'') (WriteUInt8 IETF_PATH_RESPONSE))
       (try_write (Some ''Writing Path Response data failed.'')
         (WriteBytes (take kQuicPathFrameBufferSize (path_data_buffer frame))))"

section \<open>Stream control\<close>

definition AppendIetfResetStreamFrame :: "quic_rst_stream_frame \<Rightarrow> append_op" where
  "AppendIetfResetStreamFrame frame =
     append_then (try_write (Some ''Unable to write reset-stream frame-type.'') (WriteUInt8 IETF_RST_STREAM))
     (append_then (try_write (Some ''Writing reset-stream stream id failed.'') (WriteVarInt62 (ucast (rst_stream_id frame))))
     (append_then (try_write (Some ''Writing reset-stream error code failed.'') (WriteUInt16 (ucast (rst_error_code frame))))
       (try_write (Some ''Writing reset-stream final-offset failed.'') (WriteVarInt62 (rst_byte_offset frame)))))"

definition ProcessIetfResetStreamFrame :: "quic_rst_stream_frame parse_op" where
  "ProcessIetfResetStreamFrame =
     parse_bind (try_read ''Reading reset-stream stream id failed.'' ReadVarIntStreamId) (\<lambda>stream_id.
     parse_bind (try_read ''Reading reset-stream error code failed.'' ReadUInt16) (\<lambda>code.
     parse_bind (try_read ''Reading reset-stream final-offset failed.'' ReadVarInt62) (\<lambda>offset.
     parse_return \<lparr>rst_stream_id = stream_id, rst_error_code = ucast code, rst_byte_offset = offset\<rparr>)))"

definition ProcessIetfStopSendingFrame :: "quic_stop_sending_frame parse_op" where
  "ProcessIetfStopSendingFrame =
     parse_bind (try_read ''Unable to read stream id'' ReadVarIntStreamId) (\<lambda>stream_id.
     parse_bind (try_read ''Unable to read application error code.'' ReadUInt16) (\<lambda>code.
     parse_return \<lparr>ss_stream_id = stream_id, ss_application_error_code = code\<rparr>))"

definition AppendIetfStopSendingFrame :: "quic_stop_sending_frame \<Rightarrow> append_op" where
  "AppendIetfStopSendingFrame frame =
     append_then (try_write (Some ''Can not write stop sending frame type byte'') (WriteUInt8 IETF_STOP_SENDING))
     (append_then (try_write (Some ''Can not write stop sending stream id'') (WriteVarInt62 (ucast (ss_stream_id frame))))
       (try_write (Some ''Can not write application error code'') (WriteUInt16 (ss_application_error_code frame))))"

section \<open>Flow control\<close>

definition AppendIetfMaxDataFrame :: "quic_window_update_frame \<Rightarrow> append_op" where
  "AppendIetfMaxDataFrame frame =
     append_then (try_write (Some ''Can not write IETF_MAX_DATA frame type byte'') (WriteUInt8 IETF_MAX_DATA))
       (try_write (Some ''Can not write IETF_MAX_DATA byte-offset'') (WriteVarInt62 (wu_byte_offset frame)))"

definition ProcessIetfMaxDataFrame :: "quic_window_update_frame parse_op" where
  "ProcessIetfMaxDataFrame =
     parse_bind (try_read ''Can not read IETF_MAX_DATA byte-offset'' ReadVarInt62) (\<lambda>offset.
     parse_return \<lparr>wu_stream_id = 0, wu_byte_offset = offset\<rparr>)"

definition AppendIetfMaxStreamDataFrame :: "quic_window_update_frame \<Rightarrow> append_op" where
  "AppendIetfMaxStreamDataFrame frame =
     append_then (try_write (Some ''Can not write IETF_MAX_STREAM_DATA frame type byte'') (WriteUInt8 IETF_MAX_STREAM_DATA))
     (append_then (try_write (Some ''Can not write IETF_MAX_STREAM_DATA stream id'') (WriteVarInt62 (ucast (wu_stream_id frame))))
       (try_write (Some ''Can not write IETF_MAX_STREAM_DATA byte-offset'') (WriteVarInt62 (wu_byte_offset frame))))"

definition ProcessIetfMaxStreamDataFrame :: "quic_window_update_frame parse_op" where
  "ProcessIetfMaxStreamDataFrame =
     parse_bind (try_read ''Can not read IETF_MAX_STREAM_DATA stream id'' ReadVarIntStreamId) (\<lambda>stream_id.
     parse_bind (try_read ''Can not read IETF_MAX_STREAM_DATA byte-count'' ReadVarInt62) (\<lambda>offset.
     parse_return \<lparr>wu_stream_id = stream_id, wu_byte_offset = offset\<rparr>))"

definition AppendIetfMaxStreamIdFrame :: "quic_ietf_max_stream_id_frame \<Rightarrow> append_op" where
  "AppendIetfMaxStreamIdFrame frame =
     append_then (try_write (Some ''Can not write IETF_MAX_STREAM_ID frame type byte'') (WriteUInt8 IETF_MAX_STREAM_ID))
       (try_write (Some ''Can not write IETF_MAX_STREAM_ID stream id'') (WriteVarInt62 (ucast (msi_max_stream_id frame))))"

definition ProcessIetfMaxStreamIdFrame :: "quic_ietf_max_stream_id_frame parse_op" where
  "ProcessIetfMaxStreamIdFrame =
     parse_bind (try_read ''Can not read IETF_MAX_STREAM_ID stream id'' ReadVarIntStreamId) (\<lambda>stream_id.
     parse_return \<lparr>msi_max_stream_id = stream_id\<rparr>)"

definition AppendIetfBlockedFrame :: "quic_ietf_blocked_frame \<Rightarrow> append_op" where
  "AppendIetfBlockedFrame frame =
     append_then (try_write (Some ''Can not write IETF_BLOCKED frame type byte'') (WriteUInt8 IETF_BLOCKED))
       (try_write (Some ''Can not write IETF_BLOCKED offset'') (WriteVarInt62 (ib_offset frame)))"

definition ProcessIetfBlockedFrame :: "quic_ietf_blocked_frame parse_op" where
  "ProcessIetfBlockedFrame =
     parse_bind (try_read ''Can not read IETF_BLOCKED offset'' ReadVarInt62) (\<lambda>offset.
     parse_return \<lparr>ib_offset = offset\<rparr>)"

definition AppendIetfStreamBlockedFrame :: "quic_window_update_frame \<Rightarrow> append_op" where
  "AppendIetfStreamBlockedFrame frame =
     append_then (try_write (Some ''Can not write IETF_STREAM_BLOCKED frame type byte'') (WriteUInt8 IETF_STREAM_BLOCKED))
     (append_then (try_write (Some ''Can not write IETF_STREAM_BLOCKED stream id'') (WriteVarInt62 (ucast (wu_stream_id frame))))
       (try_write (Some ''Can not write IETF_STREAM_BLOCKED offset'') (WriteVarInt62 (wu_byte_offset frame))))"

definition ProcessIetfStreamBlockedFrame :: "quic_window_update_frame parse_op" where
  "ProcessIetfStreamBlockedFrame =
     parse_bind (try_read ''Can not read IETF_STREAM_BLOCKED stream id'' ReadVarIntStreamId) (\<lambda>stream_id.
     parse_bind (try_read ''Can not read IETF_STREAM_BLOCKED offset'' ReadVarInt62) (\<lambda>offset.
     parse_return \<lparr>wu_stream_id = stream_id, wu_byte_offset = offset\<rparr>))"

definition AppendIetfStreamIdBlockedFrame :: "quic_ietf_stream_id_blocked_frame \<Rightarrow> append_op" where
  "AppendIetfStreamIdBlockedFrame frame =
     append_then (try_write (Some ''Can not write IETF_STREAM_ID_BLOCKED frame type byte'') (WriteUInt8 IETF_STREAM_ID_BLOCKED))
       (try_write (Some ''Can not write IETF_STREAM_ID_BLOCKED stream id'') (WriteVarInt62 (ucast (sib_stream_id frame))))"

definition ProcessIetfStreamIdBlockedFrame :: "quic_ietf_stream_id_blocked_frame parse_op" where
  "ProcessIetfStreamIdBlockedFrame =
     parse_bind (try_read ''Can not read IETF_STREAM_ID_BLOCKED stream id'' ReadVarIntStreamId) (\<lambda>stream_id.
     parse_return \<lparr>sib_stream_id = stream_id\<rparr>)"

section \<open>Round trips\<close>

lemma appends_varint_stream_id [intro, simp]:
  "appends e (WriteVarInt62 (ucast (sid :: u32))) (varint62_bytes (unat sid))"
proof -
  have "unat (ucast sid :: u64) = unat sid" using unat_u32_less [of sid] by (simp add: unat_ucast_mod)
  then show ?thesis using appends_WriteVarInt62 [of "ucast sid" e] unat_u32_less [of sid] by simp
qed

lemma appends_varint_length [intro, simp]:
  "n < 2 ^ 62 \<Longrightarrow> appends e (WriteVarInt62 (word_of_nat n)) (varint62_bytes n)"
  using appends_WriteVarInt62 [of "word_of_nat n" e] by (simp add: unat_of_nat)

lemma reads_varint_length [intro, simp]:
  "n < 2 ^ 62 \<Longrightarrow> reads e ReadVarInt62 (varint62_bytes n) (word_of_nat n)"
  using reads_ReadVarInt62 [of "word_of_nat n" e] by (simp add: unat_of_nat)

lemma reads_ReadStringPiece: "length s = n \<Longrightarrow> reads e (ReadStringPiece n) s s"
  by (simp add: ReadStringPiece_eq reads_ReadBytes)

lemma ucast_u16_roundtrip: "unat (x :: u32) < 65536 \<Longrightarrow> ucast (ucast x :: u16) = x"
  by (simp add: word_unat_eq_iff unat_ucast_mod)

text \<open>The flag bits of the IETF stream type byte.\<close>

lemma ietf_stream_type_bits:
  "ietf_stream_type fin off lst AND IETF_STREAM_FRAME_OFF_BIT \<noteq> 0 \<longleftrightarrow> off \<noteq> 0"
  "ietf_stream_type fin off lst AND IETF_STREAM_FRAME_LEN_BIT \<noteq> 0 \<longleftrightarrow> \<not> lst"
  "ietf_stream_type fin off lst AND IETF_STREAM_FRAME_FIN_BIT \<noteq> 0 \<longleftrightarrow> fin"
  by (simp_all add: ietf_stream_type_def IETF_STREAM_def IETF_STREAM_FRAME_OFF_BIT_def
      IETF_STREAM_FRAME_LEN_BIT_def IETF_STREAM_FRAME_FIN_BIT_def Let_def)

definition ietf_stream_body :: "quic_stream_frame \<Rightarrow> u8 list" where
  "ietf_stream_body f =
     varint62_bytes (unat (sf_stream_id f)) @
     (if sf_offset f \<noteq> 0 then varint62_bytes (unat (sf_offset f)) else []) @
     varint62_bytes (length (sf_data f)) @ sf_data f"

interpretation ietf_stream: frame_codec e "\<lambda>f. AppendIetfStreamFrame None f False" ProcessIetfStreamFrame
  "\<lambda>f. ietf_stream_type (sf_fin f) (sf_offset f) False" ietf_stream_body
  "\<lambda>f. unat (sf_offset f) < 2 ^ 62 \<and> length (sf_data f) \<le> 65535"
  for e
proof unfold_locales
  fix f :: quic_stream_frame
  assume ok: "unat (sf_offset f) < 2 ^ 62 \<and> length (sf_data f) \<le> 65535"
  show "appending e (AppendIetfStreamFrame None f False) (ietf_stream_type (sf_fin f) (sf_offset f) False # ietf_stream_body f)"
    unfolding AppendIetfStreamFrame_def ietf_stream_body_def Let_def ietf_stream_type_bits option.case
    using ok by (intro appending_typed appending_then) (auto intro!: appending_try)
  have len: "reads e ReadVarInt62 (varint62_bytes (length (sf_data f))) (word_of_nat (length (sf_data f)))"
    using ok by (intro reads_varint_length) simp
  have small: "\<not> (word_of_nat (length (sf_data f)) :: u64) > 0xffff"
    using ok by (simp add: word_less_nat_alt unat_of_nat)
  have plen: "parsing e (parse_bind (try_read m ReadVarInt62) (\<lambda>len. if len > 0xffff then parse_fail m' else parse_return (unat len)))
      (varint62_bytes (length (sf_data f))) (length (sf_data f))" for m m'
    by (rule parsing_bind_last [OF parsing_try [OF len]])
      (use ok small parsing_return [of e "length (sf_data f)"] in \<open>simp add: unat_of_nat\<close>)
  have poff: "parsing e (if sf_offset f \<noteq> 0 then try_read m ReadVarInt62 else parse_return 0)
      (if sf_offset f \<noteq> 0 then varint62_bytes (unat (sf_offset f)) else []) (sf_offset f)" for m
    using ok by (auto intro: parsing_try)
  have res: "parsing e (parse_return \<lparr>sf_stream_id = sf_stream_id f, sf_fin = sf_fin f, sf_offset = sf_offset f, sf_data = sf_data f\<rparr>) [] f"
    by (cases f) simp
  show "parsing e (ProcessIetfStreamFrame (ietf_stream_type (sf_fin f) (sf_offset f) False)) (ietf_stream_body f) f"
    unfolding ProcessIetfStreamFrame_def ietf_stream_body_def ietf_stream_type_bits not_False_eq_True if_True
    by (intro parsing_bind [OF parsing_try [OF reads_ReadVarIntStreamId]] parsing_bind [OF poff] parsing_bind [OF plen]
        parsing_bind_last [OF parsing_try [OF reads_ReadStringPiece [OF refl]]] res)
qed

definition ietf_close_body :: "endianness \<Rightarrow> quic_connection_close_frame \<Rightarrow> u8 list" where
  "ietf_close_body e f =
     uint_bytes e 2 (unat (cc_error_code f)) @ varint62_bytes (length (cc_error_details f)) @ cc_error_details f"

lemma appending_AppendIetfCloseFrame:
  "length p < 2 ^ 62 \<Longrightarrow>
   appending e (AppendIetfCloseFrame t c p) (t # uint_bytes e 2 (unat c) @ varint62_bytes (length p) @ p)"
  unfolding AppendIetfCloseFrame_def
  by (intro appending_typed appending_then) (auto intro!: appending_try)

lemma parsing_ProcessIetfCloseFrame:
  assumes "unat (cc_error_code f) < 65536" "length (cc_error_details f) < 2 ^ 62"
  shows "parsing e (ProcessIetfCloseFrame t) (ietf_close_body e f) f"
proof -
  have c: "reads e ReadUInt16 (uint_bytes e 2 (unat (cc_error_code f))) (ucast (cc_error_code f))"
    using reads_ReadUInt16 [of e "ucast (cc_error_code f)"] assms(1) by (simp add: unat_ucast_mod)
  have s: "reads e (ReadStringPiece (unat (word_of_nat (length (cc_error_details f)) :: u64))) (cc_error_details f) (cc_error_details f)"
    using assms(2) by (intro reads_ReadStringPiece) (simp add: unat_of_nat)
  have res: "parsing e (parse_return \<lparr>cc_error_code = ucast (ucast (cc_error_code f) :: u16), cc_error_details = cc_error_details f\<rparr>) [] f"
    using assms(1) by (cases f) (simp add: ucast_u16_roundtrip)
  show ?thesis
    unfolding ProcessIetfCloseFrame_def ietf_close_body_def
    by (intro parsing_bind [OF parsing_try [OF c]] parsing_bind [OF parsing_try [OF reads_varint_length [OF assms(2)]]]
        parsing_bind_last [OF parsing_try [OF s]] res)
qed

lemma appending_ietf_close:
  assumes "unat (cc_error_code f) < 65536" "length (cc_error_details f) < 2 ^ 62"
  shows "appending e (AppendIetfCloseFrame t (ucast (cc_error_code f)) (cc_error_details f)) (t # ietf_close_body e f)"
  using appending_AppendIetfCloseFrame [OF assms(2), of e t "ucast (cc_error_code f)"] assms(1)
  by (simp add: ietf_close_body_def unat_ucast_mod)

interpretation ietf_connection_close: frame_codec e AppendIetfConnectionCloseFrame ProcessIetfConnectionCloseFrame
  "\<lambda>_. IETF_CONNECTION_CLOSE" "ietf_close_body e"
  "\<lambda>f. unat (cc_error_code f) < 65536 \<and> length (cc_error_details f) < 2 ^ 62"
  for e
  by unfold_locales
    (simp_all add: AppendIetfConnectionCloseFrame_def ProcessIetfConnectionCloseFrame_def appending_ietf_close
      parsing_ProcessIetfCloseFrame)

interpretation ietf_application_close: frame_codec e AppendIetfApplicationCloseFrame ProcessIetfApplicationCloseFrame
  "\<lambda>_. IETF_APPLICATION_CLOSE" "ietf_close_body e"
  "\<lambda>f. unat (cc_error_code f) < 65536 \<and> length (cc_error_details f) < 2 ^ 62"
  for e
  by unfold_locales
    (simp_all add: AppendIetfApplicationCloseFrame_def ProcessIetfApplicationCloseFrame_def appending_ietf_close
      parsing_ProcessIetfCloseFrame)

lemma path_data:
  assumes "length (path_data_buffer f) = 8"
  shows "take kQuicPathFrameBufferSize (path_data_buffer f) = path_data_buffer f"
    "parsing e (parse_bind (try_read m (ReadBytes kQuicPathFrameBufferSize)) (\<lambda>data. parse_return \<lparr>path_data_buffer = data\<rparr>))
       (path_data_buffer f) f"
proof -
  show "take kQuicPathFrameBufferSize (path_data_buffer f) = path_data_buffer f"
    using assms by (simp add: kQuicPathFrameBufferSize_def)
  have r: "reads e (ReadBytes kQuicPathFrameBufferSize) (path_data_buffer f) (path_data_buffer f)"
    using assms by (intro reads_ReadBytes) (simp add: kQuicPathFrameBufferSize_def)
  show "parsing e (parse_bind (try_read m (ReadBytes kQuicPathFrameBufferSize)) (\<lambda>data. parse_return \<lparr>path_data_buffer = data\<rparr>))
       (path_data_buffer f) f"
    by (rule parsing_bind_last [OF parsing_try [OF r]]) (cases f, simp)
qed

interpretation path_challenge: frame_codec e AppendIetfPathChallengeFrame "\<lambda>_. ProcessIetfPathChallengeFrame"
  "\<lambda>_. IETF_PATH_CHALLENGE" path_data_buffer "\<lambda>f. length (path_data_buffer f) = 8"
  for e
  by unfold_locales
    (auto simp: AppendIetfPathChallengeFrame_def ProcessIetfPathChallengeFrame_def path_data
      intro!: appending_typed appending_try)

interpretation path_response: frame_codec e AppendIetfPathResponseFrame "\<lambda>_. ProcessIetfPathResponseFrame"
  "\<lambda>_. IETF_PATH_RESPONSE" path_data_buffer "\<lambda>f. length (path_data_buffer f) = 8"
  for e
  by unfold_locales
    (auto simp: AppendIetfPathResponseFrame_def ProcessIetfPathResponseFrame_def path_data
      intro!: appending_typed appending_try)

lemmas read_stream_id_step = parsing_bind [OF parsing_try [OF reads_ReadVarIntStreamId]]
lemmas read_stream_id_last = parsing_bind_last [OF parsing_try [OF reads_ReadVarIntStreamId]]
lemmas read_varint_last = parsing_bind_last [OF parsing_try [OF reads_ReadVarInt62]]

definition ietf_reset_body :: "endianness \<Rightarrow> quic_rst_stream_frame \<Rightarrow> u8 list" where
  "ietf_reset_body e f =
     varint62_bytes (unat (rst_stream_id f)) @ uint_bytes e 2 (unat (rst_error_code f)) @
     varint62_bytes (unat (rst_byte_offset f))"

interpretation ietf_reset: frame_codec e AppendIetfResetStreamFrame "\<lambda>_. ProcessIetfResetStreamFrame"
  "\<lambda>_. IETF_RST_STREAM" "ietf_reset_body e"
  "\<lambda>f. unat (rst_error_code f) < 65536 \<and> unat (rst_byte_offset f) < 2 ^ 62"
  for e
proof unfold_locales
  fix f :: quic_rst_stream_frame
  assume ok: "unat (rst_error_code f) < 65536 \<and> unat (rst_byte_offset f) < 2 ^ 62"
  then have code: "unat (ucast (rst_error_code f) :: u16) = unat (rst_error_code f)"
    by (simp add: unat_ucast_mod)
  have "appends e (WriteUInt16 (ucast (rst_error_code f))) (uint_bytes e 2 (unat (rst_error_code f)))"
    using appends_WriteUInt16 [of e "ucast (rst_error_code f)"] by (simp only: code)
  then show "appending e (AppendIetfResetStreamFrame f) (IETF_RST_STREAM # ietf_reset_body e f)"
    unfolding AppendIetfResetStreamFrame_def ietf_reset_body_def
    using ok by (intro appending_typed appending_then) (auto intro!: appending_try)
  have c: "reads e ReadUInt16 (uint_bytes e 2 (unat (rst_error_code f))) (ucast (rst_error_code f))"
    using reads_ReadUInt16 [of e "ucast (rst_error_code f)"] by (simp only: code)
  have res: "parsing e (parse_return \<lparr>rst_stream_id = rst_stream_id f,
      rst_error_code = ucast (ucast (rst_error_code f) :: u16), rst_byte_offset = rst_byte_offset f\<rparr>) [] f"
    using ok by (cases f) (simp add: ucast_u16_roundtrip)
  show "parsing e ProcessIetfResetStreamFrame (ietf_reset_body e f) f"
    unfolding ProcessIetfResetStreamFrame_def ietf_reset_body_def
    using ok by (intro read_stream_id_step parsing_bind [OF parsing_try [OF c]] read_varint_last res) simp
qed

definition stop_sending_body :: "endianness \<Rightarrow> quic_stop_sending_frame \<Rightarrow> u8 list" where
  "stop_sending_body e f =
     varint62_bytes (unat (ss_stream_id f)) @ uint_bytes e 2 (unat (ss_application_error_code f))"

interpretation stop_sending: frame_codec e AppendIetfStopSendingFrame "\<lambda>_. ProcessIetfStopSendingFrame"
  "\<lambda>_. IETF_STOP_SENDING" "stop_sending_body e" "\<lambda>_. True"
  for e
proof unfold_locales
  fix f :: quic_stop_sending_frame
  show "appending e (AppendIetfStopSendingFrame f) (IETF_STOP_SENDING # stop_sending_body e f)"
    unfolding AppendIetfStopSendingFrame_def stop_sending_body_def
    by (intro appending_typed appending_then) (auto intro!: appending_try)
  show "parsing e ProcessIetfStopSendingFrame (stop_sending_body e f) f"
    unfolding ProcessIetfStopSendingFrame_def stop_sending_body_def
    by (intro read_stream_id_step parsing_bind_last [OF parsing_try [OF reads_ReadUInt16]]) (cases f, simp)
qed

text \<open>MAX\_DATA is the connection-level window: its stream id is always 0.\<close>

interpretation max_data: frame_codec e AppendIetfMaxDataFrame "\<lambda>_. ProcessIetfMaxDataFrame"
  "\<lambda>_. IETF_MAX_DATA" "\<lambda>f. varint62_bytes (unat (wu_byte_offset f))"
  "\<lambda>f. wu_stream_id f = 0 \<and> unat (wu_byte_offset f) < 2 ^ 62"
  for e
proof unfold_locales
  fix f :: quic_window_update_frame
  assume ok: "wu_stream_id f = 0 \<and> unat (wu_byte_offset f) < 2 ^ 62"
  then show "appending e (AppendIetfMaxDataFrame f) (IETF_MAX_DATA # varint62_bytes (unat (wu_byte_offset f)))"
    unfolding AppendIetfMaxDataFrame_def by (intro appending_typed) (auto intro!: appending_try)
  show "parsing e ProcessIetfMaxDataFrame (varint62_bytes (unat (wu_byte_offset f))) f"
    unfolding ProcessIetfMaxDataFrame_def using ok by (intro read_varint_last) (cases f, simp)+
qed

definition stream_window_body :: "quic_window_update_frame \<Rightarrow> u8 list" where
  "stream_window_body f = varint62_bytes (unat (wu_stream_id f)) @ varint62_bytes (unat (wu_byte_offset f))"

interpretation max_stream_data: frame_codec e AppendIetfMaxStreamDataFrame "\<lambda>_. ProcessIetfMaxStreamDataFrame"
  "\<lambda>_. IETF_MAX_STREAM_DATA" stream_window_body "\<lambda>f. unat (wu_byte_offset f) < 2 ^ 62"
  for e
proof unfold_locales
  fix f :: quic_window_update_frame
  assume ok: "unat (wu_byte_offset f) < 2 ^ 62"
  then show "appending e (AppendIetfMaxStreamDataFrame f) (IETF_MAX_STREAM_DATA # stream_window_body f)"
    unfolding AppendIetfMaxStreamDataFrame_def stream_window_body_def
    by (intro appending_typed appending_then) (auto intro!: appending_try)
  show "parsing e ProcessIetfMaxStreamDataFrame (stream_window_body f) f"
    unfolding ProcessIetfMaxStreamDataFrame_def stream_window_body_def
    using ok by (intro read_stream_id_step read_varint_last) (cases f, simp)+
qed

interpretation stream_blocked: frame_codec e AppendIetfStreamBlockedFrame "\<lambda>_. ProcessIetfStreamBlockedFrame"
  "\<lambda>_. IETF_STREAM_BLOCKED" stream_window_body "\<lambda>f. unat (wu_byte_offset f) < 2 ^ 62"
  for e
proof unfold_locales
  fix f :: quic_window_update_frame
  assume ok: "unat (wu_byte_offset f) < 2 ^ 62"
  then show "appending e (AppendIetfStreamBlockedFrame f) (IETF_STREAM_BLOCKED # stream_window_body f)"
    unfolding AppendIetfStreamBlockedFrame_def stream_window_body_def
    by (intro appending_typed appending_then) (auto intro!: appending_try)
  show "parsing e ProcessIetfStreamBlockedFrame (stream_window_body f) f"
    unfolding ProcessIetfStreamBlockedFrame_def stream_window_body_def
    using ok by (intro read_stream_id_step read_varint_last) (cases f, simp)+
qed

interpretation max_stream_id: frame_codec e AppendIetfMaxStreamIdFrame "\<lambda>_. ProcessIetfMaxStreamIdFrame"
  "\<lambda>_. IETF_MAX_STREAM_ID" "\<lambda>f. varint62_bytes (unat (msi_max_stream_id f))" "\<lambda>_. True"
  for e
proof unfold_locales
  fix f :: quic_ietf_max_stream_id_frame
  show "appending e (AppendIetfMaxStreamIdFrame f) (IETF_MAX_STREAM_ID # varint62_bytes (unat (msi_max_stream_id f)))"
    unfolding AppendIetfMaxStreamIdFrame_def by (intro appending_typed) (auto intro!: appending_try)
  show "parsing e ProcessIetfMaxStreamIdFrame (varint62_bytes (unat (msi_max_stream_id f))) f"
    unfolding ProcessIetfMaxStreamIdFrame_def by (intro read_stream_id_last) (cases f, simp)
qed

interpretation ietf_blocked: frame_codec e AppendIetfBlockedFrame "\<lambda>_. ProcessIetfBlockedFrame"
  "\<lambda>_. IETF_BLOCKED" "\<lambda>f. varint62_bytes (unat (ib_offset f))" "\<lambda>f. unat (ib_offset f) < 2 ^ 62"
  for e
proof unfold_locales
  fix f :: quic_ietf_blocked_frame
  assume ok: "unat (ib_offset f) < 2 ^ 62"
  then show "appending e (AppendIetfBlockedFrame f) (IETF_BLOCKED # varint62_bytes (unat (ib_offset f)))"
    unfolding AppendIetfBlockedFrame_def by (intro appending_typed) (auto intro!: appending_try)
  show "parsing e ProcessIetfBlockedFrame (varint62_bytes (unat (ib_offset f))) f"
    unfolding ProcessIetfBlockedFrame_def using ok by (intro read_varint_last) (cases f, simp)+
qed

interpretation stream_id_blocked: frame_codec e AppendIetfStreamIdBlockedFrame "\<lambda>_. ProcessIetfStreamIdBlockedFrame"
  "\<lambda>_. IETF_STREAM_ID_BLOCKED" "\<lambda>f. varint62_bytes (unat (sib_stream_id f))" "\<lambda>_. True"
  for e
proof unfold_locales
  fix f :: quic_ietf_stream_id_blocked_frame
  show "appending e (AppendIetfStreamIdBlockedFrame f) (IETF_STREAM_ID_BLOCKED # varint62_bytes (unat (sib_stream_id f)))"
    unfolding AppendIetfStreamIdBlockedFrame_def by (intro appending_typed) (auto intro!: appending_try)
  show "parsing e ProcessIetfStreamIdBlockedFrame (varint62_bytes (unat (sib_stream_id f))) f"
    unfolding ProcessIetfStreamIdBlockedFrame_def by (intro read_stream_id_last) (cases f, simp)
qed

end
