(* ===== verification/Wire_Properties.thy ===== *)
theory Wire_Properties
  imports Framer_Ack_Roundtrip Framer_Ietf
begin

text \<open>
  What the wire formats promise their users: a value written by a \<open>Write\<close> or
  \<open>Append\<close> operation is the value the matching \<open>Read\<close> or \<open>Process\<close>
  operation returns, a full buffer is reported and never overrun, truncated numbers are
  reconstructed, and size computations are minimal.
\<close>

section \<open>Numbers\<close>

text \<open>
  C5. Packet-number reconstruction: a packet number sent as its low \<open>len\<close> bytes is
  recovered from the last received number whenever it lies within half a window of the number that
  is expected next.
\<close>

theorem packet_number_reconstruction:
  assumes "len \<in> {1, 2, 4, 6}" "unat base < 2 ^ 62"
    "2 * pn < 2 * (unat base + 1) + 2 ^ (8 * len)" "2 * (unat base + 1) < 2 * pn + 2 ^ (8 * len)"
  shows "unat (CalculatePacketNumberFromWire len base (word_of_nat (pn mod 2 ^ (8 * len)))) = pn"
  using assms by (rule CalculatePacketNumberFromWire_closest)

theorem packet_number_reconstruction_witness:
  "unat (CalculatePacketNumberFromWire 1 1000 (word_of_nat (1100 mod 2 ^ (8 * 1)))) = 1100"
  by (rule packet_number_reconstruction) simp_all

text \<open>
  C6. Timestamp reconstruction: a timestamp sent as its low 32 bits is recovered from the last
  timestamp whenever the two are within half a 32-bit epoch of each other.
\<close>

theorem timestamp_reconstruction:
  assumes "unat ts < 2 ^ 62" "2 * us < 2 * unat ts + 2 ^ 32" "2 * unat ts < 2 * us + 2 ^ 32"
  shows "unat (CalculateTimestampFromWire ts (word_of_nat (us mod 2 ^ 32))) = us"
  using assms by (rule CalculateTimestampFromWire_closest)

theorem timestamp_reconstruction_witness:
  "unat (CalculateTimestampFromWire 4294967290 (word_of_nat (4294967300 mod 2 ^ 32))) = 4294967300"
  by (rule timestamp_reconstruction) simp_all

text \<open>
  C7. UFloat16 precision: a value below 4096 is exact, a value at or beyond the largest
  representable one is clamped to it, and any other is rounded down by less than one part in 2048.
\<close>

theorem ufloat16_precision:
  "let d = ufloat16_decode (ufloat16_encode v) in
   if unat v < 4096 then d = v
   else if 4095 * 2 ^ 30 \<le> unat v then d = kUFloat16MaxValue
   else unat d \<le> unat v \<and> (unat v - unat d) * 2048 < unat d"
  using ufloat16_roundtrip_bounds [of v] by (simp add: Let_def)

text \<open>C8. Every 16-bit pattern is the encoding of the value it decodes to: the encoding has no redundant patterns.\<close>

theorem ufloat16_canonical: "ufloat16_encode (ufloat16_decode x) = x"
  by (rule ufloat16_decode_encode)

lemma appends_reads_roundtrip:
  assumes a: "appends e f bs" and r: "reads e g bs x" and w: "w_ok w" "w_endianness w = e" "length bs \<le> w_room w"
  shows "\<exists>w'. f w = (True, w') \<and> w_length w' = w_length w + length bs \<and>
    g \<lparr>r_data = w_out w' @ rest, r_pos = w_length w, r_endianness = e\<rparr> =
      (Some x, \<lparr>r_data = w_out w' @ rest, r_pos = w_length w', r_endianness = e\<rparr>)"
proof -
  let ?r = "\<lparr>r_data = w_out (w_put bs w) @ rest, r_pos = w_length w, r_endianness = e\<rparr>"
  have "length (w_out w) = w_length w" using w(1) by (simp add: w_out_def w_ok_def)
  then have "r_rest ?r = bs @ rest" using w_out_put [OF w(1,3)] by (simp add: r_rest_def)
  then have "g ?r = (Some x, r_skip (length bs) ?r)" by (intro readsD [OF r]) simp_all
  then show ?thesis using appends_fits [OF a w] by (auto simp: r_skip_def)
qed

text \<open>
  C9. Variable-length integers: a value below 2^62 written into a writer with room for
  GetVarInt62Len bytes is read back by ReadVarInt62, which stops where the writer stopped.
\<close>

theorem varint62_roundtrip:
  assumes "unat v < 2 ^ 62" "w_ok w" "GetVarInt62Len v \<le> w_room w"
  shows "\<exists>w'. WriteVarInt62 v w = (True, w') \<and> w_length w' = w_length w + GetVarInt62Len v \<and>
    ReadVarInt62 \<lparr>r_data = w_out w' @ rest, r_pos = w_length w, r_endianness = w_endianness w\<rparr> =
      (Some v, \<lparr>r_data = w_out w' @ rest, r_pos = w_length w', r_endianness = w_endianness w\<rparr>)"
  using appends_reads_roundtrip [OF appends_WriteVarInt62 [OF assms(1)] reads_ReadVarInt62 [OF assms(1)] assms(2) refl] assms
  by (simp add: GetVarInt62Len_eq)

theorem varint62_roundtrip_witness:
  "\<exists>w'. WriteVarInt62 15293 (sample_writer 8) = (True, w') \<and> w_length w' = 0 + GetVarInt62Len 15293 \<and>
    ReadVarInt62 \<lparr>r_data = w_out w' @ [7], r_pos = 0, r_endianness = NETWORK_BYTE_ORDER\<rparr> =
      (Some 15293, \<lparr>r_data = w_out w' @ [7], r_pos = w_length w', r_endianness = NETWORK_BYTE_ORDER\<rparr>)"
  using varint62_roundtrip [of 15293 "sample_writer 8" "[7]"] by (simp add: GetVarInt62Len_eq length_varint62_bytes)

text \<open>C10. A value of 2^62 or more is refused and the writer is left as it was.\<close>

theorem varint62_too_large:
  assumes "2 ^ 62 \<le> unat v"
  shows "WriteVarInt62 v w = (False, w) \<and> GetVarInt62Len v = 0"
  using WriteVarInt62_too_big [OF assms] assms by (simp add: GetVarInt62Len_eq)

theorem varint62_too_large_witness: "WriteVarInt62 (2 ^ 62) (sample_writer 8) = (False, sample_writer 8) \<and> GetVarInt62Len (2 ^ 62) = 0"
  by (rule varint62_too_large) simp

text \<open>C11. GetStreamIdSize is the least number of bytes, at least one, that holds the stream id.\<close>

theorem stream_id_size_least: "GetStreamIdSize sid = (LEAST n. 1 \<le> n \<and> unat sid < 256 ^ n)"
proof (rule sym, rule Least_equality)
  show "1 \<le> GetStreamIdSize sid \<and> unat sid < 256 ^ GetStreamIdSize sid" using GetStreamIdSize_bounds by blast
  fix n assume n: "1 \<le> n \<and> unat sid < 256 ^ n"
  show "GetStreamIdSize sid \<le> n"
  proof (rule ccontr)
    assume "\<not> GetStreamIdSize sid \<le> n"
    then have lt: "n < GetStreamIdSize sid" by simp
    then have "n = 1 \<or> n = 2 \<or> n = 3" using n GetStreamIdSize_bounds(2) [of sid] by linarith
    then show False using n lt by (elim disjE; hypsubst) (simp_all add: GetStreamIdSize_eq split: if_splits)
  qed
qed

section \<open>Frames\<close>

text \<open>
  C12. Stream frames: what AppendStreamFrame writes behind the type byte is what ProcessStreamFrame,
  given that type byte, returns, in both type-byte layouts, for every frame whose data fits the
  16-bit length field.
\<close>

theorem stream_frame_roundtrip:
  assumes "length (sf_data f) \<le> 65535" "w_ok w" "w_endianness w = e" "length (stream_frame_bytes e version f False) \<le> w_room w"
  shows "\<exists>w'. AppendStreamFrame version None f False w = (Appended, w') \<and> w_ok w' \<and>
    w_out w' = w_out w @ stream_frame_bytes e version f False \<and>
    ProcessStreamFrame version
      (stream_type_byte version (sf_fin f) False (GetStreamOffsetSize version (sf_offset f)) (GetStreamIdSize (sf_stream_id f)))
      \<lparr>r_data = w_out w' @ rest, r_pos = w_length w, r_endianness = e\<rparr> =
      (Inr f, \<lparr>r_data = w_out w' @ rest, r_pos = w_length w', r_endianness = e\<rparr>)"
  using assms by (intro stream.roundtrip) simp_all

definition sample_stream :: quic_stream_frame where
  "sample_stream = \<lparr>sf_stream_id = 5, sf_fin = True, sf_offset = 70000, sf_data = [1, 2, 3]\<rparr>"

theorem stream_frame_roundtrip_witness:
  "\<exists>w'. AppendStreamFrame 43 None sample_stream False (sample_writer 20) = (Appended, w') \<and> w_ok w' \<and>
    w_out w' = [] @ stream_frame_bytes NETWORK_BYTE_ORDER 43 sample_stream False \<and>
    ProcessStreamFrame 43
      (stream_type_byte 43 (sf_fin sample_stream) False (GetStreamOffsetSize 43 (sf_offset sample_stream)) (GetStreamIdSize (sf_stream_id sample_stream)))
      \<lparr>r_data = w_out w' @ [9], r_pos = w_length (sample_writer 20), r_endianness = NETWORK_BYTE_ORDER\<rparr> =
      (Inr sample_stream, \<lparr>r_data = w_out w' @ [9], r_pos = w_length w', r_endianness = NETWORK_BYTE_ORDER\<rparr>)"
proof -
  have "length (stream_frame_bytes NETWORK_BYTE_ORDER 43 sample_stream False) \<le> w_room (sample_writer 20)"
    by (simp add: stream_frame_bytes_def sample_stream_def GetStreamIdSize_eq GetStreamOffsetSize_eq QUIC_VERSION_41_def)
  from stream_frame_roundtrip [OF _ _ _ this, of "[9]"] show ?thesis
    unfolding sample_writer_out by (simp add: sample_stream_def)
qed

text \<open>
  C13. A stream frame that does not fit is refused: the writer stays within its capacity, and what
  it holds is what it held before, followed by a prefix of the frame.
\<close>

theorem stream_frame_no_room:
  assumes "length (sf_data f) \<le> 65535" "w_ok w" "w_endianness w = e" "w_room w < length (stream_frame_bytes e version f False)"
  shows "\<exists>m w'. AppendStreamFrame version None f False w = (Refused m, w') \<and> w_ok w' \<and>
    (\<exists>k. w_out w' = w_out w @ take k (stream_frame_bytes e version f False))"
  using assms by (intro stream.write_full) simp_all

theorem stream_frame_no_room_witness:
  "\<exists>m w'. AppendStreamFrame 43 None sample_stream False (sample_writer 3) = (Refused m, w') \<and> w_ok w' \<and>
    (\<exists>k. w_out w' = w_out (sample_writer 3) @ take k (stream_frame_bytes NETWORK_BYTE_ORDER 43 sample_stream False))"
proof (rule stream_frame_no_room)
  show "w_room (sample_writer 3) < length (stream_frame_bytes NETWORK_BYTE_ORDER 43 sample_stream False)"
    by (simp add: stream_frame_bytes_def sample_stream_def GetStreamIdSize_eq GetStreamOffsetSize_eq QUIC_VERSION_41_def)
qed (simp_all add: sample_stream_def)

text \<open>
  C14. Stop-waiting frames carry the distance from the packet's own number; the peer recovers the
  least unacknowledged packet whenever the distance fits the packet-number length.
\<close>

theorem stop_waiting_roundtrip:
  assumes "len \<in> {1, 2, 4, 6}" "sw_least_unacked f \<le> pn" "unat (pn - sw_least_unacked f) < 2 ^ (len * 8)"
    "w_ok w" "w_endianness w = e" "length (stop_waiting_bytes e len pn f) \<le> w_room w"
  shows "\<exists>w'. AppendStopWaitingFrame len pn f w = (Appended, w') \<and> w_ok w' \<and> w_out w' = w_out w @ stop_waiting_bytes e len pn f \<and>
    ProcessStopWaitingFrame len pn \<lparr>r_data = w_out w' @ rest, r_pos = w_length w, r_endianness = e\<rparr> =
      (Inr f, \<lparr>r_data = w_out w' @ rest, r_pos = w_length w', r_endianness = e\<rparr>)"
  using assms by (intro stop_waiting.roundtrip) simp_all

theorem stop_waiting_roundtrip_witness:
  "\<exists>w'. AppendStopWaitingFrame 1 1000 \<lparr>sw_least_unacked = 900\<rparr> (sample_writer 9) = (Appended, w') \<and> w_ok w' \<and>
    w_out w' = w_out (sample_writer 9) @ stop_waiting_bytes NETWORK_BYTE_ORDER 1 1000 \<lparr>sw_least_unacked = 900\<rparr> \<and>
    ProcessStopWaitingFrame 1 1000 \<lparr>r_data = w_out w' @ [], r_pos = w_length (sample_writer 9), r_endianness = NETWORK_BYTE_ORDER\<rparr> =
      (Inr \<lparr>sw_least_unacked = 900\<rparr>, \<lparr>r_data = w_out w' @ [], r_pos = w_length w', r_endianness = NETWORK_BYTE_ORDER\<rparr>)"
  by (rule stop_waiting_roundtrip) (simp_all add: stop_waiting_bytes_def)

text \<open>
  C15. IETF stream frames round-trip with their type byte: reading the type byte and then calling
  ProcessIetfStreamFrame gives back the frame, for offsets below 2^62 and data up to 65535 bytes.
\<close>

theorem ietf_stream_roundtrip:
  assumes "unat (sf_offset f) < 2 ^ 62" "length (sf_data f) \<le> 65535" "w_ok w" "w_endianness w = e"
    "length (ietf_stream_type (sf_fin f) (sf_offset f) False # ietf_stream_body f) \<le> w_room w"
  shows "\<exists>w'. AppendIetfStreamFrame None f False w = (Appended, w') \<and> w_ok w' \<and>
    w_out w' = w_out w @ ietf_stream_type (sf_fin f) (sf_offset f) False # ietf_stream_body f \<and>
    parse_bind read_type_byte ProcessIetfStreamFrame \<lparr>r_data = w_out w' @ rest, r_pos = w_length w, r_endianness = e\<rparr> =
      (Inr f, \<lparr>r_data = w_out w' @ rest, r_pos = w_length w', r_endianness = e\<rparr>)"
  using assms by (intro ietf_stream.roundtrip) simp_all

theorem ietf_stream_roundtrip_witness:
  "\<exists>w'. AppendIetfStreamFrame None sample_stream False (sample_writer 20) = (Appended, w') \<and> w_ok w' \<and>
    w_out w' = w_out (sample_writer 20) @ ietf_stream_type (sf_fin sample_stream) (sf_offset sample_stream) False # ietf_stream_body sample_stream \<and>
    parse_bind read_type_byte ProcessIetfStreamFrame
      \<lparr>r_data = w_out w' @ [], r_pos = w_length (sample_writer 20), r_endianness = NETWORK_BYTE_ORDER\<rparr> =
      (Inr sample_stream, \<lparr>r_data = w_out w' @ [], r_pos = w_length w', r_endianness = NETWORK_BYTE_ORDER\<rparr>)"
  by (rule ietf_stream_roundtrip) (simp_all add: sample_stream_def ietf_stream_body_def length_varint62_bytes)

end
