(* ===== verification/Framer_Ietf_Ack.thy ===== *)
theory Framer_Ietf_Ack
  imports Framer_Ack Framer_Ietf
begin

text \<open>
  The IETF-format ACK frame of quic/model/my\_quic\_framer.cc, AppendIetfAckFrame and
  ProcessIetfAckFrame: the largest acknowledged packet, the delay in units of eight microseconds,
  then the lengths of the blocks and of the gaps between them, newest first. A failed parse returns
  its message; what it has already stored in the caller's frame is left out.
  The parser slides the upper end of a block down by the size of the new block where the format
  asks for the size of the old one, so every block it reports has the length of the newest one.
\<close>

section \<open>Append and process\<close>









section \<open>Bytes\<close>













section \<open>What a parsed frame says\<close>











end
