(* ===== verification/Framer_Dispatch.thy ===== *)
theory Framer_Dispatch
  imports Framer_Ack_Roundtrip
begin

text \<open>
  The frame loop of my\_quic\_framer.cc: MyQuicFramer::ProcessFrameData reads the type byte of every
  frame of a packet, calls the process function of the type and hands the frame to the visitor; the
  loop of BuildDataPacket with AppendTypeByte writes the frames; ComputeFrameLength and
  GetSerializedFrameLength say how long they are.

  The visitor is a record of callbacks on a state of the caller's choice, as in Framer\_Ack;
  OnError is given what the C++ callback reads of the framer, the error and its details. The loop
  is a total function: every iteration consumes at least the type byte.
\<close>

section \<open>Frames, visitor and framer\<close>

datatype quic_frame =
    PADDING_FRAME quic_padding_frame
  | RST_STREAM_FRAME quic_rst_stream_frame
  | CONNECTION_CLOSE_FRAME quic_connection_close_frame
  | GOAWAY_FRAME quic_goaway_frame
  | WINDOW_UPDATE_FRAME quic_window_update_frame
  | BLOCKED_FRAME quic_blocked_frame
  | STOP_WAITING_FRAME quic_stop_waiting_frame
  | PING_FRAME
  | STREAM_FRAME quic_stream_frame
  | ACK_FRAME quic_ack_frame
  | MTU_DISCOVERY_FRAME

fun frame_type_code :: "quic_frame \<Rightarrow> u8" where
  "frame_type_code (PADDING_FRAME _) = 0"
| "frame_type_code (RST_STREAM_FRAME _) = 1"
| "frame_type_code (CONNECTION_CLOSE_FRAME _) = 2"
| "frame_type_code (GOAWAY_FRAME _) = 3"
| "frame_type_code (WINDOW_UPDATE_FRAME _) = 4"
| "frame_type_code (BLOCKED_FRAME _) = 5"
| "frame_type_code (STOP_WAITING_FRAME _) = 6"
| "frame_type_code PING_FRAME = 7"
| "frame_type_code (STREAM_FRAME _) = 8"
| "frame_type_code (ACK_FRAME _) = 9"
| "frame_type_code MTU_DISCOVERY_FRAME = 10"

record 'v frame_visitor = "'v ack_visitor" +
  OnError :: "u32 \<Rightarrow> string \<Rightarrow> 'v \<Rightarrow> 'v"
  OnStreamFrame :: "quic_stream_frame \<Rightarrow> 'v \<Rightarrow> bool \<times> 'v"
  OnAckFrame :: "quic_ack_frame \<Rightarrow> 'v \<Rightarrow> bool \<times> 'v"
  OnStopWaitingFrame :: "quic_stop_waiting_frame \<Rightarrow> 'v \<Rightarrow> bool \<times> 'v"
  OnPaddingFrame :: "quic_padding_frame \<Rightarrow> 'v \<Rightarrow> bool \<times> 'v"
  OnPingFrame :: "'v \<Rightarrow> bool \<times> 'v"
  OnRstStreamFrame :: "quic_rst_stream_frame \<Rightarrow> 'v \<Rightarrow> bool \<times> 'v"
  OnConnectionCloseFrame :: "quic_connection_close_frame \<Rightarrow> 'v \<Rightarrow> bool \<times> 'v"
  OnGoAwayFrame :: "quic_goaway_frame \<Rightarrow> 'v \<Rightarrow> bool \<times> 'v"
  OnWindowUpdateFrame :: "quic_window_update_frame \<Rightarrow> 'v \<Rightarrow> bool \<times> 'v"
  OnBlockedFrame :: "quic_blocked_frame \<Rightarrow> 'v \<Rightarrow> bool \<times> 'v"

record 'v framer =
  fr_visitor :: 'v
  fr_error :: u32
  fr_detailed_error :: string
  fr_last_timestamp :: quic_delta

record framer_params =
  fp_version :: transport_version
  fp_incremental :: bool
  fp_creation_time :: quic_time
  fp_producer :: "data_producer option"
  fp_write_at :: "u8 \<Rightarrow> nat \<Rightarrow> write_op"

definition QUIC_INVALID_FRAME_DATA :: u32 where "QUIC_INVALID_FRAME_DATA = 4"
definition QUIC_INVALID_RST_STREAM_DATA :: u32 where "QUIC_INVALID_RST_STREAM_DATA = 6"
definition QUIC_INVALID_CONNECTION_CLOSE_DATA :: u32 where "QUIC_INVALID_CONNECTION_CLOSE_DATA = 7"
definition QUIC_INVALID_GOAWAY_DATA :: u32 where "QUIC_INVALID_GOAWAY_DATA = 8"
definition QUIC_INVALID_ACK_DATA :: u32 where "QUIC_INVALID_ACK_DATA = 9"
definition QUIC_INVALID_STREAM_DATA :: u32 where "QUIC_INVALID_STREAM_DATA = 46"
definition QUIC_MISSING_PAYLOAD :: u32 where "QUIC_MISSING_PAYLOAD = 48"
definition QUIC_INVALID_WINDOW_UPDATE_DATA :: u32 where "QUIC_INVALID_WINDOW_UPDATE_DATA = 57"
definition QUIC_INVALID_BLOCKED_DATA :: u32 where "QUIC_INVALID_BLOCKED_DATA = 58"
definition QUIC_INVALID_STOP_WAITING_DATA :: u32 where "QUIC_INVALID_STOP_WAITING_DATA = 60"

definition kQuicFrameTypeSpecialMask :: u8 where "kQuicFrameTypeSpecialMask = 0xe0"
definition kQuicFrameTypeStreamMask_Pre40 :: u8 where "kQuicFrameTypeStreamMask_Pre40 = 0x80"
definition kQuicFrameTypeStreamMask :: u8 where "kQuicFrameTypeStreamMask = 0xc0"
definition kQuicFrameTypeAckMask_Pre40 :: u8 where "kQuicFrameTypeAckMask_Pre40 = 0x40"
definition kQuicFrameTypeAckMask :: u8 where "kQuicFrameTypeAckMask = 0xa0"

lemmas frame_mask_defs = kQuicFrameTypeSpecialMask_def kQuicFrameTypeStreamMask_Pre40_def
  kQuicFrameTypeStreamMask_def kQuicFrameTypeAckMask_Pre40_def kQuicFrameTypeAckMask_def

section \<open>Processing\<close>

definition RaiseError ::
  "('v, 'y) frame_visitor_scheme \<Rightarrow> u32 \<Rightarrow> ('v, 'z) framer_scheme \<Rightarrow> bool \<times> ('v, 'z) framer_scheme" where
  "RaiseError vis error s =
     (False, s\<lparr>fr_error := error, fr_visitor := OnError vis error (fr_detailed_error s) (fr_visitor s)\<rparr>)"

text \<open>One iteration goes on with the loop or returns from ProcessFrameData.\<close>

datatype frame_outcome = Continue | Return bool

type_synonym ('v, 'z) frame_step =
  "('v, 'z) framer_scheme \<times> quic_data_reader \<Rightarrow> frame_outcome \<times> ('v, 'z) framer_scheme \<times> quic_data_reader"

definition fail_frame :: "('v, 'y) frame_visitor_scheme \<Rightarrow> u32 \<Rightarrow> string \<Rightarrow> ('v, 'z) frame_step" where
  "fail_frame vis error m = (\<lambda>(s, r).
     case RaiseError vis error (s\<lparr>fr_detailed_error := m\<rparr>) of (ret, s') \<Rightarrow> (Return ret, s', r))"

definition visit_frame :: "('v \<Rightarrow> bool \<times> 'v) \<Rightarrow> ('v, 'z) frame_step" where
  "visit_frame callback = (\<lambda>(s, r).
     case callback (fr_visitor s) of (ok, v) \<Rightarrow> (if ok then Continue else Return True, s\<lparr>fr_visitor := v\<rparr>, r))"

definition parse_frame ::
  "('v, 'y) frame_visitor_scheme \<Rightarrow> u32 \<Rightarrow> 'a parse_op \<Rightarrow> ('a \<Rightarrow> 'v \<Rightarrow> bool \<times> 'v) \<Rightarrow> ('v, 'z) frame_step" where
  "parse_frame vis error process callback = (\<lambda>(s, r).
     case process r of
       (Inl m, r') \<Rightarrow> fail_frame vis error m (s, r')
     | (Inr frame, r') \<Rightarrow> visit_frame (callback frame) (s, r'))"

definition is_stream_type :: "transport_version \<Rightarrow> u8 \<Rightarrow> bool" where
  "is_stream_type version frame_type \<longleftrightarrow>
     (version \<noteq> QUIC_VERSION_41 \<and> frame_type AND kQuicFrameTypeStreamMask_Pre40 \<noteq> 0) \<or>
     (version \<ge> QUIC_VERSION_41 \<and> frame_type AND kQuicFrameTypeStreamMask = kQuicFrameTypeStreamMask)"

definition is_ack_type :: "transport_version \<Rightarrow> u8 \<Rightarrow> bool" where
  "is_ack_type version frame_type \<longleftrightarrow>
     (version \<noteq> QUIC_VERSION_41 \<and> frame_type AND kQuicFrameTypeAckMask_Pre40 \<noteq> 0) \<or>
     (version \<ge> QUIC_VERSION_41 \<and> frame_type AND kQuicFrameTypeSpecialMask = kQuicFrameTypeAckMask)"

definition process_ack :: "framer_params \<Rightarrow> ('v, 'y) frame_visitor_scheme \<Rightarrow> u8 \<Rightarrow> ('v, 'z) frame_step" where
  "process_ack fp vis frame_type = (\<lambda>(s, r).
     case ProcessAckFrame (fp_version fp) (fp_incremental fp) (fp_creation_time fp) vis frame_type
            (\<lparr>as_visitor = fr_visitor s, as_frame = QuicAckFrame, as_last_timestamp = fr_last_timestamp s\<rparr>, r) of
       (res, st, r') \<Rightarrow>
         let s1 = s\<lparr>fr_visitor := as_visitor st, fr_last_timestamp := as_last_timestamp st\<rparr> in
         case res of
           Inl m \<Rightarrow> fail_frame vis QUIC_INVALID_ACK_DATA m (s1, r')
         | Inr _ \<Rightarrow> if fp_incremental fp then (Continue, s1, r')
                    else visit_frame (OnAckFrame vis (as_frame st)) (s1, r'))"

definition process_special :: "framer_params \<Rightarrow> ('v, 'y) frame_visitor_scheme \<Rightarrow> u8 \<Rightarrow> ('v, 'z) frame_step" where
  "process_special fp vis frame_type =
     (if is_stream_type (fp_version fp) frame_type
      then parse_frame vis QUIC_INVALID_STREAM_DATA (ProcessStreamFrame (fp_version fp) frame_type) (OnStreamFrame vis)
      else if is_ack_type (fp_version fp) frame_type then process_ack fp vis frame_type
      else fail_frame vis QUIC_INVALID_FRAME_DATA ''Illegal frame type.'')"

definition process_regular ::
  "framer_params \<Rightarrow> ('v, 'y) frame_visitor_scheme \<Rightarrow> nat \<Rightarrow> u64 \<Rightarrow> u8 \<Rightarrow> ('v, 'z) frame_step" where
  "process_regular fp vis packet_number_length packet_number frame_type =
     (if frame_type = 0 then
        (\<lambda>(s, r). case ProcessPaddingFrame (fp_version fp) r of (frame, r') \<Rightarrow> visit_frame (OnPaddingFrame vis frame) (s, r'))
      else if frame_type = 1 then
        parse_frame vis QUIC_INVALID_RST_STREAM_DATA (ProcessRstStreamFrame (fp_version fp)) (OnRstStreamFrame vis)
      else if frame_type = 2 then
        parse_frame vis QUIC_INVALID_CONNECTION_CLOSE_DATA ProcessConnectionCloseFrame (OnConnectionCloseFrame vis)
      else if frame_type = 3 then
        parse_frame vis QUIC_INVALID_GOAWAY_DATA ProcessGoAwayFrame (OnGoAwayFrame vis)
      else if frame_type = 4 then
        parse_frame vis QUIC_INVALID_WINDOW_UPDATE_DATA ProcessWindowUpdateFrame (OnWindowUpdateFrame vis)
      else if frame_type = 5 then
        parse_frame vis QUIC_INVALID_BLOCKED_DATA ProcessBlockedFrame (OnBlockedFrame vis)
      else if frame_type = 6 then
        parse_frame vis QUIC_INVALID_STOP_WAITING_DATA
          (ProcessStopWaitingFrame packet_number_length packet_number) (OnStopWaitingFrame vis)
      else if frame_type = 7 then visit_frame (OnPingFrame vis)
      else fail_frame vis QUIC_INVALID_FRAME_DATA ''Illegal frame type.'')"

definition process_frame ::
  "framer_params \<Rightarrow> ('v, 'y) frame_visitor_scheme \<Rightarrow> nat \<Rightarrow> u64 \<Rightarrow> ('v, 'z) frame_step" where
  "process_frame fp vis packet_number_length packet_number = (\<lambda>(s, r).
     case ReadBytes 1 r of
       (None, r') \<Rightarrow> fail_frame vis QUIC_INVALID_FRAME_DATA ''Unable to read frame type.'' (s, r')
     | (Some bytes, r') \<Rightarrow>
         let frame_type = hd bytes in
         if frame_type AND kQuicFrameTypeSpecialMask \<noteq> 0 then process_special fp vis frame_type (s, r')
         else process_regular fp vis packet_number_length packet_number frame_type (s, r'))"

section \<open>Every frame consumes its type byte\<close>

named_theorems advance_intros

definition read_advances :: "'a read_op \<Rightarrow> bool" where
  "read_advances f \<longleftrightarrow> (\<forall>r. BytesRemaining (snd (f r)) \<le> BytesRemaining r)"

definition parse_advances :: "'a parse_op \<Rightarrow> bool" where
  "parse_advances f \<longleftrightarrow> (\<forall>r. BytesRemaining (snd (f r)) \<le> BytesRemaining r)"

definition ack_advances :: "('v, 'a) ack_parse \<Rightarrow> bool" where
  "ack_advances f \<longleftrightarrow> (\<forall>s r. BytesRemaining (snd (snd (f (s, r)))) \<le> BytesRemaining r)"

lemma read_advances_ReadBytes [advance_intros]: "read_advances (ReadBytes n)"
  by (simp add: read_advances_def ReadBytes_def OnFailure_def BytesRemaining_def diff_le_mono2)

lemma read_advances_ReadStringPiece [advance_intros]: "read_advances (ReadStringPiece n)"
  by (simp add: read_advances_def ReadStringPiece_def OnFailure_def BytesRemaining_def diff_le_mono2)

lemma read_advances_bind [advance_intros]:
  assumes "read_advances f" "\<And>x. read_advances (g x)"
  shows "read_advances (read_bind f g)"
  unfolding read_advances_def
proof
  fix r
  have "BytesRemaining (snd (g x (snd (f r)))) \<le> BytesRemaining r" for x
    using assms unfolding read_advances_def by (meson order.trans)
  moreover have "BytesRemaining (snd (f r)) \<le> BytesRemaining r" using assms by (simp add: read_advances_def)
  ultimately show "BytesRemaining (snd (read_bind f g r)) \<le> BytesRemaining r"
    unfolding read_bind_def by (cases "f r"; cases "fst (f r)") simp_all
qed

lemma read_advances_pure [advance_intros]: "read_advances (\<lambda>r. (h r, r))" "read_advances (read_return x)"
  by (simp_all add: read_advances_def read_return_def)

lemma parse_advances_try [advance_intros]: "read_advances f \<Longrightarrow> parse_advances (try_read m f)"
  unfolding read_advances_def parse_advances_def try_read_def by (auto split: prod.splits option.splits) (metis snd_conv)+

lemma parse_advances_bind [advance_intros]:
  assumes "parse_advances f" "\<And>x. parse_advances (g x)"
  shows "parse_advances (parse_bind f g)"
  unfolding parse_advances_def
proof
  fix r
  have "BytesRemaining (snd (g x (snd (f r)))) \<le> BytesRemaining r" for x
    using assms unfolding parse_advances_def by (meson order.trans)
  moreover have "BytesRemaining (snd (f r)) \<le> BytesRemaining r" using assms by (simp add: parse_advances_def)
  ultimately show "BytesRemaining (snd (parse_bind f g r)) \<le> BytesRemaining r"
    unfolding parse_bind_def by (cases "f r"; cases "fst (f r)") simp_all
qed

lemma parse_advances_pure [advance_intros]: "parse_advances (parse_return x)" "parse_advances (parse_fail m)"
  by (simp_all add: parse_advances_def parse_return_def parse_fail_def)

lemma parse_advances_state: "(\<And>r. parse_advances (f r)) \<Longrightarrow> parse_advances (\<lambda>r. f r r)"
  by (simp add: parse_advances_def)

lemma ack_advances_bind [advance_intros]:
  assumes "ack_advances f" "\<And>x. ack_advances (g x)"
  shows "ack_advances (ack_bind f g)"
  unfolding ack_advances_def
proof (intro allI)
  fix s r
  have "BytesRemaining (snd (snd (g x (s', snd (snd (f (s, r))))))) \<le> BytesRemaining r" for x s'
    using assms unfolding ack_advances_def by (meson order.trans)
  moreover have "BytesRemaining (snd (snd (f (s, r)))) \<le> BytesRemaining r" using assms by (simp add: ack_advances_def)
  ultimately show "BytesRemaining (snd (snd (ack_bind f g (s, r)))) \<le> BytesRemaining r"
    unfolding ack_bind_def by (cases "f (s, r)"; cases "fst (f (s, r))") simp_all
qed

lemma ack_advances_read [advance_intros]: "read_advances f \<Longrightarrow> ack_advances (ack_read m f)"
  unfolding read_advances_def ack_advances_def ack_read_def try_read_def
  by (auto split: prod.splits option.splits) (metis snd_conv)+

lemma ack_advances_pure [advance_intros]:
  "ack_advances (ack_return x)" "ack_advances (ack_fail m)" "ack_advances (ack_modify h)" "ack_advances (ack_visit cb)"
  by (simp_all add: ack_advances_def ack_return_def ack_fail_def ack_modify_def ack_visit_def split: prod.splits)

lemma ack_advances_state: "(\<And>st. ack_advances (f st)) \<Longrightarrow> ack_advances (\<lambda>st. f st st)"
  by (simp add: ack_advances_def)

lemma advance_if [advance_intros]:
  "(b \<Longrightarrow> parse_advances f) \<Longrightarrow> (\<not> b \<Longrightarrow> parse_advances g) \<Longrightarrow> parse_advances (if b then f else g)"
  "(b \<Longrightarrow> ack_advances f') \<Longrightarrow> (\<not> b \<Longrightarrow> ack_advances g') \<Longrightarrow> ack_advances (if b then f' else g')"
  by simp_all

lemma read_advances_readers [advance_intros]:
  "read_advances ReadUInt8" "read_advances ReadUInt16" "read_advances ReadUInt32" "read_advances ReadUInt64" "read_advances (ReadBytesToUInt64 n)"
  "read_advances ReadUFloat16" "read_advances ReadStringPiece16"
proof -
  show "read_advances ReadUInt8" "read_advances ReadUInt32" "read_advances ReadUInt64"
    unfolding ReadUInt8_def ReadUInt32_def ReadUInt64_def Let_def by (intro advance_intros)+
  show 16: "read_advances ReadUInt16" unfolding ReadUInt16_def Let_def by (intro advance_intros)+
  show "read_advances ReadUFloat16" "read_advances ReadStringPiece16"
    unfolding ReadUFloat16_def ReadStringPiece16_def by (intro advance_intros 16)+
  have "read_advances (read_bind (ReadBytes n) (\<lambda>bs. read_return (h bs)))" for h :: "u8 list \<Rightarrow> u64"
    by (intro advance_intros)
  then show "read_advances (ReadBytesToUInt64 n)" by (simp add: read_advances_def ReadBytesToUInt64_def)
qed

lemma parse_advances_rest [advance_intros]: "parse_advances (\<lambda>r. try_read m (ReadStringPiece (h r)) r)"
  by (rule parse_advances_state) (intro advance_intros)

lemma ack_advances_timestamp [advance_intros]: "ack_advances (\<lambda>st. add_timestamp t d (h st) st)"
  unfolding add_timestamp_def by (rule ack_advances_state) (intro advance_intros)

lemma parse_advances_frames [advance_intros]:
  "parse_advances (ProcessStreamFrame version ty)" "parse_advances (ProcessRstStreamFrame version)"
  "parse_advances ProcessConnectionCloseFrame" "parse_advances ProcessGoAwayFrame" "parse_advances ProcessWindowUpdateFrame"
  "parse_advances ProcessBlockedFrame" "parse_advances (ProcessStopWaitingFrame len pn)"
  unfolding ProcessStreamFrame_def ProcessRstStreamFrame_def ProcessConnectionCloseFrame_def ProcessGoAwayFrame_def
    ProcessWindowUpdateFrame_def ProcessBlockedFrame_def ProcessStopWaitingFrame_def case_prod_unfold
  by (intro advance_intros)+

lemma ack_advances_blocks [advance_intros]: "ack_advances (process_ack_blocks vis inc len n first_received)"
proof (induction n arbitrary: first_received)
  case (Suc n)
  show ?case unfolding process_ack_blocks.simps Let_def report_range_def by (intro advance_intros Suc)
qed (simp add: advance_intros)

lemma ack_advances_timestamps [advance_intros]: "ack_advances (process_timestamp_deltas t n)"
proof (induction n)
  case (Suc n)
  show ?case unfolding process_timestamp_deltas.simps by (intro advance_intros Suc)
qed (simp add: advance_intros)

lemma ack_advances_ProcessAckFrame: "ack_advances (ProcessAckFrame version inc t vis ty)"
  unfolding ProcessAckFrame_def ProcessTimestampsInAckFrame_def Let_def
  by (intro advance_intros)

lemma padding_loop_advances: "BytesRemaining (snd (padding_loop r n)) \<le> BytesRemaining r"
proof (induction r n rule: padding_loop.induct)
  case (1 r n)
  have "BytesRemaining (snd (ReadBytes 1 r)) \<le> BytesRemaining r"
    using read_advances_ReadBytes by (simp add: read_advances_def)
  then show ?case using 1 by (simp add: padding_loop.simps [of r]) (meson order.trans)
qed

lemma ProcessPaddingFrame_advances: "BytesRemaining (snd (ProcessPaddingFrame version r)) \<le> BytesRemaining r"
  using padding_loop_advances [of r 1]
  by (simp add: ProcessPaddingFrame_def case_prod_unfold) (simp add: ReadRemainingPayload_def BytesRemaining_def)

definition step_advances :: "('v, 'z) frame_step \<Rightarrow> bool" where
  "step_advances f \<longleftrightarrow> (\<forall>s r. BytesRemaining (snd (snd (f (s, r)))) \<le> BytesRemaining r)"

lemma step_advances_basic [advance_intros]: "step_advances (fail_frame vis err m)" "step_advances (visit_frame cb)"
  by (simp_all add: step_advances_def fail_frame_def visit_frame_def split: prod.splits)

lemma step_advances_parse [advance_intros]: "parse_advances f \<Longrightarrow> step_advances (parse_frame vis err f cb)"
  unfolding step_advances_def parse_advances_def parse_frame_def fail_frame_def visit_frame_def
  by (auto split: prod.splits sum.splits) (metis snd_conv)+

lemma step_advances_padding [advance_intros]:
  "step_advances (\<lambda>(s, r). case ProcessPaddingFrame version r of (frame, r') \<Rightarrow> visit_frame (cb frame) (s, r'))"
  using ProcessPaddingFrame_advances [of version]
  by (simp add: step_advances_def visit_frame_def case_prod_unfold)

lemma step_advances_ack [advance_intros]: "step_advances (process_ack fp vis ty)"
  unfolding step_advances_def
proof (intro allI)
  fix s r
  let ?f = "ProcessAckFrame (fp_version fp) (fp_incremental fp) (fp_creation_time fp) vis ty"
  obtain res st r' where f: "?f (\<lparr>as_visitor = fr_visitor s, as_frame = QuicAckFrame, as_last_timestamp = fr_last_timestamp s\<rparr>, r) = (res, st, r')"
    by (metis prod_cases3)
  then have "BytesRemaining r' \<le> BytesRemaining r"
    using ack_advances_ProcessAckFrame unfolding ack_advances_def by (metis snd_conv)
  then show "BytesRemaining (snd (snd (process_ack fp vis ty (s, r)))) \<le> BytesRemaining r"
    by (simp add: process_ack_def f Let_def visit_frame_def fail_frame_def split: sum.splits prod.splits)
qed

lemma step_advances_if [advance_intros]:
  "step_advances f \<Longrightarrow> step_advances g \<Longrightarrow> step_advances (if b then f else g)"
  by simp

lemma step_advances_dispatch: "step_advances (process_special fp vis ty)" "step_advances (process_regular fp vis len pn ty)"
  unfolding process_special_def process_regular_def by (intro advance_intros)+

lemma process_frame_advances:
  assumes "process_frame fp vis len pn (s, r) = (Continue, s', r')"
  shows "BytesRemaining r' < BytesRemaining r"
proof (cases "CanRead 1 r")
  case True
  let ?r = "r\<lparr>r_pos := r_pos r + 1\<rparr>"
  have special: "BytesRemaining (snd (snd (process_special fp vis ty (s, ?r)))) \<le> BytesRemaining ?r" for ty
    using step_advances_dispatch(1) unfolding step_advances_def by blast
  have regular: "BytesRemaining (snd (snd (process_regular fp vis len pn ty (s, ?r)))) \<le> BytesRemaining ?r" for ty
    using step_advances_dispatch(2) unfolding step_advances_def by blast
  let ?ty = "hd (take 1 (drop (r_pos r) (r_data r)))"
  have "BytesRemaining r' \<le> BytesRemaining ?r"
    using assms special [of ?ty] regular [of ?ty] True
    by (simp add: process_frame_def ReadBytes_def Let_def split: if_splits)
  then show ?thesis using True by (simp add: BytesRemaining_def CanRead_def)
next
  case False
  then show ?thesis using assms by (simp add: process_frame_def ReadBytes_def fail_frame_def RaiseError_def)
qed

function process_frames ::
  "framer_params \<Rightarrow> ('v, 'y) frame_visitor_scheme \<Rightarrow> nat \<Rightarrow> u64 \<Rightarrow> ('v, 'z) framer_scheme \<Rightarrow> quic_data_reader
    \<Rightarrow> bool \<times> ('v, 'z) framer_scheme \<times> quic_data_reader" where
  "process_frames fp vis packet_number_length packet_number s r =
     (if IsDoneReading r then (True, s, r)
      else case process_frame fp vis packet_number_length packet_number (s, r) of
             (Return ret, s', r') \<Rightarrow> (ret, s', r')
           | (Continue, s', r') \<Rightarrow> process_frames fp vis packet_number_length packet_number s' r')"
  by pat_completeness auto
termination
  by (relation "measure (\<lambda>(_, _, _, _, _, r). BytesRemaining r)") (auto dest: process_frame_advances [OF sym])

declare process_frames.simps [simp del]

definition ProcessFrameData ::
  "framer_params \<Rightarrow> ('v, 'y) frame_visitor_scheme \<Rightarrow> nat \<Rightarrow> u64 \<Rightarrow> ('v, 'z) framer_scheme \<Rightarrow> quic_data_reader
    \<Rightarrow> bool \<times> ('v, 'z) framer_scheme \<times> quic_data_reader" where
  "ProcessFrameData fp vis packet_number_length packet_number s r =
     (if IsDoneReading r then
        (case RaiseError vis QUIC_MISSING_PAYLOAD (s\<lparr>fr_detailed_error := ''Packet has no frames.''\<rparr>) of (ret, s') \<Rightarrow> (ret, s', r))
      else process_frames fp vis packet_number_length packet_number s r)"

section \<open>Writing\<close>

definition AppendTypeByte :: "framer_params \<Rightarrow> quic_frame \<Rightarrow> bool \<Rightarrow> append_op" where
  "AppendTypeByte fp frame no_stream_frame_length =
     (case frame of
        STREAM_FRAME f \<Rightarrow> AppendStreamTypeByte (fp_version fp) f no_stream_frame_length
      | ACK_FRAME f \<Rightarrow> append_done
      | MTU_DISCOVERY_FRAME \<Rightarrow> try_write None (WriteUInt8 (frame_type_code PING_FRAME))
      | _ \<Rightarrow> try_write None (WriteUInt8 (frame_type_code frame)))"

definition append_frame :: "framer_params \<Rightarrow> nat \<Rightarrow> u64 \<Rightarrow> quic_frame \<Rightarrow> bool \<Rightarrow> append_op" where
  "append_frame fp packet_number_length packet_number frame no_stream_frame_length =
     (case frame of
        PADDING_FRAME f \<Rightarrow> AppendPaddingFrame (fp_version fp) f
      | STREAM_FRAME f \<Rightarrow> AppendStreamFrame (fp_version fp) (fp_producer fp) f no_stream_frame_length
      | ACK_FRAME f \<Rightarrow> AppendAckFrameAndTypeByte (fp_version fp) (fp_incremental fp) (fp_write_at fp) (fp_creation_time fp) f
      | STOP_WAITING_FRAME f \<Rightarrow> AppendStopWaitingFrame packet_number_length packet_number f
      | MTU_DISCOVERY_FRAME \<Rightarrow> append_done
      | PING_FRAME \<Rightarrow> append_done
      | RST_STREAM_FRAME f \<Rightarrow> AppendRstStreamFrame (fp_version fp) f
      | CONNECTION_CLOSE_FRAME f \<Rightarrow> AppendConnectionCloseFrame f
      | GOAWAY_FRAME f \<Rightarrow> AppendGoAwayFrame f
      | WINDOW_UPDATE_FRAME f \<Rightarrow> AppendWindowUpdateFrame f
      | BLOCKED_FRAME f \<Rightarrow> AppendBlockedFrame f)"

text \<open>Only the last frame of a packet leaves out the length of its stream data.\<close>

fun append_frames :: "framer_params \<Rightarrow> nat \<Rightarrow> u64 \<Rightarrow> quic_frame list \<Rightarrow> append_op" where
  "append_frames fp packet_number_length packet_number [] = append_done"
| "append_frames fp packet_number_length packet_number (frame # frames) =
     append_then (AppendTypeByte fp frame (frames = []))
    (append_then (append_frame fp packet_number_length packet_number frame (frames = []))
                 (append_frames fp packet_number_length packet_number frames))"

section \<open>Lengths\<close>

definition ComputeFrameLength :: "framer_params \<Rightarrow> quic_frame \<Rightarrow> bool \<Rightarrow> nat \<Rightarrow> nat" where
  "ComputeFrameLength fp frame last_frame_in_packet packet_number_length =
     (case frame of
        STREAM_FRAME f \<Rightarrow>
          GetMinStreamFrameSize (fp_version fp) (sf_stream_id f) (sf_offset f) last_frame_in_packet + length (sf_data f)
      | ACK_FRAME f \<Rightarrow> GetAckFrameSize (fp_version fp) (fp_incremental fp) f
      | STOP_WAITING_FRAME f \<Rightarrow> GetStopWaitingFrameSize (fp_version fp) packet_number_length
      | MTU_DISCOVERY_FRAME \<Rightarrow> kQuicFrameTypeSize
      | PING_FRAME \<Rightarrow> kQuicFrameTypeSize
      | RST_STREAM_FRAME f \<Rightarrow> GetRstStreamFrameSize
      | CONNECTION_CLOSE_FRAME f \<Rightarrow> GetMinConnectionCloseFrameSize + length (TruncateErrorString (cc_error_details f))
      | GOAWAY_FRAME f \<Rightarrow> GetMinGoAwayFrameSize + length (TruncateErrorString (ga_reason_phrase f))
      | WINDOW_UPDATE_FRAME f \<Rightarrow> GetWindowUpdateFrameSize
      | BLOCKED_FRAME f \<Rightarrow> GetBlockedFrameSize
      | PADDING_FRAME f \<Rightarrow> 0)"

text \<open>
  The conversion of a negative byte count other than -1 to \<open>size_t\<close> is a value beyond every
  packet, so that the free bytes are returned.
\<close>

definition GetSerializedFrameLength :: "framer_params \<Rightarrow> quic_frame \<Rightarrow> nat \<Rightarrow> bool \<Rightarrow> bool \<Rightarrow> nat \<Rightarrow> nat" where
  "GetSerializedFrameLength fp frame free_bytes first_frame last_frame packet_number_length =
     (case frame of
        PADDING_FRAME f \<Rightarrow>
          (if num_padding_bytes f = -1 then free_bytes
           else let n = unat (to_u64 (num_padding_bytes f)) in if free_bytes < n then free_bytes else n)
      | _ \<Rightarrow>
          let frame_len = ComputeFrameLength fp frame last_frame packet_number_length in
          if frame_len \<le> free_bytes then frame_len
          else if \<not> first_frame then 0
          else
            let can_truncate = (case frame of ACK_FRAME _ \<Rightarrow> True | _ \<Rightarrow> False) \<and>
                  free_bytes \<ge> GetMinAckFrameSize (fp_version fp) PACKET_6BYTE_PACKET_NUMBER
            in if can_truncate then free_bytes else 0)"

section \<open>What a frame looks like on the wire\<close>

definition padding_count :: "framer_params \<Rightarrow> quic_padding_frame \<Rightarrow> quic_data_writer \<Rightarrow> nat" where
  "padding_count fp f w =
     (if fp_version fp \<le> QUIC_VERSION_37 \<or> num_padding_bytes f < 0 then w_room w else nat (num_padding_bytes f))"

definition frame_bytes :: "framer_params \<Rightarrow> nat \<Rightarrow> u64 \<Rightarrow> quic_frame \<Rightarrow> bool \<Rightarrow> quic_data_writer \<Rightarrow> u8 list" where
  "frame_bytes fp len pn frame no_len w =
     (let e = w_endianness w; version = fp_version fp in
      case frame of
        PADDING_FRAME f \<Rightarrow> replicate (padding_count fp f w) 0
      | STREAM_FRAME f \<Rightarrow>
          stream_type_byte version (sf_fin f) no_len (GetStreamOffsetSize version (sf_offset f)) (GetStreamIdSize (sf_stream_id f))
            # stream_frame_bytes e version f no_len
      | ACK_FRAME f \<Rightarrow> ack_frame_bytes e version f (ack_blocks_for version f w)
      | STOP_WAITING_FRAME f \<Rightarrow> 6 # stop_waiting_bytes e len pn f
      | MTU_DISCOVERY_FRAME \<Rightarrow> [7]
      | PING_FRAME \<Rightarrow> [7]
      | RST_STREAM_FRAME f \<Rightarrow> 1 # rst_stream_bytes e version f
      | CONNECTION_CLOSE_FRAME f \<Rightarrow> 2 # connection_close_bytes e f
      | GOAWAY_FRAME f \<Rightarrow> 3 # goaway_bytes e f
      | WINDOW_UPDATE_FRAME f \<Rightarrow> 4 # window_update_bytes e f
      | BLOCKED_FRAME f \<Rightarrow> 5 # blocked_bytes e f)"

text \<open>When a frame can be sent as it is, and is read back as it was.\<close>

definition frame_ok :: "framer_params \<Rightarrow> nat \<Rightarrow> u64 \<Rightarrow> quic_frame \<Rightarrow> quic_data_writer \<Rightarrow> bool" where
  "frame_ok fp len pn frame w \<longleftrightarrow>
     (case frame of
        PADDING_FRAME f \<Rightarrow> num_padding_bytes f \<noteq> 0
      | STREAM_FRAME f \<Rightarrow> length (sf_data f) \<le> 65535 \<and> fp_producer fp = None
      | ACK_FRAME f \<Rightarrow> fp_incremental fp \<and> ack_wellformed (fp_version fp) f \<and> ack_fits (fp_version fp) f w \<and>
          ack_untruncated (fp_version fp) f w
      | STOP_WAITING_FRAME f \<Rightarrow> len \<in> {1, 2, 4, 6} \<and> sw_least_unacked f \<le> pn \<and> unat (pn - sw_least_unacked f) < 2 ^ (len * 8)
      | RST_STREAM_FRAME f \<Rightarrow> rst_error_code f \<le> QUIC_STREAM_LAST_ERROR
      | CONNECTION_CLOSE_FRAME f \<Rightarrow> cc_error_code f \<le> QUIC_LAST_ERROR \<and> length (cc_error_details f) \<le> 256
      | GOAWAY_FRAME f \<Rightarrow> ga_error_code f \<le> QUIC_LAST_ERROR \<and> length (ga_reason_phrase f) \<le> 256
      | _ \<Rightarrow> True)"

lemma AppendPadding_put:
  assumes "w_ok w" "0 < padding_count fp f w" "padding_count fp f w \<le> w_room w" "num_padding_bytes f \<noteq> 0"
  shows "append_then (try_write None (WriteUInt8 0)) (AppendPaddingFrame (fp_version fp) f) w =
    (Appended, w_put (replicate (padding_count fp f w) 0) w)"
proof -
  let ?w = "w_put [0] w"
  obtain k where k: "padding_count fp f w = Suc k" using assms(2) by (cases "padding_count fp f w") auto
  have "WriteUInt8 0 w = (True, ?w)"
    using appends_fits [OF appends_WriteUInt8 [of "w_endianness w" 0] assms(1)] assms(2,3) by simp
  then have step: "append_then (try_write None (WriteUInt8 0)) (AppendPaddingFrame (fp_version fp) f) w =
      AppendPaddingFrame (fp_version fp) f ?w" by (simp add: append_then_def try_write_def)
  have w: "w_ok ?w" using assms(1,3) k by simp
  have pad: "w_put (replicate k 0) ?w = w_put (replicate (Suc k) 0) w"
    using w_put_put [of w "[0]" "replicate k 0"] assms(1,3) k by simp
  show ?thesis
  proof (cases "fp_version fp \<le> QUIC_VERSION_37 \<or> num_padding_bytes f < 0")
    case True
    then have "AppendPaddingFrame (fp_version fp) f ?w = (Appended, WritePadding ?w)"
      using assms(4) by (auto simp: AppendPaddingFrame_def)
    moreover have "w_room ?w = k" using k True by (simp add: padding_count_def)
    ultimately show ?thesis unfolding step k using WritePadding_put [OF w] pad by simp
  next
    case False
    then have n: "nat (num_padding_bytes f - 1) = k" using k by (simp add: padding_count_def)
    have "appends (w_endianness w) (WritePaddingBytes k) (replicate k 0)" by (rule appends_WritePaddingBytes)
    then have "WritePaddingBytes k ?w = (True, w_put (replicate k 0) ?w)"
      using appends_fits [of _ "WritePaddingBytes k" "replicate k 0" ?w] w assms(3) k by simp
    then show ?thesis unfolding step k using False assms(4) pad n
      by (simp add: AppendPaddingFrame_def try_write_def)
  qed
qed

end
