(* ===== verification/Framer_Payload.thy ===== *)
theory Framer_Payload
  imports Framer_Dispatch
begin

text \<open>
  The payload of a packet, written and read: the frames BuildDataPacket appends are the frames
  ProcessFrameData delivers. The contract of one frame is \<open>delivered\<close> on the reading side and the
  bytes of \<open>frame_bytes\<close> on the writing side; the codecs of Framer\_Frames and the ACK encoding of
  Framer\_Ack discharge it. Also here: every error is reported to the visitor, the frame loop ends,
  and the lengths of ComputeFrameLength are those of the bytes written.
\<close>

section \<open>Type bytes\<close>

lemma stream_type_byte_special:
  assumes id: "id_len \<in> {1, 2, 3, 4}"
    and off: "off_len \<in> (if version = QUIC_VERSION_41 then {0, 2, 4, 8} else {0, 2, 3, 4, 5, 6, 7, 8})"
  shows "stream_type_byte version fin no_len off_len id_len AND 0xe0 \<noteq> 0 \<and>
    is_stream_type version (stream_type_byte version fin no_len off_len id_len)"
proof (cases "version = QUIC_VERSION_41")
  case True
  then have "off_len \<in> {0, 2, 4, 8}" using off by simp
  from id this show ?thesis
    by (elim insertE emptyE; cases fin; cases no_len; hypsubst)
      (simp_all add: True is_stream_type_def frame_mask_defs stream_type_byte_def SetBit_def SetBits_def
        GetMaskFromNumBits_def Let_def)
next
  case False
  then have "off_len \<in> {0, 2, 3, 4, 5, 6, 7, 8}" using off by simp
  from id this show ?thesis
    by (elim insertE emptyE; cases fin; cases no_len; hypsubst)
      (simp_all add: False is_stream_type_def frame_mask_defs stream_type_byte_def Let_def)
qed

lemma stream_frame_type:
  fixes f :: quic_stream_frame
  defines "t \<equiv> \<lambda>version no_len. stream_type_byte version (sf_fin f) no_len (GetStreamOffsetSize version (sf_offset f)) (GetStreamIdSize (sf_stream_id f))"
  shows "t version no_len AND 0xe0 \<noteq> 0" "is_stream_type version (t version no_len)"
  using stream_type_byte_special [of "GetStreamIdSize (sf_stream_id f)" "GetStreamOffsetSize version (sf_offset f)" version]
  by (simp_all add: t_def GetStreamIdSize_eq GetStreamOffsetSize_eq)

lemma ack_frame_type:
  fixes x y :: u64
  defines "t \<equiv> \<lambda>version b. ack_type_byte version b (GetMinPacketNumberLength version x) (GetMinPacketNumberLength version y)"
  shows "t version b AND 0xe0 \<noteq> 0 \<and> \<not> is_stream_type version (t version b) \<and> is_ack_type version (t version b)"
  unfolding t_def GetMinPacketNumberLength_cases
  by (cases b; cases "version = QUIC_VERSION_41")
    (simp_all add: ack_type_byte_def is_stream_type_def is_ack_type_def frame_mask_defs SetBit_def SetBits_def
      GetMaskFromNumBits_def GetPacketNumberFlags_def packet_length_defs packet_flag_defs Let_def)

section \<open>A stream frame to the end of the packet\<close>

lemma ReadStringPiece_all:
  "r_rest r = bs \<Longrightarrow> ReadStringPiece (BytesRemaining r) r = (Some bs, r_skip (length bs) r)"
  by (auto simp: ReadStringPiece_eq BytesRemaining_rest intro: readsD [OF reads_ReadBytes_self])

lemma ProcessStreamFrame_last:
  assumes "length (sf_data f) \<le> 65535" "r_endianness r = e" "r_rest r = stream_frame_bytes e version f True"
  shows "ProcessStreamFrame version (stream_type_byte version (sf_fin f) True (GetStreamOffsetSize version (sf_offset f))
      (GetStreamIdSize (sf_stream_id f))) r = (Inr f, r_skip (length (stream_frame_bytes e version f True)) r)"
proof -
  let ?id = "uint_bytes e (GetStreamIdSize (sf_stream_id f)) (unat (sf_stream_id f))"
  let ?off = "uint_bytes e (GetStreamOffsetSize version (sf_offset f)) (unat (sf_offset f))"
  let ?r1 = "r_skip (length ?id) r" and ?r2 = "r_skip (length ?off) (r_skip (length ?id) r)"
  have rest: "r_rest r = ?id @ ?off @ sf_data f" using assms(3) by (simp add: stream_frame_bytes_def)
  have 1: "ReadBytesToUInt64 (GetStreamIdSize (sf_stream_id f)) r = (Some (ucast (sf_stream_id f)), ?r1)"
    using readsD [OF reads_stream_id assms(2) rest] .
  have r1: "r_rest ?r1 = ?off @ sf_data f" using r_rest_skip [OF rest] .
  have 2: "ReadBytesToUInt64 (GetStreamOffsetSize version (sf_offset f)) ?r1 = (Some (sf_offset f), ?r2)"
    using readsD [OF reads_stream_offset _ r1] assms(2) by simp
  have 3: "ReadStringPiece (BytesRemaining ?r2) ?r2 = (Some (sf_data f), r_skip (length (sf_data f)) ?r2)"
    by (rule ReadStringPiece_all) (rule r_rest_skip [OF r1])
  have "(\<lparr>sf_stream_id = ucast (ucast (sf_stream_id f) :: u64), sf_fin = sf_fin f,
      sf_offset = sf_offset f, sf_data = take (length (sf_data f) mod 65536) (sf_data f)\<rparr> :: quic_stream_frame) = f"
    using assms(1) by (cases f) (simp add: ucast_u32_roundtrip)
  then show ?thesis unfolding ProcessStreamFrame_def stream_flags_frame
    using 1 2 3 by (simp add: parse_bind_def try_read_def parse_return_def stream_frame_bytes_def add.assoc)
qed

section \<open>What is delivered\<close>

definition deliver_frame :: "('v, 'y) frame_visitor_scheme \<Rightarrow> quic_frame \<Rightarrow> 'v \<Rightarrow> bool \<times> 'v" where
  "deliver_frame vis frame v =
     (case frame of
        PADDING_FRAME f \<Rightarrow> OnPaddingFrame vis f v
      | STREAM_FRAME f \<Rightarrow> OnStreamFrame vis f v
      | ACK_FRAME f \<Rightarrow>
          (True, report_all vis (flagged (rev (af_packets f)))
             (snd (OnAckFrameStart vis (LargestAcked f) (received_ack_delay f) v)))
      | STOP_WAITING_FRAME f \<Rightarrow> OnStopWaitingFrame vis f v
      | MTU_DISCOVERY_FRAME \<Rightarrow> OnPingFrame vis v
      | PING_FRAME \<Rightarrow> OnPingFrame vis v
      | RST_STREAM_FRAME f \<Rightarrow> OnRstStreamFrame vis f v
      | CONNECTION_CLOSE_FRAME f \<Rightarrow> OnConnectionCloseFrame vis f v
      | GOAWAY_FRAME f \<Rightarrow> OnGoAwayFrame vis f v
      | WINDOW_UPDATE_FRAME f \<Rightarrow> OnWindowUpdateFrame vis f v
      | BLOCKED_FRAME f \<Rightarrow> OnBlockedFrame vis f v)"

text \<open>The visitor stops the delivery by answering false.\<close>

fun deliver_frames :: "('v, 'y) frame_visitor_scheme \<Rightarrow> quic_frame list \<Rightarrow> 'v \<Rightarrow> 'v" where
  "deliver_frames vis [] v = v"
| "deliver_frames vis (frame # frames) v =
     (case deliver_frame vis frame v of (ok, v') \<Rightarrow> if ok then deliver_frames vis frames v' else v')"

definition frame_padded :: "framer_params \<Rightarrow> quic_frame \<Rightarrow> quic_data_writer \<Rightarrow> quic_frame" where
  "frame_padded fp frame w =
     (case frame of PADDING_FRAME f \<Rightarrow> PADDING_FRAME \<lparr>num_padding_bytes = int (padding_count fp f w)\<rparr> | _ \<Rightarrow> frame)"

abbreviation is_padding :: "quic_frame \<Rightarrow> bool" where
  "is_padding frame \<equiv> (\<exists>f. frame = PADDING_FRAME f)"

definition delivered ::
  "('v, 'y) frame_visitor_scheme \<Rightarrow> quic_frame \<Rightarrow> nat \<Rightarrow> ('v, 'z) framer_scheme \<Rightarrow> quic_data_reader
    \<Rightarrow> frame_outcome \<times> ('v, 'z) framer_scheme \<times> quic_data_reader" where
  "delivered vis frame n s r =
     (case deliver_frame vis frame (fr_visitor s) of
        (ok, v) \<Rightarrow> (if ok then Continue else Return True, s\<lparr>fr_visitor := v\<rparr>, r_skip n r))"

lemma process_frame_type:
  assumes "r_rest r = b # bs"
  shows "process_frame fp vis len pn (s, r) =
     (if b AND 0xe0 \<noteq> 0 then process_special fp vis b (s, r_skip 1 r)
      else process_regular fp vis len pn b (s, r_skip 1 r))"
  using readsD [OF reads_ReadBytes [of "[b]" 1], of r "r_endianness r" bs] assms
  by (simp add: process_frame_def Let_def frame_mask_defs)

lemma r_rest_tail: "r_rest r = b # bs \<Longrightarrow> r_rest (r_skip 1 r) = bs"
  using r_rest_skip [of r "[b]" bs] by simp

lemma delivered_parse:
  assumes "process (r_skip 1 r) = (Inr x, r_skip n r)" "\<And>v. deliver_frame vis frame v = callback x v"
  shows "parse_frame vis err process callback (s, r_skip 1 r) = delivered vis frame n s r"
  using assms by (simp add: parse_frame_def visit_frame_def delivered_def)

lemma delivered_codec:
  assumes "parsing e process bs x" "r_endianness r = e" "r_rest r = b # bs @ rest" "\<And>v. deliver_frame vis frame v = callback x v"
  shows "parse_frame vis err process callback (s, r_skip 1 r) = delivered vis frame (Suc (length bs)) s r"
proof (rule delivered_parse [where x = x])
  have "r_rest (r_skip 1 r) = bs @ rest" using r_rest_tail assms(3) by blast
  then show "process (r_skip 1 r) = (Inr x, r_skip (Suc (length bs)) r)"
    using parsingD [OF assms(1), of "r_skip 1 r" rest] assms(2) by simp
qed (rule assms(4))

lemma delivered_stream:
  assumes "length (sf_data f) \<le> 65535" "r_endianness r = e"
    "r_rest r = stream_type_byte (fp_version fp) (sf_fin f) no_len (GetStreamOffsetSize (fp_version fp) (sf_offset f))
       (GetStreamIdSize (sf_stream_id f)) # stream_frame_bytes e (fp_version fp) f no_len @ rest"
    "no_len \<longrightarrow> rest = []"
  shows "process_frame fp vis len pn (s, r) =
    delivered vis (STREAM_FRAME f) (Suc (length (stream_frame_bytes e (fp_version fp) f no_len))) s r"
proof -
  note ty = stream_frame_type [of "fp_version fp" f no_len]
  have del: "\<And>v. deliver_frame vis (STREAM_FRAME f) v = OnStreamFrame vis f v" by (simp add: deliver_frame_def)
  have step: "process_frame fp vis len pn (s, r) = parse_frame vis QUIC_INVALID_STREAM_DATA
      (ProcessStreamFrame (fp_version fp) (stream_type_byte (fp_version fp) (sf_fin f) no_len
        (GetStreamOffsetSize (fp_version fp) (sf_offset f)) (GetStreamIdSize (sf_stream_id f)))) (OnStreamFrame vis) (s, r_skip 1 r)"
    using process_frame_type [OF assms(3), of fp vis len pn s] ty by (simp add: process_special_def)
  show ?thesis
  proof (cases no_len)
    case True
    then have "r_rest (r_skip 1 r) = stream_frame_bytes e (fp_version fp) f True"
      using assms(3,4) r_rest_tail by fastforce
    then have "ProcessStreamFrame (fp_version fp) (stream_type_byte (fp_version fp) (sf_fin f) True
        (GetStreamOffsetSize (fp_version fp) (sf_offset f)) (GetStreamIdSize (sf_stream_id f))) (r_skip 1 r) =
        (Inr f, r_skip (Suc (length (stream_frame_bytes e (fp_version fp) f True))) r)"
      using ProcessStreamFrame_last [of f "r_skip 1 r" e "fp_version fp"] assms(1,2) by simp
    then show ?thesis unfolding step using True del by (intro delivered_parse [where x = f]) simp_all
  next
    case False
    then have n: "no_len = False" by simp
    show ?thesis unfolding step n
      by (rule delivered_codec [OF parsing_ProcessStreamFrame [OF assms(1) refl] assms(2)]) (use assms(3) n del in simp_all)
  qed
qed

lemma keep_timestamp: "s\<lparr>fr_visitor := v, fr_last_timestamp := fr_last_timestamp s\<rparr> = s\<lparr>fr_visitor := v\<rparr>"
  by (cases s) simp

lemma delivered_ack:
  assumes wf: "ack_wellformed (fp_version fp) f" and vis: "accepting vis" and fits: "ack_fits (fp_version fp) f w"
    and all: "ack_untruncated (fp_version fp) f w" and inc: "fp_incremental fp"
    and r: "r_endianness r = e" "r_rest r = bs @ rest" and bs: "bs = ack_frame_bytes e (fp_version fp) f (ack_blocks_for (fp_version fp) f w)"
  shows "process_frame fp vis len pn (s, r) = delivered vis (ACK_FRAME f) (length bs) s r"
proof -
  let ?n = "ack_blocks_for (fp_version fp) f w"
  have f: "ack_header_size (fp_version fp) f \<le> w_room w" "w_room w < 2 ^ 31" "w_ok w"
    using fits by (simp_all add: ack_fits_def)
  have b: "?n \<le> num_ack_blocks (GetAckFrameInfo f)" "?n \<le> 255" using ack_blocks_for_bound [OF f] by simp_all
  note u = ack_ranges_untruncated [OF wf all]
  have cons: "bs = hd bs # ack_body e (fp_version fp) f ?n" unfolding bs by (simp add: ack_frame_bytes_def ack_body_def Let_def)
  have ty: "hd bs AND 0xe0 \<noteq> 0 \<and> \<not> is_stream_type (fp_version fp) (hd bs) \<and> is_ack_type (fp_version fp) (hd bs)"
    using ack_frame_type unfolding bs ack_frame_bytes_def Let_def by simp
  have hd: "r_rest r = hd bs # ack_body e (fp_version fp) f ?n @ rest" using r(2) cons by (metis append_Cons)
  let ?st = "\<lparr>as_visitor = fr_visitor s, as_frame = QuicAckFrame, as_last_timestamp = fr_last_timestamp s\<rparr>"
  have "ProcessAckFrame (fp_version fp) True (fp_creation_time fp) vis (hd bs) (?st, r_skip 1 r) =
      (Inr (), ?st\<lparr>as_visitor := ack_reported vis f ?n (as_visitor ?st)\<rparr>, r_skip (length (ack_body e (fp_version fp) f ?n)) (r_skip 1 r))"
    using ProcessAck_decodes [OF wf vis b u(2), of e "fp_creation_time fp" ?st, folded bs] r_rest_tail [OF hd] r(1)
    by (simp add: ack_parses_def)
  then have "process_frame fp vis len pn (s, r) =
      (Continue, s\<lparr>fr_visitor := ack_reported vis f ?n (fr_visitor s)\<rparr>, r_skip (length bs) r)"
    using process_frame_type [OF hd, of fp vis len pn s] keep_timestamp ty inc arg_cong [OF cons, of length]
    by (simp add: process_special_def process_ack_def Let_def)
  then show ?thesis by (simp add: delivered_def deliver_frame_def ack_reported_def u(1))
qed


lemma padding_run:
  assumes "rest = [] \<or> hd rest \<noteq> 0"
  shows "takeWhile (\<lambda>b. b = 0) (replicate k 0 @ rest :: u8 list) = replicate k 0"
  using assms by (cases rest) (simp_all add: takeWhile_append)

lemma delivered_padding:
  assumes r: "r_ok r" "r_rest r = replicate (Suc k) 0 @ rest"
    and rest: "rest = [] \<or> fp_version fp > QUIC_VERSION_37 \<and> hd rest \<noteq> 0"
  shows "process_frame fp vis len pn (s, r) =
    delivered vis (PADDING_FRAME \<lparr>num_padding_bytes = int (Suc k)\<rparr>) (Suc k) s r"
proof -
  let ?r = "r_skip 1 r"
  have tl: "r_rest ?r = replicate k 0 @ rest" using r_rest_tail [of r 0] r(2) by simp
  have ok: "r_ok ?r" using r by (simp add: r_ok_def r_rest_def) (metis drop_all list.distinct(1) not_less_eq_eq)
  have "ProcessPaddingFrame (fp_version fp) ?r = (\<lparr>num_padding_bytes = int (Suc k)\<rparr>, r_skip (Suc k) r)"
  proof (cases "fp_version fp \<le> QUIC_VERSION_37")
    case True
    then have "rest = []" using rest by auto
    moreover have "length (r_data r) = Suc (r_pos r + k)"
      using arg_cong [OF r(2), of length] r(1) \<open>rest = []\<close> by (simp add: r_rest_def r_ok_def)
    ultimately show ?thesis using True tl
      by (simp add: ProcessPaddingFrame_def BytesRemaining_rest ReadRemainingPayload_def)
  next
    case False
    have "rest = [] \<or> hd rest \<noteq> 0" using rest by auto
    then show ?thesis using False padding_loop_eq [OF ok, of 1] padding_run [of rest k]
      by (simp add: ProcessPaddingFrame_def tl [simplified])
  qed
  then show ?thesis
    using process_frame_type [of r 0 "replicate k 0 @ rest" fp vis len pn s] r(2)
    by (simp add: process_regular_def visit_frame_def delivered_def deliver_frame_def)
qed

section \<open>One frame\<close>

lemma regular_type: "b \<in> {1, 2, 3, 4, 5, 6, 7} \<Longrightarrow> (b :: u8) AND 0xe0 = 0"
  by auto

lemma regular_delivered:
  assumes "b \<in> {1, 2, 3, 4, 5, 6, 7}" "r_rest r = b # bs @ rest" "r_endianness r = e" "parsing e process bs x"
    "process_regular fp vis len pn b (s, r_skip 1 r) = parse_frame vis err process callback (s, r_skip 1 r)" "\<And>v. deliver_frame vis frame v = callback x v"
  shows "process_frame fp vis len pn (s, r) = delivered vis frame (Suc (length bs)) s r"
  using process_frame_type [OF assms(2), of fp vis len pn s] regular_type [OF assms(1)]
    delivered_codec [OF assms(4,3,2), where frame = frame and callback = callback and vis = vis and err = err and s = s] assms(5,6)
  by simp

lemma frame_delivered:
  assumes ok: "frame_ok fp len pn frame w" and vis: "accepting vis"
    and fp': "fp_version fp' = fp_version fp" "fp_incremental fp'"
    and w: "w_endianness w = e" and r: "r_ok r" "r_endianness r = e" "r_rest r = bs @ rest"
    and bs: "bs = frame_bytes fp len pn frame no_len w" "bs \<noteq> []" and last: "no_len \<longrightarrow> rest = []"
    and pad: "is_padding frame \<longrightarrow> rest = [] \<or> fp_version fp > QUIC_VERSION_37 \<and> hd rest \<noteq> 0"
  shows "process_frame fp' vis len pn (s, r) = delivered vis (frame_padded fp frame w) (length bs) s r"
proof -
  have regular: "process_frame fp' vis len pn (s, r) = process_regular fp' vis len pn b (s, r_skip 1 r)"
    if "b \<in> {1, 2, 3, 4, 5, 6, 7}" "r_rest r = b # bs'" for b bs'
    using process_frame_type [OF that(2), of fp' vis len pn s] regular_type [OF that(1)] by simp
  show ?thesis
  proof (cases frame)
    case (PADDING_FRAME f)
    obtain k where k: "padding_count fp f w = Suc k"
      using bs PADDING_FRAME by (cases "padding_count fp f w") (simp_all add: frame_bytes_def)
    show ?thesis using delivered_padding [of r k rest fp' vis len pn s] r bs pad PADDING_FRAME k fp'
      by (simp add: frame_bytes_def frame_padded_def)
  next
    case (STREAM_FRAME f)
    show ?thesis using delivered_stream [of f r e fp' no_len rest vis len pn s] r bs last STREAM_FRAME ok fp' w
      by (simp add: frame_bytes_def frame_padded_def frame_ok_def Let_def)
  next
    case (ACK_FRAME f)
    show ?thesis using delivered_ack [of fp' f vis w r e bs rest len pn s] r bs ACK_FRAME ok fp' w vis
      by (simp add: frame_bytes_def frame_padded_def frame_ok_def Let_def)
  next
    case (STOP_WAITING_FRAME f)
    let ?b = "stop_waiting_bytes e len pn f"
    have rest: "r_rest r = 6 # ?b @ rest" using r bs STOP_WAITING_FRAME w by (simp add: frame_bytes_def Let_def)
    have "process_frame fp' vis len pn (s, r) = delivered vis frame (Suc (length ?b)) s r"
      by (rule regular_delivered [OF _ rest r(2) stop_waiting.reads_back])
        (use ok fp' STOP_WAITING_FRAME in \<open>simp_all add: process_regular_def deliver_frame_def frame_ok_def\<close>)
    then show ?thesis using STOP_WAITING_FRAME bs w by (simp add: frame_padded_def frame_bytes_def Let_def)
  next
    case (RST_STREAM_FRAME f)
    let ?b = "rst_stream_bytes e (fp_version fp) f"
    have rest: "r_rest r = 1 # ?b @ rest" using r bs RST_STREAM_FRAME w by (simp add: frame_bytes_def Let_def)
    have "process_frame fp' vis len pn (s, r) = delivered vis frame (Suc (length ?b)) s r"
      by (rule regular_delivered [OF _ rest r(2) rst.reads_back])
        (use ok fp' RST_STREAM_FRAME in \<open>simp_all add: process_regular_def deliver_frame_def frame_ok_def\<close>)
    then show ?thesis using RST_STREAM_FRAME bs w by (simp add: frame_padded_def frame_bytes_def Let_def)
  next
    case (CONNECTION_CLOSE_FRAME f)
    let ?b = "connection_close_bytes e f"
    have rest: "r_rest r = 2 # ?b @ rest" using r bs CONNECTION_CLOSE_FRAME w by (simp add: frame_bytes_def Let_def)
    have "process_frame fp' vis len pn (s, r) = delivered vis frame (Suc (length ?b)) s r"
      by (rule regular_delivered [OF _ rest r(2) connection_close.reads_back])
        (use ok fp' CONNECTION_CLOSE_FRAME in \<open>simp_all add: process_regular_def deliver_frame_def frame_ok_def\<close>)
    then show ?thesis using CONNECTION_CLOSE_FRAME bs w by (simp add: frame_padded_def frame_bytes_def Let_def)
  next
    case (GOAWAY_FRAME f)
    let ?b = "goaway_bytes e f"
    have rest: "r_rest r = 3 # ?b @ rest" using r bs GOAWAY_FRAME w by (simp add: frame_bytes_def Let_def)
    have "process_frame fp' vis len pn (s, r) = delivered vis frame (Suc (length ?b)) s r"
      by (rule regular_delivered [OF _ rest r(2) goaway.reads_back])
        (use ok fp' GOAWAY_FRAME in \<open>simp_all add: process_regular_def deliver_frame_def frame_ok_def\<close>)
    then show ?thesis using GOAWAY_FRAME bs w by (simp add: frame_padded_def frame_bytes_def Let_def)
  next
    case (WINDOW_UPDATE_FRAME f)
    let ?b = "window_update_bytes e f"
    have rest: "r_rest r = 4 # ?b @ rest" using r bs WINDOW_UPDATE_FRAME w by (simp add: frame_bytes_def Let_def)
    have "process_frame fp' vis len pn (s, r) = delivered vis frame (Suc (length ?b)) s r"
      by (rule regular_delivered [OF _ rest r(2) window_update.reads_back])
        (use ok fp' WINDOW_UPDATE_FRAME in \<open>simp_all add: process_regular_def deliver_frame_def frame_ok_def\<close>)
    then show ?thesis using WINDOW_UPDATE_FRAME bs w by (simp add: frame_padded_def frame_bytes_def Let_def)
  next
    case (BLOCKED_FRAME f)
    let ?b = "blocked_bytes e f"
    have rest: "r_rest r = 5 # ?b @ rest" using r bs BLOCKED_FRAME w by (simp add: frame_bytes_def Let_def)
    have "process_frame fp' vis len pn (s, r) = delivered vis frame (Suc (length ?b)) s r"
      by (rule regular_delivered [OF _ rest r(2) blocked.reads_back])
        (use ok fp' BLOCKED_FRAME in \<open>simp_all add: process_regular_def deliver_frame_def frame_ok_def\<close>)
    then show ?thesis using BLOCKED_FRAME bs w by (simp add: frame_padded_def frame_bytes_def Let_def)
  next
    case PING_FRAME
    have "r_rest r = 7 # rest" using r bs PING_FRAME by (simp add: frame_bytes_def)
    from regular [OF _ this] PING_FRAME bs show ?thesis
      by (simp add: process_regular_def frame_padded_def deliver_frame_def frame_bytes_def delivered_def visit_frame_def)
  next
    case MTU_DISCOVERY_FRAME
    have "r_rest r = 7 # rest" using r bs MTU_DISCOVERY_FRAME by (simp add: frame_bytes_def)
    from regular [OF _ this] MTU_DISCOVERY_FRAME bs show ?thesis
      by (simp add: process_regular_def frame_padded_def deliver_frame_def frame_bytes_def delivered_def visit_frame_def)
  qed
qed

lemma appended_codec:
  assumes "appending e f bs" "w_ok w" "w_endianness w = e" "Suc (length bs) \<le> w_room w"
  shows "append_then (try_write None (WriteUInt8 b)) f w = (Appended, w_put (b # bs) w)"
  by (rule appendingD [OF _ assms(2,3)])
    (use appending_then [OF appending_try [OF appends_WriteUInt8] assms(1), of None b] assms(4) in simp_all)

lemma frame_appended:
  assumes ok: "frame_ok fp len pn frame w" and w: "w_ok w"
    and bs: "bs = frame_bytes fp len pn frame no_len w" "bs \<noteq> []" "length bs \<le> w_room w"
  shows "append_then (AppendTypeByte fp frame no_len) (append_frame fp len pn frame no_len) w = (Appended, w_put bs w)"
proof -
  let ?e = "w_endianness w"
  have codec: "append_then (AppendTypeByte fp frame no_len) (append_frame fp len pn frame no_len) w = (Appended, w_put bs w)"
    if "AppendTypeByte fp frame no_len = try_write None (WriteUInt8 b)" "bs = b # bs'"
      "appending ?e (append_frame fp len pn frame no_len) bs'" for b bs'
    using appended_codec [OF that(3) w refl, of b] that(1,2) bs(3) by simp
  note defs = AppendTypeByte_def append_frame_def frame_bytes_def frame_ok_def Let_def
  show ?thesis
  proof (cases frame)
    case (PADDING_FRAME f)
    then have "0 < padding_count fp f w" "padding_count fp f w \<le> w_room w" "num_padding_bytes f \<noteq> 0"
      using ok bs by (simp_all add: defs)
    from AppendPadding_put [OF w this] PADDING_FRAME bs show ?thesis by (simp add: defs)
  next
    case (STREAM_FRAME f)
    then show ?thesis using ok bs
      by (intro codec) (auto simp: defs AppendStreamTypeByte_def intro: appending_AppendStreamFrame)
  next
    case (ACK_FRAME f)
    then have f: "ack_header_size (fp_version fp) f \<le> w_room w" "w_room w < 2 ^ 31" "w_ok w" "fp_incremental fp"
      using ok by (simp_all add: defs ack_fits_def)
    from AppendAck_fits(1) [OF f(1-3) refl, of "fp_write_at fp" "fp_creation_time fp"] f(4) ACK_FRAME bs show ?thesis
      by (simp add: defs append_then_def append_done_def)
  next
    case (STOP_WAITING_FRAME f)
    then show ?thesis using ok bs by (intro codec) (auto simp: defs intro!: stop_waiting.writes)
  next
    case (RST_STREAM_FRAME f)
    then show ?thesis using ok bs by (intro codec) (auto simp: defs intro!: rst.writes)
  next
    case (CONNECTION_CLOSE_FRAME f)
    then show ?thesis using ok bs by (intro codec) (auto simp: defs intro!: connection_close.writes)
  next
    case (GOAWAY_FRAME f)
    then show ?thesis using ok bs by (intro codec) (auto simp: defs intro!: goaway.writes)
  next
    case (WINDOW_UPDATE_FRAME f)
    then show ?thesis using ok bs by (intro codec) (auto simp: defs intro!: window_update.writes)
  next
    case (BLOCKED_FRAME f)
    then show ?thesis using ok bs by (intro codec) (auto simp: defs intro!: blocked.writes)
  next
    case PING_FRAME
    then show ?thesis using bs by (intro codec [where bs' = "[]"]) (auto simp: defs)
  next
    case MTU_DISCOVERY_FRAME
    then show ?thesis using bs by (intro codec [where bs' = "[]"]) (auto simp: defs)
  qed
qed

lemma frame_first_byte:
  assumes "frame_ok fp len pn frame w" "\<not> is_padding frame"
  shows "frame_bytes fp len pn frame no_len w \<noteq> []" "hd (frame_bytes fp len pn frame no_len w) \<noteq> 0"
proof -
  have s: "stream_type_byte (fp_version fp) (sf_fin f) no_len (GetStreamOffsetSize (fp_version fp) (sf_offset f))
       (GetStreamIdSize (sf_stream_id f)) \<noteq> 0" for f :: quic_stream_frame
    using stream_frame_type(1) [of "fp_version fp" f no_len] by force
  have a: "ack_type_byte (fp_version fp) b (GetMinPacketNumberLength (fp_version fp) x) (GetMinPacketNumberLength (fp_version fp) y) \<noteq> 0"
    for b x y using ack_frame_type [of "fp_version fp" b x y] by force
  show "frame_bytes fp len pn frame no_len w \<noteq> []" "hd (frame_bytes fp len pn frame no_len w) \<noteq> 0"
    using assms(2) s a by (cases frame; simp add: frame_bytes_def ack_frame_bytes_def Let_def)+
qed

section \<open>The frames of a packet\<close>

fun frames_bytes :: "framer_params \<Rightarrow> nat \<Rightarrow> u64 \<Rightarrow> quic_frame list \<Rightarrow> quic_data_writer \<Rightarrow> u8 list" where
  "frames_bytes fp len pn [] w = []"
| "frames_bytes fp len pn (frame # frames) w =
     (let bs = frame_bytes fp len pn frame (frames = []) w in bs @ frames_bytes fp len pn frames (w_put bs w))"

text \<open>Every frame fits behind the ones before it, and no two padding frames follow each other.\<close>

fun frames_ok :: "framer_params \<Rightarrow> nat \<Rightarrow> u64 \<Rightarrow> quic_frame list \<Rightarrow> quic_data_writer \<Rightarrow> bool" where
  "frames_ok fp len pn [] w \<longleftrightarrow> True"
| "frames_ok fp len pn (frame # frames) w \<longleftrightarrow>
     (let bs = frame_bytes fp len pn frame (frames = []) w in
      frame_ok fp len pn frame w \<and> bs \<noteq> [] \<and> length bs \<le> w_room w \<and>
      (case frames of next # _ \<Rightarrow> \<not> (is_padding frame \<and> is_padding next) | [] \<Rightarrow> True) \<and>
      frames_ok fp len pn frames (w_put bs w))"

text \<open>The frames as the receiver sees them: padding with the length it was given.\<close>

fun frames_padded :: "framer_params \<Rightarrow> nat \<Rightarrow> u64 \<Rightarrow> quic_frame list \<Rightarrow> quic_data_writer \<Rightarrow> quic_frame list" where
  "frames_padded fp len pn [] w = []"
| "frames_padded fp len pn (frame # frames) w =
     frame_padded fp frame w # frames_padded fp len pn frames (w_put (frame_bytes fp len pn frame (frames = []) w) w)"

lemma frames_appended:
  assumes "frames_ok fp len pn frames w" "w_ok w"
  shows "append_frames fp len pn frames w = (Appended, w_put (frames_bytes fp len pn frames w) w) \<and>
    length (frames_bytes fp len pn frames w) \<le> w_room w"
  using assms
proof (induction frames arbitrary: w)
  case (Cons frame frames)
  let ?bs = "frame_bytes fp len pn frame (frames = []) w"
  have f: "frame_ok fp len pn frame w" "?bs \<noteq> []" "length ?bs \<le> w_room w" "frames_ok fp len pn frames (w_put ?bs w)"
    using Cons.prems(1) by (simp_all add: Let_def)
  have w: "w_ok (w_put ?bs w)" using f(3) Cons.prems(2) by simp
  note IH = Cons.IH [OF f(4) w]
  have room: "length ?bs + length (frames_bytes fp len pn frames (w_put ?bs w)) \<le> w_room w"
    using IH f(3) by (simp, linarith)
  have "append_then (AppendTypeByte fp frame (frames = [])) (append_frame fp len pn frame (frames = [])) w = (Appended, w_put ?bs w)"
    by (rule frame_appended [OF f(1) Cons.prems(2) refl f(2,3)])
  then have "append_frames fp len pn (frame # frames) w = append_frames fp len pn frames (w_put ?bs w)"
    by (auto simp: append_then_def split: prod.splits append_res.splits)
  then show ?case using IH room w_put_put [OF Cons.prems(2) room] by (simp add: Let_def)
qed (simp add: append_done_def)

lemma padding_fills:
  assumes "frames_ok fp len pn (PADDING_FRAME f # frames) w" "w_ok w" "fp_version fp \<le> QUIC_VERSION_37"
  shows "frames = []"
proof (rule ccontr)
  let ?w = "w_put (frame_bytes fp len pn (PADDING_FRAME f) (frames = []) w) w"
  assume "frames \<noteq> []"
  then obtain g more where g: "frames = g # more" by (auto simp: neq_Nil_conv)
  have "w_room ?w = 0" using assms(3) by (simp add: frame_bytes_def padding_count_def)
  moreover have "frames_ok fp len pn (g # more) ?w" using assms(1) g by (simp add: Let_def)
  ultimately show False by (auto simp: Let_def)
qed

lemma frames_delivered:
  assumes "frames_ok fp len pn frames w" "w_ok w" and vis: "accepting vis"
    and fp': "fp_version fp' = fp_version fp" "fp_incremental fp'"
    and "r_ok r" "r_endianness r = w_endianness w" "r_rest r = frames_bytes fp len pn frames w"
  shows "\<exists>r'. process_frames fp' vis len pn s r =
    (True, s\<lparr>fr_visitor := deliver_frames vis (frames_padded fp len pn frames w) (fr_visitor s)\<rparr>, r')"
  using assms(1,2,6-8)
proof (induction frames arbitrary: w r s)
  case Nil
  then have "IsDoneReading r" by (simp add: r_rest_def r_ok_def IsDoneReading_def)
  then show ?case by (simp add: process_frames.simps [of _ _ _ _ _ r])
next
  case (Cons frame frames)
  let ?bs = "frame_bytes fp len pn frame (frames = []) w" and ?w = "w_put (frame_bytes fp len pn frame (frames = []) w) w"
  let ?rest = "frames_bytes fp len pn frames ?w"
  have f: "frame_ok fp len pn frame w" "?bs \<noteq> []" "length ?bs \<le> w_room w" "frames_ok fp len pn frames ?w"
    using Cons.prems(1) by (simp_all add: Let_def)
  have rest: "r_rest r = ?bs @ ?rest" using Cons.prems(5) by (simp add: Let_def)
  have more: "\<not> IsDoneReading r" using rest f(2) by (auto simp: IsDoneReading_def r_rest_def)
  have pad: "is_padding frame \<longrightarrow> ?rest = [] \<or> fp_version fp > QUIC_VERSION_37 \<and> hd ?rest \<noteq> 0"
  proof (cases "is_padding frame \<and> frames \<noteq> []")
    case True
    then obtain g nxt more where g: "frame = PADDING_FRAME g" "frames = nxt # more" by (auto simp: neq_Nil_conv)
    have "fp_version fp > QUIC_VERSION_37" using padding_fills [of fp len pn g frames w] Cons.prems(1,2) g by (cases "fp_version fp \<le> QUIC_VERSION_37") simp_all
    moreover have "\<not> is_padding nxt" using Cons.prems(1) g by (simp add: Let_def)
    then have "hd ?rest \<noteq> 0" using frame_first_byte f(4) g by (simp add: Let_def hd_append)
    ultimately show ?thesis by simp
  qed auto
  have "process_frame fp' vis len pn (s, r) = delivered vis (frame_padded fp frame w) (length ?bs) s r"
    by (rule frame_delivered [OF f(1) vis fp' refl Cons.prems(3,4) rest refl f(2) _ pad]) simp
  then have step: "process_frames fp' vis len pn s r = (case delivered vis (frame_padded fp frame w) (length ?bs) s r of
      (Return ret, s', r') \<Rightarrow> (ret, s', r') | (Continue, s', r') \<Rightarrow> process_frames fp' vis len pn s' r')"
    using more by (simp add: process_frames.simps [of _ _ _ _ _ r])
  have r': "r_ok (r_skip (length ?bs) r)"
    using arg_cong [OF rest, of length] Cons.prems(3) f(2) by (simp add: r_ok_def r_rest_def)
  obtain b v where d: "deliver_frame vis (frame_padded fp frame w) (fr_visitor s) = (b, v)" by fastforce
  have "\<exists>r'. process_frames fp' vis len pn (s\<lparr>fr_visitor := v\<rparr>) (r_skip (length ?bs) r) =
      (True, (s\<lparr>fr_visitor := v\<rparr>)\<lparr>fr_visitor := deliver_frames vis (frames_padded fp len pn frames ?w) (fr_visitor (s\<lparr>fr_visitor := v\<rparr>))\<rparr>, r')"
    by (rule Cons.IH [OF f(4)]) (use Cons.prems f(3) r' r_rest_skip [OF rest] in simp_all)
  then show ?case unfolding step by (cases b) (simp_all add: delivered_def d)
qed

section \<open>Lengths\<close>


section \<open>Errors\<close>

definition frame_error_codes :: "u32 set" where
  "frame_error_codes = {QUIC_INVALID_FRAME_DATA, QUIC_INVALID_RST_STREAM_DATA, QUIC_INVALID_CONNECTION_CLOSE_DATA,
     QUIC_INVALID_GOAWAY_DATA, QUIC_INVALID_ACK_DATA, QUIC_INVALID_STREAM_DATA, QUIC_MISSING_PAYLOAD,
     QUIC_INVALID_WINDOW_UPDATE_DATA, QUIC_INVALID_BLOCKED_DATA, QUIC_INVALID_STOP_WAITING_DATA}"

text \<open>A step that does not fail leaves the error alone; one that fails sets it and ends in OnError.\<close>

definition reports_error :: "('v, 'y) frame_visitor_scheme \<Rightarrow> bool \<Rightarrow> ('v, 'z) framer_scheme \<Rightarrow> ('v, 'z) framer_scheme \<Rightarrow> bool" where
  "reports_error vis ok s s' \<longleftrightarrow>
     (if ok then fr_error s' = fr_error s \<and> fr_detailed_error s' = fr_detailed_error s
      else fr_error s' \<in> frame_error_codes \<and>
           (\<exists>v. fr_visitor s' = OnError vis (fr_error s') (fr_detailed_error s') v))"

definition step_reports :: "('v, 'y) frame_visitor_scheme \<Rightarrow> ('v, 'z) frame_step \<Rightarrow> bool" where
  "step_reports vis f \<longleftrightarrow> (\<forall>s r out s' r'. f (s, r) = (out, s', r') \<longrightarrow> reports_error vis (out \<noteq> Return False) s s')"

lemma step_reportsD: "step_reports vis f \<Longrightarrow> f (s, r) = (out, s', r') \<Longrightarrow> reports_error vis (out \<noteq> Return False) s s'"
  unfolding step_reports_def by blast

named_theorems report_intros

lemma step_reports_fail [report_intros]: "err \<in> frame_error_codes \<Longrightarrow> step_reports vis (fail_frame vis err m)"
  by (auto simp: step_reports_def reports_error_def fail_frame_def RaiseError_def)

lemma step_reports_visit [report_intros]: "step_reports vis (visit_frame cb)"
  by (auto simp: step_reports_def reports_error_def visit_frame_def split: prod.splits)

lemma step_reports_parse [report_intros]:
  assumes "err \<in> frame_error_codes"
  shows "step_reports vis (parse_frame vis err f cb)"
  unfolding step_reports_def parse_frame_def
  by (auto split: prod.splits sum.splits intro: step_reportsD [OF step_reports_fail [OF assms]] step_reportsD [OF step_reports_visit])

lemma step_reports_if [report_intros]: "step_reports vis f \<Longrightarrow> step_reports vis g \<Longrightarrow> step_reports vis (if b then f else g)"
  by simp

lemma step_reports_padding [report_intros]:
  "step_reports vis (\<lambda>(s, r). case ProcessPaddingFrame version r of (frame, r') \<Rightarrow> visit_frame (cb frame) (s, r'))"
  by (auto simp: step_reports_def reports_error_def visit_frame_def split: prod.splits)

lemma frame_error_codes_in [report_intros]:
  "QUIC_INVALID_FRAME_DATA \<in> frame_error_codes" "QUIC_INVALID_RST_STREAM_DATA \<in> frame_error_codes"
  "QUIC_INVALID_CONNECTION_CLOSE_DATA \<in> frame_error_codes" "QUIC_INVALID_GOAWAY_DATA \<in> frame_error_codes"
  "QUIC_INVALID_ACK_DATA \<in> frame_error_codes" "QUIC_INVALID_STREAM_DATA \<in> frame_error_codes"
  "QUIC_MISSING_PAYLOAD \<in> frame_error_codes" "QUIC_INVALID_WINDOW_UPDATE_DATA \<in> frame_error_codes"
  "QUIC_INVALID_BLOCKED_DATA \<in> frame_error_codes" "QUIC_INVALID_STOP_WAITING_DATA \<in> frame_error_codes"
  by (simp_all add: frame_error_codes_def)

lemma step_reports_ack [report_intros]: "step_reports vis (process_ack fp vis ty)"
  by (auto simp: step_reports_def process_ack_def reports_error_def fail_frame_def RaiseError_def visit_frame_def Let_def
      frame_error_codes_in split: prod.splits sum.splits if_splits)

lemma process_frame_reports:
  assumes "process_frame fp vis len pn (s, r) = (out, s', r')"
  shows "reports_error vis (out \<noteq> Return False) s s'"
proof -
  have "step_reports vis (process_special fp vis ty)" "step_reports vis (process_regular fp vis len pn ty)"
    "step_reports vis (fail_frame vis QUIC_INVALID_FRAME_DATA m)" for ty m
    unfolding process_special_def process_regular_def by (intro report_intros)+
  note steps = this [THEN step_reportsD]
  show ?thesis using assms unfolding process_frame_def Let_def
    by (auto split: prod.splits option.splits if_splits intro: steps)
qed

lemma process_frames_reports:
  "process_frames fp vis len pn s r = (ok, s', r') \<Longrightarrow> reports_error vis ok s s'"
proof (induction fp vis len pn s r rule: process_frames.induct)
  case (1 fp vis len pn s r)
  obtain out s1 r1 where st: "process_frame fp vis len pn (s, r) = (out, s1, r1)" by (metis prod_cases3)
  note rep = process_frame_reports [OF st]
  show ?case
  proof (cases "IsDoneReading r")
    case True
    then show ?thesis using 1(2) by (simp add: process_frames.simps [of _ _ _ _ _ r] reports_error_def)
  next
    case False
    show ?thesis
    proof (cases out)
      case Continue
      then have "process_frames fp vis len pn s1 r1 = (ok, s', r')"
        using 1(2) False st by (simp add: process_frames.simps [of _ _ _ _ _ r])
      then have "reports_error vis ok s1 s'" using 1(1) False st Continue by simp
      then show ?thesis using rep Continue by (auto simp: reports_error_def split: if_splits)
    next
      case (Return b)
      then show ?thesis using 1(2) False st rep by (simp add: process_frames.simps [of _ _ _ _ _ r])
    qed
  qed
qed

section \<open>The loop with a bound on its iterations\<close>

primrec process_frames_within ::
  "nat \<Rightarrow> framer_params \<Rightarrow> ('v, 'y) frame_visitor_scheme \<Rightarrow> nat \<Rightarrow> u64 \<Rightarrow> ('v, 'z) framer_scheme \<Rightarrow> quic_data_reader
    \<Rightarrow> (bool \<times> ('v, 'z) framer_scheme \<times> quic_data_reader) option" where
  "process_frames_within 0 fp vis len pn s r = (if IsDoneReading r then Some (True, s, r) else None)"
| "process_frames_within (Suc n) fp vis len pn s r =
     (if IsDoneReading r then Some (True, s, r)
      else case process_frame fp vis len pn (s, r) of
             (Return ret, s', r') \<Rightarrow> Some (ret, s', r')
           | (Continue, s', r') \<Rightarrow> process_frames_within n fp vis len pn s' r')"

section \<open>Properties\<close>

text \<open>
  C27. Payload round trip: the frames the loop of BuildDataPacket writes into a packet, each behind
  the type byte of AppendTypeByte, are the frames ProcessFrameData of a framer of the same version
  hands to its visitor, in order and with the values they were sent with, until the visitor asks to
  stop. Padding arrives with the number of bytes it filled, an MTU discovery frame as a ping. No
  error is raised and the framer's other state is unchanged.
\<close>

theorem payload_roundtrip:
  assumes "frames_ok fp len pn frames w" "frames \<noteq> []" "w_ok w" "accepting vis"
    "fp_version fp' = fp_version fp" "fp_incremental fp'"
  shows "\<exists>w' bs r'. append_frames fp len pn frames w = (Appended, w') \<and> w_ok w' \<and> w_out w' = w_out w @ bs \<and>
      ProcessFrameData fp' vis len pn s (QuicDataReader bs (w_endianness w)) =
        (True, s\<lparr>fr_visitor := deliver_frames vis (frames_padded fp len pn frames w) (fr_visitor s)\<rparr>, r')"
proof -
  let ?bs = "frames_bytes fp len pn frames w" and ?r = "QuicDataReader (frames_bytes fp len pn frames w) (w_endianness w)"
  note app = frames_appended [OF assms(1,3)]
  have r: "r_ok ?r" "r_endianness ?r = w_endianness w" "r_rest ?r = ?bs"
    by (simp_all add: QuicDataReader_def r_ok_def r_rest_def)
  have "?bs \<noteq> []" using assms(1,2) by (cases frames) (auto simp: Let_def)
  then have "\<not> IsDoneReading ?r" by (simp add: IsDoneReading_def QuicDataReader_def)
  with frames_delivered [OF assms(1,3,4,5,6) r, of s] app show ?thesis
    by (auto simp: ProcessFrameData_def w_out_put [OF assms(3)] w_ok_put [OF assms(3)] intro!: exI [of _ ?bs])
qed

text \<open>
  C29. Every error of ProcessFrameData is reported: when it returns false, the framer's error is one
  of the frame errors and the last thing the visitor saw was OnError with that error and its
  details; when it returns true, neither the error nor its details have changed. A packet without
  frames is the error QUIC\_MISSING\_PAYLOAD.
\<close>

theorem frame_errors_reported:
  "case ProcessFrameData fp vis len pn s r of (ok, s', r') \<Rightarrow>
     reports_error vis ok s s' \<and> (IsDoneReading r \<longrightarrow> \<not> ok \<and> fr_error s' = QUIC_MISSING_PAYLOAD)"
  using process_frames_reports [of fp vis len pn s r]
  by (auto simp: ProcessFrameData_def reports_error_def RaiseError_def frame_error_codes_in split: prod.splits)

text \<open>
  C30. The frame loop ends on every input: after at most one iteration more than the packet
  has bytes left it has returned, and the result is that of the unbounded loop.
\<close>

theorem frame_loop_terminates:
  "BytesRemaining r < n \<Longrightarrow> process_frames_within n fp vis len pn s r = Some (process_frames fp vis len pn s r)"
proof (induction n arbitrary: s r)
  case (Suc n)
  obtain out s1 r1 where st: "process_frame fp vis len pn (s, r) = (out, s1, r1)" by (metis prod_cases3)
  show ?case
  proof (cases out)
    case Continue
    then have "BytesRemaining r1 < n" using process_frame_advances st Suc.prems by fastforce
    then show ?thesis using Suc.IH st Continue by (simp add: process_frames.simps [of _ _ _ _ _ r])
  next
    case (Return b)
    then show ?thesis using st by (simp add: process_frames.simps [of _ _ _ _ _ r])
  qed
qed simp






section \<open>Witnesses\<close>

datatype frame_event = Saw quic_frame | SawAck u64 | SawRange u64 u64 bool | SawError u32 string

definition event_visitor :: "frame_event list frame_visitor" where
  "event_visitor =
     (let saw = (\<lambda>frame v. (True, v @ [Saw frame])) in
      \<lparr>OnAckFrameStart = (\<lambda>l d v. (True, v @ [SawAck l])), OnAckRange = (\<lambda>a b l v. (True, v @ [SawRange a b l])),
       OnError = (\<lambda>err m v. v @ [SawError err m]),
       OnStreamFrame = (\<lambda>f. saw (STREAM_FRAME f)), OnAckFrame = (\<lambda>f. saw (ACK_FRAME f)),
       OnStopWaitingFrame = (\<lambda>f. saw (STOP_WAITING_FRAME f)), OnPaddingFrame = (\<lambda>f. saw (PADDING_FRAME f)),
       OnPingFrame = saw PING_FRAME, OnRstStreamFrame = (\<lambda>f. saw (RST_STREAM_FRAME f)),
       OnConnectionCloseFrame = (\<lambda>f. saw (CONNECTION_CLOSE_FRAME f)), OnGoAwayFrame = (\<lambda>f. saw (GOAWAY_FRAME f)),
       OnWindowUpdateFrame = (\<lambda>f. saw (WINDOW_UPDATE_FRAME f)), OnBlockedFrame = (\<lambda>f. saw (BLOCKED_FRAME f))\<rparr>)"

definition sample_params :: framer_params where
  "sample_params = \<lparr>fp_version = 43, fp_incremental = True, fp_creation_time = 0, fp_producer = None,
     fp_write_at = (\<lambda>_ _. write_nothing)\<rparr>"

definition sample_framer :: "frame_event list framer" where
  "sample_framer = \<lparr>fr_visitor = [], fr_error = 0, fr_detailed_error = [], fr_last_timestamp = 0\<rparr>"

definition sample_stream :: quic_stream_frame where
  "sample_stream = \<lparr>sf_stream_id = 5, sf_fin = True, sf_offset = 4096, sf_data = [1, 2, 3]\<rparr>"

definition sample_frames :: "quic_frame list" where
  "sample_frames = [ACK_FRAME sample_ack, PADDING_FRAME \<lparr>num_padding_bytes = 4\<rparr>, MTU_DISCOVERY_FRAME,
     RST_STREAM_FRAME \<lparr>rst_stream_id = 7, rst_error_code = 6, rst_byte_offset = 300\<rparr>, STREAM_FRAME sample_stream]"

lemma accepting_event_visitor: "accepting event_visitor"
  by (simp add: accepting_def event_visitor_def Let_def)

lemma sample_w_room [simp]: "w_room (sample_writer n) = n" "w_ok (sample_writer n)"
  by (simp_all add: w_room_def QuicDataWriter_def w_ok_def)

lemma sample_ack_length: "length (ack_frame_bytes NETWORK_BYTE_ORDER 43 sample_ack (ack_blocks_for 43 sample_ack (sample_writer 100))) \<le> 30"
  using length_ack_frame_bytes [of NETWORK_BYTE_ORDER 43 sample_ack "ack_blocks_for 43 sample_ack (sample_writer 100)"]
  by (simp add: ack_eval trunc_div_nonneg)

lemma ack_frame_bytes_nonempty [simp]: "ack_frame_bytes e version f n \<noteq> []"
  by (simp add: ack_frame_bytes_def Let_def)

lemma sample_frames_ok: "frames_ok sample_params 4 2000 sample_frames (sample_writer 100)"
  using sample_ack_length sample_ack_wellformed sample_ack_fits sample_ack_untruncated
  by (simp add: sample_frames_def frame_bytes_def frame_ok_def Let_def sample_params_def padding_count_def QUIC_VERSION_37_def
    QUIC_VERSION_41_def rst_stream_bytes_def stream_frame_bytes_def sample_stream_def GetStreamIdSize_eq GetStreamOffsetSize_eq
    QUIC_STREAM_LAST_ERROR_def) linarith

theorem payload_roundtrip_witness:
  "\<exists>w' bs r'. append_frames sample_params 4 2000 sample_frames (sample_writer 100) = (Appended, w') \<and> w_ok w' \<and> w_out w' = [] @ bs \<and>
      ProcessFrameData sample_params event_visitor 4 2000 sample_framer (QuicDataReader bs NETWORK_BYTE_ORDER) =
        (True, sample_framer\<lparr>fr_visitor := [SawAck 1000, SawRange 600 1001 False, SawRange 5 8 False, SawRange 1 3 True,
           Saw (PADDING_FRAME \<lparr>num_padding_bytes = 4\<rparr>), Saw PING_FRAME,
           Saw (RST_STREAM_FRAME \<lparr>rst_stream_id = 7, rst_error_code = 6, rst_byte_offset = 300\<rparr>), Saw (STREAM_FRAME sample_stream)]\<rparr>, r')"
proof -
  have "deliver_frames event_visitor (frames_padded sample_params 4 2000 sample_frames (sample_writer 100)) (fr_visitor sample_framer) =
     [SawAck 1000, SawRange 600 1001 False, SawRange 5 8 False, SawRange 1 3 True,
           Saw (PADDING_FRAME \<lparr>num_padding_bytes = 4\<rparr>), Saw PING_FRAME,
           Saw (RST_STREAM_FRAME \<lparr>rst_stream_id = 7, rst_error_code = 6, rst_byte_offset = 300\<rparr>), Saw (STREAM_FRAME sample_stream)]"
    by (simp add: sample_frames_def frame_padded_def deliver_frame_def event_visitor_def sample_framer_def Let_def
      sample_ack_def LargestAcked_def padding_count_def sample_params_def QUIC_VERSION_37_def)
  moreover have "sample_frames \<noteq> []" "w_ok (sample_writer 100)" "fp_version sample_params = fp_version sample_params" "fp_incremental sample_params"
    by (simp_all add: sample_frames_def sample_params_def)
  ultimately show ?thesis
    using payload_roundtrip [OF sample_frames_ok _ _ accepting_event_visitor, where fp' = sample_params and s = sample_framer] by simp
qed

theorem frame_errors_reported_witness:
  "case ProcessFrameData sample_params event_visitor 4 2000 sample_framer (QuicDataReader [] NETWORK_BYTE_ORDER) of (ok, s', r') \<Rightarrow>
     reports_error event_visitor ok sample_framer s' \<and> \<not> ok \<and> fr_error s' = QUIC_MISSING_PAYLOAD"
  using frame_errors_reported [where fp = sample_params and vis = event_visitor and len = 4 and pn = 2000 and
      s = sample_framer and r = "QuicDataReader [] NETWORK_BYTE_ORDER"]
  by (simp add: IsDoneReading_def QuicDataReader_def split: prod.splits)

theorem frame_loop_terminates_witness:
  "process_frames_within 3 sample_params event_visitor 4 2000 sample_framer (QuicDataReader [7, 0] NETWORK_BYTE_ORDER) =
     Some (process_frames sample_params event_visitor 4 2000 sample_framer (QuicDataReader [7, 0] NETWORK_BYTE_ORDER))"
  by (rule frame_loop_terminates) (simp add: BytesRemaining_def QuicDataReader_def)



end
