(* ===== verification/Framer_Packet.thy ===== *)
theory Framer_Packet
  imports Framer_Payload
begin

text \<open>
  Whole packets in my\_quic\_framer.cc: the framer's state, AppendPacketHeader and BuildDataPacket,
  the connectivity probing, version negotiation, public reset and stateless reset packets,
  encryption and decryption, ProcessPublicHeader, ProcessUnauthenticatedHeader and ProcessPacket
  with the three kinds of packets it dispatches to.

  The framer is built against a QUIC library that is not part of the sources. What it calls there
  is a parameter of the model: the record \<open>framer_libs\<close> holds the version labels, the default
  header, the start of the encrypted data, the handshake message of a public reset and the
  socket-address coder; the encrypters and decrypters are records of functions held by the framer,
  as the C++ objects are. The visitor may change the framer's version in
  OnProtocolVersionMismatch, as the comment in ProcessPacket says.
\<close>

section \<open>Types and constants\<close>

datatype perspective = IS_SERVER | IS_CLIENT

datatype connection_id_length = PACKET_0BYTE_CID | PACKET_8BYTE_CID

record parsed_quic_version =
  pv_handshake_protocol :: nat
  pv_transport_version :: transport_version

record quic_packet_header =
  ph_connection_id :: u64
  ph_connection_id_length :: connection_id_length
  ph_reset_flag :: bool
  ph_version_flag :: bool
  ph_packet_number_length :: nat
  ph_version :: parsed_quic_version
  ph_nonce :: "u8 list option"
  ph_packet_number :: u64

record quic_socket_address =
  sa_host :: "u8 list"
  sa_port :: u16

record quic_public_reset_packet =
  pr_connection_id :: u64
  pr_nonce_proof :: u64
  pr_client_address :: quic_socket_address

record crypto_handshake_message =
  cm_tag :: u32
  cm_values :: "(u32 \<times> u8 list) list"

record quic_encrypter =
  EncryptPacket :: "transport_version \<Rightarrow> u64 \<Rightarrow> u8 list \<Rightarrow> u8 list \<Rightarrow> nat \<Rightarrow> u8 list option"
  enc_GetMaxPlaintextSize :: "nat \<Rightarrow> nat"

text \<open>A decrypter is an object whose key changes when it is given a nonce.\<close>

codatatype quic_decrypter = QuicDecrypter
  (DecryptPacket: "transport_version \<Rightarrow> u64 \<Rightarrow> u8 list \<Rightarrow> u8 list \<Rightarrow> nat \<Rightarrow> u8 list option")
  (SetDiversificationNonce: "u8 list \<Rightarrow> quic_decrypter")

record framer_libs =
  CreateQuicVersionLabel :: "parsed_quic_version \<Rightarrow> u32"
  ParseQuicVersionLabel :: "u32 \<Rightarrow> parsed_quic_version"
  QuicPacketHeader :: quic_packet_header
  GetStartOfEncryptedData :: "transport_version \<Rightarrow> connection_id_length \<Rightarrow> bool \<Rightarrow> bool \<Rightarrow> nat \<Rightarrow> nat"
  NullEncrypter :: "perspective \<Rightarrow> quic_encrypter"
  NullDecrypter :: "perspective \<Rightarrow> quic_decrypter"
  GetSerialized :: "crypto_handshake_message \<Rightarrow> u8 list"
  ParseMessage :: "u8 list \<Rightarrow> perspective \<Rightarrow> crypto_handshake_message option"
  EncodeAddress :: "quic_socket_address \<Rightarrow> u8 list"
  DecodeAddress :: "u8 list \<Rightarrow> quic_socket_address option"
  WriteAt :: "u8 \<Rightarrow> nat \<Rightarrow> write_op"

record 'v packet_visitor = "'v frame_visitor" +
  OnPacket :: "'v \<Rightarrow> 'v"
  OnUnauthenticatedPublicHeader :: "quic_packet_header \<Rightarrow> 'v \<Rightarrow> bool \<times> 'v"
  OnProtocolVersionMismatch :: "parsed_quic_version \<Rightarrow> 'v \<Rightarrow> bool \<times> parsed_quic_version option \<times> 'v"
  OnUnauthenticatedHeader :: "quic_packet_header \<Rightarrow> 'v \<Rightarrow> bool \<times> 'v"
  OnDecryptedPacket :: "nat \<Rightarrow> 'v \<Rightarrow> 'v"
  OnPacketHeader :: "quic_packet_header \<Rightarrow> 'v \<Rightarrow> bool \<times> 'v"
  OnPacketComplete :: "'v \<Rightarrow> 'v"
  OnVersionNegotiationPacket :: "u64 \<Rightarrow> parsed_quic_version list \<Rightarrow> 'v \<Rightarrow> 'v"
  OnPublicResetPacket :: "quic_public_reset_packet \<Rightarrow> 'v \<Rightarrow> 'v"

record 'v quic_framer = "'v framer" +
  fr_largest_packet_number :: u64
  fr_last_serialized_connection_id :: u64
  fr_last_version_label :: u32
  fr_last_packet_is_ietf_quic :: bool
  fr_version :: parsed_quic_version
  fr_supported_versions :: "parsed_quic_version list"
  fr_decrypter :: quic_decrypter
  fr_alternative_decrypter :: "quic_decrypter option"
  fr_decrypter_level :: nat
  fr_alternative_decrypter_level :: nat
  fr_alternative_decrypter_latch :: bool
  fr_encrypter :: "nat \<Rightarrow> quic_encrypter option"
  fr_perspective :: perspective
  fr_validate_flags :: bool
  fr_creation_time :: quic_time
  fr_last_nonce :: "u8 list"
  fr_data_producer :: "data_producer option"
  fr_use_incremental_ack_processing :: bool

definition QUIC_NO_ERROR :: u32 where "QUIC_NO_ERROR = 0"
definition QUIC_INVALID_PACKET_HEADER :: u32 where "QUIC_INVALID_PACKET_HEADER = 3"
definition QUIC_INVALID_VERSION_NEGOTIATION_PACKET :: u32 where "QUIC_INVALID_VERSION_NEGOTIATION_PACKET = 10"
definition QUIC_INVALID_PUBLIC_RST_PACKET :: u32 where "QUIC_INVALID_PUBLIC_RST_PACKET = 11"
definition QUIC_DECRYPTION_FAILURE :: u32 where "QUIC_DECRYPTION_FAILURE = 12"
definition QUIC_ENCRYPTION_FAILURE :: u32 where "QUIC_ENCRYPTION_FAILURE = 13"
definition QUIC_PACKET_TOO_LARGE :: u32 where "QUIC_PACKET_TOO_LARGE = 14"

definition PACKET_PUBLIC_FLAGS_VERSION :: u8 where "PACKET_PUBLIC_FLAGS_VERSION = 0x01"
definition PACKET_PUBLIC_FLAGS_RST :: u8 where "PACKET_PUBLIC_FLAGS_RST = 0x02"
definition PACKET_PUBLIC_FLAGS_NONCE :: u8 where "PACKET_PUBLIC_FLAGS_NONCE = 0x04"
definition PACKET_PUBLIC_FLAGS_0BYTE_CONNECTION_ID :: u8 where "PACKET_PUBLIC_FLAGS_0BYTE_CONNECTION_ID = 0"
definition PACKET_PUBLIC_FLAGS_8BYTE_CONNECTION_ID :: u8 where "PACKET_PUBLIC_FLAGS_8BYTE_CONNECTION_ID = 0x08"
definition PACKET_PUBLIC_FLAGS_8BYTE_CONNECTION_ID_OLD :: u8 where "PACKET_PUBLIC_FLAGS_8BYTE_CONNECTION_ID_OLD = 0x0c"
definition PACKET_PUBLIC_FLAGS_MAX :: u8 where "PACKET_PUBLIC_FLAGS_MAX = 0x3f"

lemmas public_flag_defs = PACKET_PUBLIC_FLAGS_VERSION_def PACKET_PUBLIC_FLAGS_RST_def PACKET_PUBLIC_FLAGS_NONCE_def
  PACKET_PUBLIC_FLAGS_0BYTE_CONNECTION_ID_def PACKET_PUBLIC_FLAGS_8BYTE_CONNECTION_ID_def
  PACKET_PUBLIC_FLAGS_8BYTE_CONNECTION_ID_OLD_def PACKET_PUBLIC_FLAGS_MAX_def

definition FLAGS_LONG_HEADER :: u8 where "FLAGS_LONG_HEADER = 0x80"
definition VERSION_NEGOTIATION :: u8 where "VERSION_NEGOTIATION = 0"
definition ENCRYPTION_NONE :: nat where "ENCRYPTION_NONE = 0"
definition ENCRYPTION_INITIAL :: nat where "ENCRYPTION_INITIAL = 1"
definition NUM_ENCRYPTION_LEVELS :: nat where "NUM_ENCRYPTION_LEVELS = 3"
definition kMaxPacketSize :: nat where "kMaxPacketSize = 1452"
definition kDiversificationNonceSize :: nat where "kDiversificationNonceSize = 32"
definition kPacketHeaderTypeSize :: nat where "kPacketHeaderTypeSize = 1"
definition kPublicHeaderSequenceNumberShift :: nat where "kPublicHeaderSequenceNumberShift = 4"

fun MakeQuicTag :: "string \<Rightarrow> u32" where
  "MakeQuicTag [a, b, c, d] =
     of_char a OR push_bit 8 (of_char b) OR push_bit 16 (of_char c) OR push_bit 24 (of_char d)"
| "MakeQuicTag _ = 0"

definition kCHLO :: u32 where "kCHLO = MakeQuicTag ''CHLO''"
definition kPRST :: u32 where "kPRST = MakeQuicTag ''PRST''"
definition kRNON :: u32 where "kRNON = MakeQuicTag ''RNON''"
definition kCADR :: u32 where "kCADR = MakeQuicTag ''CADR''"

section \<open>The framer\<close>

definition endianness :: "('v, 'z) quic_framer_scheme \<Rightarrow> endianness" where
  "endianness fr = endianness_of (pv_transport_version (fr_version fr))"

definition params_of :: "framer_libs \<Rightarrow> ('v, 'z) quic_framer_scheme \<Rightarrow> framer_params" where
  "params_of libs fr = \<lparr>fp_version = pv_transport_version (fr_version fr),
     fp_incremental = fr_use_incremental_ack_processing fr, fp_creation_time = fr_creation_time fr,
     fp_producer = fr_data_producer fr, fp_write_at = WriteAt libs\<rparr>"

text \<open>The constructor reads the first supported version; an empty list is excluded by its DCHECK.\<close>

definition MyQuicFramer ::
  "framer_libs \<Rightarrow> parsed_quic_version list \<Rightarrow> quic_time \<Rightarrow> perspective \<Rightarrow> 'v \<Rightarrow> 'v quic_framer" where
  "MyQuicFramer libs supported_versions creation_time perspective visitor =
     \<lparr>fr_visitor = visitor, fr_error = QUIC_NO_ERROR, fr_detailed_error = '''', fr_last_timestamp = 0,
      fr_largest_packet_number = 0, fr_last_serialized_connection_id = 0, fr_last_version_label = 0,
      fr_last_packet_is_ietf_quic = False, fr_version = hd supported_versions,
      fr_supported_versions = supported_versions, fr_decrypter = NullDecrypter libs perspective,
      fr_alternative_decrypter = None, fr_decrypter_level = ENCRYPTION_NONE,
      fr_alternative_decrypter_level = ENCRYPTION_NONE, fr_alternative_decrypter_latch = False,
      fr_encrypter = (\<lambda>_. None)(ENCRYPTION_NONE := Some (NullEncrypter libs perspective)),
      fr_perspective = perspective, fr_validate_flags = True, fr_creation_time = creation_time,
      fr_last_nonce = replicate kDiversificationNonceSize 0, fr_data_producer = None,
      fr_use_incremental_ack_processing = True\<rparr>"

fun IsSupportedTransportVersion :: "parsed_quic_version list \<Rightarrow> transport_version \<Rightarrow> bool" where
  "IsSupportedTransportVersion [] version = False"
| "IsSupportedTransportVersion (v # vs) version =
     (if version = pv_transport_version v then True else IsSupportedTransportVersion vs version)"

fun IsSupportedVersion :: "parsed_quic_version list \<Rightarrow> parsed_quic_version \<Rightarrow> bool" where
  "IsSupportedVersion [] version = False"
| "IsSupportedVersion (v # vs) version = (if version = v then True else IsSupportedVersion vs version)"

definition SetDecrypter :: "nat \<Rightarrow> quic_decrypter \<Rightarrow> ('v, 'z) quic_framer_scheme \<Rightarrow> ('v, 'z) quic_framer_scheme" where
  "SetDecrypter level decrypter fr = fr\<lparr>fr_decrypter := decrypter, fr_decrypter_level := level\<rparr>"

definition SetAlternativeDecrypter ::
  "nat \<Rightarrow> quic_decrypter \<Rightarrow> bool \<Rightarrow> ('v, 'z) quic_framer_scheme \<Rightarrow> ('v, 'z) quic_framer_scheme" where
  "SetAlternativeDecrypter level decrypter latch_once_used fr =
     fr\<lparr>fr_alternative_decrypter := Some decrypter, fr_alternative_decrypter_level := level,
        fr_alternative_decrypter_latch := latch_once_used\<rparr>"

definition SetEncrypter :: "nat \<Rightarrow> quic_encrypter \<Rightarrow> ('v, 'z) quic_framer_scheme \<Rightarrow> ('v, 'z) quic_framer_scheme" where
  "SetEncrypter level encrypter fr = fr\<lparr>fr_encrypter := (fr_encrypter fr)(level := Some encrypter)\<rparr>"

section \<open>Building packets\<close>

definition header_flags :: "perspective \<Rightarrow> quic_packet_header \<Rightarrow> u8" where
  "header_flags perspective header =
     (let f = (if ph_reset_flag header then PACKET_PUBLIC_FLAGS_RST else 0);
          f = (if ph_version_flag header then f OR PACKET_PUBLIC_FLAGS_VERSION else f);
          f = f OR push_bit kPublicHeaderSequenceNumberShift (GetPacketNumberFlags (ph_packet_number_length header));
          f = (if ph_nonce header \<noteq> None then f OR PACKET_PUBLIC_FLAGS_NONCE else f)
      in case ph_connection_id_length header of
           PACKET_0BYTE_CID \<Rightarrow> f OR PACKET_PUBLIC_FLAGS_0BYTE_CONNECTION_ID
         | PACKET_8BYTE_CID \<Rightarrow>
             let f = f OR PACKET_PUBLIC_FLAGS_8BYTE_CONNECTION_ID
             in if perspective = IS_CLIENT then f OR PACKET_PUBLIC_FLAGS_8BYTE_CONNECTION_ID_OLD else f)"

definition AppendPacketHeader ::
  "framer_libs \<Rightarrow> quic_packet_header \<Rightarrow> ('v, 'z) quic_framer_scheme \<times> quic_data_writer
    \<Rightarrow> bool \<times> ('v, 'z) quic_framer_scheme \<times> quic_data_writer" where
  "AppendPacketHeader libs header = (\<lambda>(fr, w).
     let write_id = and_then (WriteUInt8 (header_flags (fr_perspective fr) header))
           (case ph_connection_id_length header of
              PACKET_0BYTE_CID \<Rightarrow> write_nothing
            | PACKET_8BYTE_CID \<Rightarrow> WriteConnectionId (ph_connection_id header))
     in case write_id w of
          (False, w1) \<Rightarrow> (False, fr, w1)
        | (True, w1) \<Rightarrow>
            let fr' = fr\<lparr>fr_last_serialized_connection_id := ph_connection_id header\<rparr>;
                write_version = (if ph_version_flag header
                                 then WriteTag (NetToHost32 (CreateQuicVersionLabel libs (fr_version fr))) else write_nothing);
                write_nonce = (case ph_nonce header of
                                 None \<Rightarrow> write_nothing
                               | Some nonce \<Rightarrow> WriteBytes (take kDiversificationNonceSize nonce))
            in case and_then write_version (and_then write_nonce
                      (AppendPacketNumber (ph_packet_number_length header) (ph_packet_number header))) w1 of
                 (ok, w2) \<Rightarrow> (ok, fr', w2))"

text \<open>The buffer and its size are the caller's; 0 is returned when the packet does not fit.\<close>

definition BuildDataPacket ::
  "framer_libs \<Rightarrow> quic_packet_header \<Rightarrow> quic_frame list \<Rightarrow> u8 list \<Rightarrow> nat \<Rightarrow> ('v, 'z) quic_framer_scheme
    \<Rightarrow> nat \<times> ('v, 'z) quic_framer_scheme \<times> quic_data_writer" where
  "BuildDataPacket libs header frames buffer packet_length fr =
     (case AppendPacketHeader libs header (fr, QuicDataWriter packet_length buffer (endianness fr)) of
        (False, fr', w) \<Rightarrow> (0, fr', w)
      | (True, fr', w) \<Rightarrow>
          (case append_frames (params_of libs fr') (ph_packet_number_length header) (ph_packet_number header) frames w of
             (Appended, w') \<Rightarrow> (w_length w', fr', w')
           | (Refused _, w') \<Rightarrow> (0, fr', w')))"

definition BuildConnectivityProbingPacket ::
  "framer_libs \<Rightarrow> quic_packet_header \<Rightarrow> u8 list \<Rightarrow> nat \<Rightarrow> ('v, 'z) quic_framer_scheme
    \<Rightarrow> nat \<times> ('v, 'z) quic_framer_scheme \<times> quic_data_writer" where
  "BuildConnectivityProbingPacket libs header buffer packet_length fr =
     (case AppendPacketHeader libs header (fr, QuicDataWriter packet_length buffer (endianness fr)) of
        (False, fr', w) \<Rightarrow> (0, fr', w)
      | (True, fr', w) \<Rightarrow>
          (let fp = params_of libs fr'; padding_frame = \<lparr>num_padding_bytes = -1\<rparr> in
           case append_then (AppendTypeByte fp PING_FRAME False)
                  (append_then (AppendTypeByte fp (PADDING_FRAME padding_frame) True)
                               (AppendPaddingFrame (fp_version fp) padding_frame)) w of
             (Appended, w') \<Rightarrow> (w_length w', fr', w')
           | (Refused _, w') \<Rightarrow> (0, fr', w')))"

definition built :: "nat \<Rightarrow> write_op \<Rightarrow> u8 list option" where
  "built len f =
     (case f (QuicDataWriter len (replicate len 0) NETWORK_BYTE_ORDER) of
        (True, w) \<Rightarrow> Some (w_buffer w) | (False, w) \<Rightarrow> None)"

definition BuildPublicResetPacket :: "framer_libs \<Rightarrow> quic_public_reset_packet \<Rightarrow> u8 list option" where
  "BuildPublicResetPacket libs packet =
     (let values = [(kRNON, le_bytes 8 (unat (pr_nonce_proof packet)))];
          send = (\<lambda>values.
            let reset_serialized = GetSerialized libs \<lparr>cm_tag = kPRST, cm_values = values\<rparr>;
                len = kPublicFlagsSize + PACKET_8BYTE_CONNECTION_ID + length reset_serialized;
                flags = (PACKET_PUBLIC_FLAGS_RST OR PACKET_PUBLIC_FLAGS_8BYTE_CONNECTION_ID)
                          OR PACKET_PUBLIC_FLAGS_8BYTE_CONNECTION_ID_OLD
            in built len (and_then (WriteUInt8 flags)
                 (and_then (WriteConnectionId (pr_connection_id packet)) (WriteBytes reset_serialized))))
      in if sa_host (pr_client_address packet) \<noteq> [] then
           (let serialized_address = EncodeAddress libs (pr_client_address packet)
            in if serialized_address = [] then None else send (values @ [(kCADR, serialized_address)]))
         else send values)"

definition BuildIetfStatelessResetPacket :: "u64 \<Rightarrow> 128 word \<Rightarrow> u8 list option" where
  "BuildIetfStatelessResetPacket connection_id stateless_reset_token =
     (let len = kPacketHeaderTypeSize + PACKET_8BYTE_CONNECTION_ID + 16;
          type = 0 OR PacketNumberLengthToShortHeaderType PACKET_1BYTE_PACKET_NUMBER
      in built len (and_then (WriteUInt8 type)
           (and_then (WriteConnectionId connection_id) (WriteBytes (le_bytes 16 (unat stateless_reset_token))))))"

primrec write_versions :: "framer_libs \<Rightarrow> parsed_quic_version list \<Rightarrow> write_op" where
  "write_versions libs [] = write_nothing"
| "write_versions libs (version # versions) =
     and_then (WriteTag (HostToNet32 (CreateQuicVersionLabel libs version))) (write_versions libs versions)"

definition BuildIetfVersionNegotiationPacket :: "framer_libs \<Rightarrow> u64 \<Rightarrow> parsed_quic_version list \<Rightarrow> u8 list option" where
  "BuildIetfVersionNegotiationPacket libs connection_id versions =
     (let len = kPacketHeaderTypeSize + PACKET_8BYTE_CONNECTION_ID + (length versions + 1) * kQuicVersionSize
      in built len (and_then (WriteUInt8 (FLAGS_LONG_HEADER OR VERSION_NEGOTIATION))
           (and_then (WriteConnectionId connection_id) (and_then (WriteUInt32 0) (write_versions libs versions)))))"

definition BuildVersionNegotiationPacket ::
  "framer_libs \<Rightarrow> u64 \<Rightarrow> bool \<Rightarrow> parsed_quic_version list \<Rightarrow> u8 list option" where
  "BuildVersionNegotiationPacket libs connection_id ietf_quic versions =
     (if ietf_quic then BuildIetfVersionNegotiationPacket libs connection_id versions
      else
        let len = GetVersionNegotiationPacketSize (length versions);
            flags = PACKET_PUBLIC_FLAGS_VERSION OR PACKET_PUBLIC_FLAGS_8BYTE_CONNECTION_ID
                      OR PACKET_PUBLIC_FLAGS_8BYTE_CONNECTION_ID_OLD
        in built len (and_then (WriteUInt8 flags)
             (and_then (WriteConnectionId connection_id) (write_versions libs versions))))"

section \<open>Encryption\<close>

text \<open>No encrypter at the level is a null dereference, the result None.\<close>

definition EncryptInPlace ::
  "nat \<Rightarrow> u64 \<Rightarrow> nat \<Rightarrow> nat \<Rightarrow> nat \<Rightarrow> u8 list \<Rightarrow> ('v, 'y) frame_visitor_scheme \<Rightarrow> ('v, 'z) quic_framer_scheme
    \<Rightarrow> (nat \<times> u8 list \<times> ('v, 'z) quic_framer_scheme) option" where
  "EncryptInPlace level packet_number ad_len total_len buffer_len buffer vis fr =
     (case fr_encrypter fr level of
        None \<Rightarrow> None
      | Some encrypter \<Rightarrow>
          (case EncryptPacket encrypter (pv_transport_version (fr_version fr)) packet_number (take ad_len buffer)
                  (take (total_len - ad_len) (drop ad_len buffer)) (buffer_len - ad_len) of
             None \<Rightarrow> Some (0, buffer, snd (RaiseError vis QUIC_ENCRYPTION_FAILURE fr))
           | Some out \<Rightarrow> Some (ad_len + length out, overwrite ad_len out buffer, fr)))"

definition EncryptPayload ::
  "framer_libs \<Rightarrow> nat \<Rightarrow> u64 \<Rightarrow> quic_packet_header \<Rightarrow> u8 list \<Rightarrow> u8 list \<Rightarrow> nat \<Rightarrow> ('v, 'y) frame_visitor_scheme
    \<Rightarrow> ('v, 'z) quic_framer_scheme \<Rightarrow> (nat \<times> u8 list \<times> ('v, 'z) quic_framer_scheme) option" where
  "EncryptPayload libs level packet_number header packet buffer buffer_len vis fr =
     (let version = pv_transport_version (fr_version fr);
          ad_len = GetStartOfEncryptedData libs version (ph_connection_id_length header) (ph_version_flag header)
                     (ph_nonce header \<noteq> None) (ph_packet_number_length header);
          associated_data = take ad_len packet;
          buffer' = overwrite 0 associated_data buffer
      in case fr_encrypter fr level of
           None \<Rightarrow> None
         | Some encrypter \<Rightarrow>
             (case EncryptPacket encrypter version packet_number associated_data (drop ad_len packet)
                     (buffer_len - ad_len) of
                None \<Rightarrow> Some (0, buffer', snd (RaiseError vis QUIC_ENCRYPTION_FAILURE fr))
              | Some out \<Rightarrow> Some (ad_len + length out, overwrite ad_len out buffer', fr)))"

definition framer_GetMaxPlaintextSize :: "nat \<Rightarrow> ('v, 'z) quic_framer_scheme \<Rightarrow> nat" where
  "framer_GetMaxPlaintextSize ciphertext_size fr =
     fold (\<lambda>i min_plaintext_size.
             case fr_encrypter fr i of
               None \<Rightarrow> min_plaintext_size
             | Some encrypter \<Rightarrow>
                 let size = enc_GetMaxPlaintextSize encrypter ciphertext_size
                 in if size < min_plaintext_size then size else min_plaintext_size)
       [ENCRYPTION_NONE..<NUM_ENCRYPTION_LEVELS] ciphertext_size"

definition GetAssociatedDataFromEncryptedPacket ::
  "framer_libs \<Rightarrow> transport_version \<Rightarrow> u8 list \<Rightarrow> connection_id_length \<Rightarrow> bool \<Rightarrow> bool \<Rightarrow> nat \<Rightarrow> u8 list" where
  "GetAssociatedDataFromEncryptedPacket libs version encrypted id_length includes_version includes_nonce pn_length =
     take (GetStartOfEncryptedData libs version id_length includes_version includes_nonce pn_length) encrypted"

definition try_alternative :: "perspective \<Rightarrow> nat \<Rightarrow> quic_packet_header \<Rightarrow> bool" where
  "try_alternative perspective level header \<longleftrightarrow>
     \<not> (level = ENCRYPTION_INITIAL \<and> perspective = IS_CLIENT \<and> ph_nonce header = None)"

definition install_alternative :: "quic_decrypter \<Rightarrow> ('v, 'z) quic_framer_scheme \<Rightarrow> ('v, 'z) quic_framer_scheme" where
  "install_alternative alternative fr =
     (if fr_alternative_decrypter_latch fr then
        fr\<lparr>fr_decrypter := alternative, fr_alternative_decrypter := None,
           fr_decrypter_level := fr_alternative_decrypter_level fr, fr_alternative_decrypter_level := ENCRYPTION_NONE\<rparr>
      else
        fr\<lparr>fr_decrypter := alternative, fr_alternative_decrypter := Some (fr_decrypter fr),
           fr_decrypter_level := fr_alternative_decrypter_level fr, fr_alternative_decrypter_level := fr_decrypter_level fr\<rparr>)"

definition DecryptPayload ::
  "framer_libs \<Rightarrow> ('v, 'y) packet_visitor_scheme \<Rightarrow> quic_packet_header \<Rightarrow> u8 list \<Rightarrow> u8 list \<Rightarrow> nat
    \<Rightarrow> ('v, 'z) quic_framer_scheme \<Rightarrow> u8 list option \<times> ('v, 'z) quic_framer_scheme" where
  "DecryptPayload libs vis header packet encrypted buffer_length fr =
     (let version = pv_transport_version (fr_version fr);
          associated_data = GetAssociatedDataFromEncryptedPacket libs version packet (ph_connection_id_length header)
             (ph_version_flag header) (ph_nonce header \<noteq> None) (ph_packet_number_length header)
      in case DecryptPacket (fr_decrypter fr) version (ph_packet_number header) associated_data encrypted buffer_length of
           Some plain \<Rightarrow> (Some plain, fr\<lparr>fr_visitor := OnDecryptedPacket vis (fr_decrypter_level fr) (fr_visitor fr)\<rparr>)
         | None \<Rightarrow>
             (case fr_alternative_decrypter fr of
                None \<Rightarrow> (None, fr)
              | Some alternative \<Rightarrow>
                  (let alternative' = (case ph_nonce header of None \<Rightarrow> alternative
                                       | Some nonce \<Rightarrow> SetDiversificationNonce alternative nonce);
                       fr' = fr\<lparr>fr_alternative_decrypter := Some alternative'\<rparr>
                   in case (if try_alternative (fr_perspective fr) (fr_alternative_decrypter_level fr) header
                            then DecryptPacket alternative' version (ph_packet_number header) associated_data encrypted buffer_length
                            else None) of
                        None \<Rightarrow> (None, fr')
                      | Some plain \<Rightarrow>
                          (Some plain, install_alternative alternative'
                             (fr'\<lparr>fr_visitor := OnDecryptedPacket vis (fr_alternative_decrypter_level fr') (fr_visitor fr')\<rparr>)))))"

section \<open>Processing packets\<close>

text \<open>A read that fails leaves its message as the detailed error of the framer.\<close>

type_synonym ('v, 'z) framer_read = "('v, 'z) quic_framer_scheme \<times> quic_data_reader"

definition framer_return :: "'a \<Rightarrow> ('v, 'z) framer_read \<Rightarrow> 'a option \<times> ('v, 'z) framer_read" where
  "framer_return x st = (Some x, st)"

definition framer_fail :: "string \<Rightarrow> ('v, 'z) framer_read \<Rightarrow> 'a option \<times> ('v, 'z) framer_read" where
  "framer_fail m = (\<lambda>(fr, r). (None, fr\<lparr>fr_detailed_error := m\<rparr>, r))"

definition framer_bind ::
  "(('v, 'z) framer_read \<Rightarrow> 'a option \<times> ('v, 'z) framer_read) \<Rightarrow>
   ('a \<Rightarrow> ('v, 'z) framer_read \<Rightarrow> 'b option \<times> ('v, 'z) framer_read) \<Rightarrow> ('v, 'z) framer_read \<Rightarrow> 'b option \<times> ('v, 'z) framer_read" where
  "framer_bind f g st = (case f st of (None, st') \<Rightarrow> (None, st') | (Some x, st') \<Rightarrow> g x st')"

definition framer_try :: "string \<Rightarrow> 'a read_op \<Rightarrow> ('v, 'z) framer_read \<Rightarrow> 'a option \<times> ('v, 'z) framer_read" where
  "framer_try m f = (\<lambda>(fr, r). case f r of (None, r') \<Rightarrow> framer_fail m (fr, r') | (Some x, r') \<Rightarrow> (Some x, fr, r'))"

definition process_connection_id ::
  "u8 \<Rightarrow> quic_packet_header \<Rightarrow> ('v, 'z) framer_read \<Rightarrow> quic_packet_header option \<times> ('v, 'z) framer_read" where
  "process_connection_id public_flags header =
     (if public_flags AND PACKET_PUBLIC_FLAGS_8BYTE_CONNECTION_ID = PACKET_PUBLIC_FLAGS_8BYTE_CONNECTION_ID
      then framer_bind (framer_try ''Unable to read ConnectionId.'' ReadConnectionId) (\<lambda>connection_id.
             framer_return (header\<lparr>ph_connection_id := connection_id, ph_connection_id_length := PACKET_8BYTE_CID\<rparr>))
      else (\<lambda>(fr, r). framer_return (header\<lparr>ph_connection_id_length := PACKET_0BYTE_CID,
                                            ph_connection_id := fr_last_serialized_connection_id fr\<rparr>) (fr, r)))"

definition process_version ::
  "framer_libs \<Rightarrow> u8 \<Rightarrow> quic_packet_header \<Rightarrow> ('v, 'z) framer_read \<Rightarrow> quic_packet_header option \<times> ('v, 'z) framer_read" where
  "process_version libs public_flags header = (\<lambda>(fr, r).
     if ph_version_flag header \<and> fr_perspective fr = IS_SERVER then
       framer_bind (framer_try ''Unable to read protocol version.'' ReadTag) (\<lambda>tag (fr, r).
         let version_label = NetToHost32 tag;
             fr = fr\<lparr>fr_last_version_label := version_label\<rparr>;
             version = ParseQuicVersionLabel libs version_label
         in if version = fr_version fr \<and> public_flags > PACKET_PUBLIC_FLAGS_MAX
            then framer_fail ''Illegal public flags value.'' (fr, r)
            else framer_return (header\<lparr>ph_version := version\<rparr>) (fr, r)) (fr, r)
     else framer_return header (fr, r))"

definition process_nonce ::
  "u8 \<Rightarrow> quic_packet_header \<Rightarrow> ('v, 'z) framer_read \<Rightarrow> quic_packet_header option \<times> ('v, 'z) framer_read" where
  "process_nonce public_flags header = (\<lambda>(fr, r).
     if public_flags AND PACKET_PUBLIC_FLAGS_NONCE \<noteq> 0 \<and> public_flags AND PACKET_PUBLIC_FLAGS_VERSION = 0 \<and>
        public_flags AND PACKET_PUBLIC_FLAGS_RST = 0 \<and> fr_perspective fr = IS_CLIENT
     then framer_bind (framer_try ''Unable to read nonce.'' (ReadBytes kDiversificationNonceSize)) (\<lambda>nonce (fr, r).
            framer_return (header\<lparr>ph_nonce := Some nonce\<rparr>) (fr\<lparr>fr_last_nonce := nonce\<rparr>, r)) (fr, r)
     else framer_return (header\<lparr>ph_nonce := None\<rparr>) (fr, r))"

definition ProcessPublicHeader ::
  "framer_libs \<Rightarrow> quic_packet_header \<Rightarrow> ('v, 'z) framer_read \<Rightarrow> quic_packet_header option \<times> ('v, 'z) framer_read" where
  "ProcessPublicHeader libs header =
     framer_bind (framer_try ''Unable to read public flags.'' (ReadBytes 1)) (\<lambda>flag_bytes (fr, r).
       let public_flags = hd flag_bytes;
           header = header\<lparr>ph_reset_flag := (public_flags AND PACKET_PUBLIC_FLAGS_RST \<noteq> 0),
                           ph_version_flag := (public_flags AND PACKET_PUBLIC_FLAGS_VERSION \<noteq> 0)\<rparr>
       in
       if fr_validate_flags fr \<and> \<not> ph_version_flag header \<and> public_flags > PACKET_PUBLIC_FLAGS_MAX
       then framer_fail ''Illegal public flags value.'' (fr, r)
       else if ph_reset_flag header \<and> ph_version_flag header
       then framer_fail ''Got version flag in reset packet'' (fr, r)
       else
         framer_bind (process_connection_id public_flags header) (\<lambda>header.
           framer_bind (process_version libs public_flags (header\<lparr>ph_packet_number_length :=
               ReadSequenceNumberLength (drop_bit kPublicHeaderSequenceNumberShift public_flags)\<rparr>))
             (process_nonce public_flags)) (fr, r))"

definition ProcessUnauthenticatedHeader ::
  "('v, 'y) packet_visitor_scheme \<Rightarrow> quic_packet_header \<Rightarrow> ('v, 'z) framer_read
    \<Rightarrow> quic_packet_header option \<times> ('v, 'z) framer_read" where
  "ProcessUnauthenticatedHeader vis header = (\<lambda>(fr, r).
     let fail = (\<lambda>m fr r. (None, snd (RaiseError vis QUIC_INVALID_PACKET_HEADER (fr\<lparr>fr_detailed_error := m\<rparr>)), r)) in
     case ProcessAndCalculatePacketNumber (ph_packet_number_length header) (fr_largest_packet_number fr) r of
       (None, r') \<Rightarrow> fail ''Unable to read packet number.'' fr r'
     | (Some packet_number, r') \<Rightarrow>
         let header = header\<lparr>ph_packet_number := packet_number\<rparr> in
         if packet_number = 0 then fail ''packet numbers cannot be 0.'' fr r'
         else
           case OnUnauthenticatedHeader vis header (fr_visitor fr) of
             (False, v) \<Rightarrow> (None, fr\<lparr>fr_visitor := v,
                 fr_detailed_error := ''Visitor asked to stop processing of unauthenticated header.''\<rparr>, r')
           | (True, v) \<Rightarrow> (Some header, fr\<lparr>fr_visitor := v\<rparr>, r'))"

lemma ReadTag_advances: "ReadTag r = (Some tag, r') \<Longrightarrow> BytesRemaining r' < BytesRemaining r"
  by (auto simp: ReadTag_def read_bind_def read_return_def ReadBytes_def CanRead_def BytesRemaining_def
      split: prod.splits option.splits if_splits)

function read_versions :: "framer_libs \<Rightarrow> quic_data_reader \<Rightarrow> parsed_quic_version list option \<times> quic_data_reader" where
  "read_versions libs r =
     (case ReadTag r of
        (None, r') \<Rightarrow> (None, r')
      | (Some tag, r') \<Rightarrow>
          let version = ParseQuicVersionLabel libs (NetToHost32 tag) in
          if IsDoneReading r' then (Some [version], r')
          else case read_versions libs r' of
                 (None, r'') \<Rightarrow> (None, r'')
               | (Some versions, r'') \<Rightarrow> (Some (version # versions), r''))"
  by pat_completeness auto

termination
  by (relation "measure (\<lambda>(_, r). BytesRemaining r)") (auto dest: ReadTag_advances [OF sym])

declare read_versions.simps [simp del]

definition ProcessVersionNegotiationPacket ::
  "framer_libs \<Rightarrow> ('v, 'y) packet_visitor_scheme \<Rightarrow> quic_packet_header \<Rightarrow> ('v, 'z) framer_read \<Rightarrow> bool \<times> ('v, 'z) framer_read" where
  "ProcessVersionNegotiationPacket libs vis header = (\<lambda>(fr, r).
     case read_versions libs r of
       (None, r') \<Rightarrow>
         (case RaiseError vis QUIC_INVALID_VERSION_NEGOTIATION_PACKET
                 (fr\<lparr>fr_detailed_error := ''Unable to read supported version in negotiation.''\<rparr>) of (ret, fr') \<Rightarrow> (ret, fr', r'))
     | (Some versions, r') \<Rightarrow>
         (True, fr\<lparr>fr_visitor := OnVersionNegotiationPacket vis (ph_connection_id header) versions (fr_visitor fr)\<rparr>, r'))"

definition GetUint64 :: "crypto_handshake_message \<Rightarrow> u32 \<Rightarrow> u64 option" where
  "GetUint64 message tag =
     (case map_of (cm_values message) tag of
        None \<Rightarrow> None
      | Some value \<Rightarrow> if length value \<noteq> 8 then None else Some (word_of_nat (le_value value)))"

definition ProcessPublicResetPacket ::
  "framer_libs \<Rightarrow> ('v, 'y) packet_visitor_scheme \<Rightarrow> quic_packet_header \<Rightarrow> ('v, 'z) framer_read \<Rightarrow> bool \<times> ('v, 'z) framer_read" where
  "ProcessPublicResetPacket libs vis header = (\<lambda>(fr, r).
     case ReadRemainingPayload r of (payload, r') \<Rightarrow>
       let fail = (\<lambda>m. case RaiseError vis QUIC_INVALID_PUBLIC_RST_PACKET (fr\<lparr>fr_detailed_error := m\<rparr>) of (ret, fr') \<Rightarrow> (ret, fr', r')) in
       case ParseMessage libs payload (fr_perspective fr) of
         None \<Rightarrow> fail ''Unable to read reset message.''
       | Some reset \<Rightarrow>
           if cm_tag reset \<noteq> kPRST then fail ''Incorrect message tag.''
           else (case GetUint64 reset kRNON of
             None \<Rightarrow> fail ''Unable to read nonce proof.''
           | Some nonce_proof \<Rightarrow>
               let none = \<lparr>sa_host = [], sa_port = 0\<rparr>;
                   address = (case map_of (cm_values reset) kCADR of
                                None \<Rightarrow> none
                              | Some address \<Rightarrow> (case DecodeAddress libs address of None \<Rightarrow> none | Some a \<Rightarrow> a));
                   packet = \<lparr>pr_connection_id = ph_connection_id header, pr_nonce_proof = nonce_proof, pr_client_address = address\<rparr>
               in (True, fr\<lparr>fr_visitor := OnPublicResetPacket vis packet (fr_visitor fr)\<rparr>, r')))"

text \<open>
  The decrypted payload has its own reader. ProcessFrameData keeps the fields of the framer beyond
  the visitor, the error and the last timestamp.
\<close>

definition ProcessDataPacket ::
  "framer_libs \<Rightarrow> ('v, 'y) packet_visitor_scheme \<Rightarrow> quic_packet_header \<Rightarrow> u8 list \<Rightarrow> nat \<Rightarrow> ('v, 'z) framer_read
    \<Rightarrow> bool \<times> ('v, 'z) quic_framer_scheme" where
  "ProcessDataPacket libs vis header packet buffer_length = (\<lambda>(fr, r).
     case ProcessUnauthenticatedHeader vis header (fr, r) of
       (None, fr, r) \<Rightarrow> (False, fr)
     | (Some header, fr, r) \<Rightarrow>
         case DecryptPayload libs vis header packet (fst (ReadRemainingPayload r)) buffer_length fr of
           (None, fr) \<Rightarrow> RaiseError vis QUIC_DECRYPTION_FAILURE (fr\<lparr>fr_detailed_error := ''Unable to decrypt payload.''\<rparr>)
         | (Some plain, fr) \<Rightarrow>
             let reader = QuicDataReader plain (endianness fr);
                 fr = fr\<lparr>fr_largest_packet_number := max (ph_packet_number header) (fr_largest_packet_number fr)\<rparr>
             in case OnPacketHeader vis header (fr_visitor fr) of
                  (False, v) \<Rightarrow> (True, fr\<lparr>fr_visitor := v\<rparr>)
                | (True, v) \<Rightarrow>
                    let fr = fr\<lparr>fr_visitor := v\<rparr> in
                    if length packet > kMaxPacketSize then RaiseError vis QUIC_PACKET_TOO_LARGE fr
                    else case ProcessFrameData (params_of libs fr) vis (ph_packet_number_length header) (ph_packet_number header) fr reader of
                           (False, fr, _) \<Rightarrow> (False, fr)
                         | (True, fr, _) \<Rightarrow> (True, fr\<lparr>fr_visitor := OnPacketComplete vis (fr_visitor fr)\<rparr>))"

definition ProcessPacket ::
  "framer_libs \<Rightarrow> ('v, 'y) packet_visitor_scheme \<Rightarrow> u8 list \<Rightarrow> ('v, 'z) quic_framer_scheme \<Rightarrow> bool \<times> ('v, 'z) quic_framer_scheme" where
  "ProcessPacket libs vis packet fr =
     (let reader = QuicDataReader packet (endianness fr);
          fr = fr\<lparr>fr_last_packet_is_ietf_quic := False\<rparr>;
          fr = fr\<lparr>fr_visitor := OnPacket vis (fr_visitor fr)\<rparr>
      in case ProcessPublicHeader libs (QuicPacketHeader libs) (fr, reader) of
           (None, fr, r) \<Rightarrow> RaiseError vis QUIC_INVALID_PACKET_HEADER fr
         | (Some header, fr, r) \<Rightarrow>
             case OnUnauthenticatedPublicHeader vis header (fr_visitor fr) of
               (False, v) \<Rightarrow> (True, fr\<lparr>fr_visitor := v\<rparr>)
             | (True, v) \<Rightarrow>
                 let fr = fr\<lparr>fr_visitor := v\<rparr>;
                     mismatch = fr_perspective fr = IS_SERVER \<and> ph_version_flag header \<and> ph_version header \<noteq> fr_version fr
                 in case (if mismatch then OnProtocolVersionMismatch vis (ph_version header) (fr_visitor fr)
                          else (True, None, fr_visitor fr)) of
                      (go_on, new_version, v) \<Rightarrow>
                        let fr = fr\<lparr>fr_visitor := v,
                                    fr_version := (case new_version of None \<Rightarrow> fr_version fr | Some version \<Rightarrow> version)\<rparr> in
                        if \<not> go_on then (True, fr)
                        else
                          let r = r\<lparr>r_endianness := endianness fr\<rparr> in
                          if fr_perspective fr = IS_CLIENT \<and> ph_version_flag header
                          then (case ProcessVersionNegotiationPacket libs vis header (fr, r) of (rv, fr, _) \<Rightarrow> (rv, fr))
                          else if ph_reset_flag header
                          then (case ProcessPublicResetPacket libs vis header (fr, r) of (rv, fr, _) \<Rightarrow> (rv, fr))
                          else if length packet \<le> kMaxPacketSize
                          then ProcessDataPacket libs vis header packet kMaxPacketSize (fr, r)
                          else ProcessDataPacket libs vis header packet (length packet) (fr, r))"

text \<open>The comparison is strncmp on the four bytes of the tag, which has no zero byte.\<close>

definition StartsWithChlo :: "u32 \<Rightarrow> u64 \<Rightarrow> ('v, 'z) quic_framer_scheme \<Rightarrow> bool" where
  "StartsWithChlo stream_id offset fr =
     (case fr_data_producer fr of
        None \<Rightarrow> False
      | Some producer \<Rightarrow>
          (case producer stream_id offset 4 (QuicDataWriter 4 (replicate 4 0) (endianness fr)) of
             (False, w) \<Rightarrow> False
           | (True, w) \<Rightarrow> take 4 (w_buffer w) = le_bytes 4 (unat kCHLO)))"

end
