(* ===== verification/Packet_Roundtrip.thy ===== *)
theory Packet_Roundtrip
  imports Framer_Packet
begin

text \<open>
  A packet on its way from BuildDataPacket through EncryptInPlace to ProcessPacket of the peer: what
  the header looks like on the wire, how ProcessPublicHeader and ProcessUnauthenticatedHeader read
  it back, and how the decrypted payload reaches the visitor.
\<close>

section \<open>Headers on the wire\<close>

lemma header_flags_decode:
  fixes p :: perspective and h :: quic_packet_header
  assumes "ph_packet_number_length h \<in> {1, 2, 4, 6}"
  defines "f \<equiv> header_flags p h"
  shows "(f AND 0x02 \<noteq> 0) = ph_reset_flag h" "(f AND 0x01 \<noteq> 0) = ph_version_flag h"
    "(f AND 0x08 = 0x08) = (ph_connection_id_length h = PACKET_8BYTE_CID)"
    "(f AND 0x04 \<noteq> 0) = (ph_nonce h \<noteq> None \<or> p = IS_CLIENT \<and> ph_connection_id_length h = PACKET_8BYTE_CID)"
    "ReadSequenceNumberLength (drop_bit 4 f) = ph_packet_number_length h" "f \<le> 0x3f"
proof -
  have "((f AND 0x02 \<noteq> 0) = ph_reset_flag h) \<and> ((f AND 0x01 \<noteq> 0) = ph_version_flag h) \<and>
    ((f AND 0x08 = 0x08) = (ph_connection_id_length h = PACKET_8BYTE_CID)) \<and>
    ((f AND 0x04 \<noteq> 0) = (ph_nonce h \<noteq> None \<or> p = IS_CLIENT \<and> ph_connection_id_length h = PACKET_8BYTE_CID)) \<and>
    ReadSequenceNumberLength (drop_bit 4 f) = ph_packet_number_length h \<and> f \<le> 0x3f"
    using assms(1) unfolding f_def header_flags_def Let_def
    by (elim insertE emptyE; cases "ph_reset_flag h"; cases "ph_version_flag h"; cases "ph_nonce h";
        cases "ph_connection_id_length h"; cases p)
      (simp_all add: public_flag_defs packet_flag_defs packet_length_defs GetPacketNumberFlags_def
        ReadSequenceNumberLength_def kPublicHeaderSequenceNumberShift_def)
  then show "(f AND 0x02 \<noteq> 0) = ph_reset_flag h" "(f AND 0x01 \<noteq> 0) = ph_version_flag h"
    "(f AND 0x08 = 0x08) = (ph_connection_id_length h = PACKET_8BYTE_CID)"
    "(f AND 0x04 \<noteq> 0) = (ph_nonce h \<noteq> None \<or> p = IS_CLIENT \<and> ph_connection_id_length h = PACKET_8BYTE_CID)"
    "ReadSequenceNumberLength (drop_bit 4 f) = ph_packet_number_length h" "f \<le> 0x3f" by blast+
qed

definition header_bytes :: "framer_libs \<Rightarrow> perspective \<Rightarrow> parsed_quic_version \<Rightarrow> quic_packet_header \<Rightarrow> u8 list" where
  "header_bytes libs p version h =
     [header_flags p h] @
     (case ph_connection_id_length h of PACKET_0BYTE_CID \<Rightarrow> [] | PACKET_8BYTE_CID \<Rightarrow> be_bytes 8 (unat (ph_connection_id h))) @
     (if ph_version_flag h then be_bytes 4 (unat (CreateQuicVersionLabel libs version)) else []) @
     (case ph_nonce h of None \<Rightarrow> [] | Some nonce \<Rightarrow> take kDiversificationNonceSize nonce) @
     uint_bytes (endianness_of (pv_transport_version version)) (ph_packet_number_length h)
       (unat (ph_packet_number h))"

lemma header_appended:
  assumes "ph_packet_number_length h \<in> {1, 2, 4, 6}" "w_ok w" "w_endianness w = endianness fr"
    "length (header_bytes libs (fr_perspective fr) (fr_version fr) h) \<le> w_room w"
  shows "AppendPacketHeader libs h (fr, w) =
    (True, fr\<lparr>fr_last_serialized_connection_id := ph_connection_id h\<rparr>, w_put (header_bytes libs (fr_perspective fr) (fr_version fr) h) w)"
proof -
  let ?e = "endianness fr"
  let ?id = "case ph_connection_id_length h of PACKET_0BYTE_CID \<Rightarrow> [] | PACKET_8BYTE_CID \<Rightarrow> be_bytes 8 (unat (ph_connection_id h))"
  let ?a = "[header_flags (fr_perspective fr) h] @ ?id"
  let ?b = "(if ph_version_flag h then be_bytes 4 (unat (CreateQuicVersionLabel libs (fr_version fr))) else []) @
     (case ph_nonce h of None \<Rightarrow> [] | Some nonce \<Rightarrow> take kDiversificationNonceSize nonce) @
     uint_bytes ?e (ph_packet_number_length h) (unat (ph_packet_number h))"
  have bytes: "header_bytes libs (fr_perspective fr) (fr_version fr) h = ?a @ ?b"
    by (simp add: header_bytes_def endianness_def)
  have a: "appends ?e (and_then (WriteUInt8 (header_flags (fr_perspective fr) h))
      (case ph_connection_id_length h of PACKET_0BYTE_CID \<Rightarrow> write_nothing | PACKET_8BYTE_CID \<Rightarrow> WriteConnectionId (ph_connection_id h))) ?a"
    by (intro appends_and_then) (auto split: connection_id_length.splits)
  have v: "appends ?e (if ph_version_flag h then WriteTag (NetToHost32 (CreateQuicVersionLabel libs (fr_version fr))) else write_nothing)
      (if ph_version_flag h then be_bytes 4 (unat (CreateQuicVersionLabel libs (fr_version fr))) else [])"
    using appends_WriteTag [of ?e "NetToHost32 (CreateQuicVersionLabel libs (fr_version fr))"]
    by (simp add: NetToHost32_def le_bytes_HostToNet)
  have pn: "appends ?e (AppendPacketNumber (ph_packet_number_length h) (ph_packet_number h))
      (uint_bytes ?e (ph_packet_number_length h) (unat (ph_packet_number h)))"
    using assms(1) by (auto simp: appends_AppendPacketNumber)
  have b: "appends ?e (and_then (if ph_version_flag h then WriteTag (NetToHost32 (CreateQuicVersionLabel libs (fr_version fr))) else write_nothing)
      (and_then (case ph_nonce h of None \<Rightarrow> write_nothing | Some nonce \<Rightarrow> WriteBytes (take kDiversificationNonceSize nonce))
        (AppendPacketNumber (ph_packet_number_length h) (ph_packet_number h)))) ?b"
    by (intro appends_and_then v pn) (auto split: option.splits)
  have room: "length ?a + length ?b \<le> w_room w" using assms(4) unfolding bytes by simp
  have 1: "and_then (WriteUInt8 (header_flags (fr_perspective fr) h))
      (case ph_connection_id_length h of PACKET_0BYTE_CID \<Rightarrow> write_nothing | PACKET_8BYTE_CID \<Rightarrow> WriteConnectionId (ph_connection_id h)) w =
      (True, w_put ?a w)"
    using room by (intro appends_fits [OF a assms(2,3)]) simp
  have w: "w_ok (w_put ?a w)" using room assms(2) by simp
  have "and_then (if ph_version_flag h then WriteTag (NetToHost32 (CreateQuicVersionLabel libs (fr_version fr))) else write_nothing)
      (and_then (case ph_nonce h of None \<Rightarrow> write_nothing | Some nonce \<Rightarrow> WriteBytes (take kDiversificationNonceSize nonce))
        (AppendPacketNumber (ph_packet_number_length h) (ph_packet_number h))) (w_put ?a w) = (True, w_put ?b (w_put ?a w))"
    using room assms(3) by (intro appends_fits [OF b w]) simp_all
  then show ?thesis using 1 w_put_put [OF assms(2) room] unfolding AppendPacketHeader_def Let_def bytes
    by (simp split del: if_split)
qed


definition header_ok :: "perspective \<Rightarrow> ('v, 'z) quic_framer_scheme \<Rightarrow> quic_packet_header \<Rightarrow> bool" where
  "header_ok p fr h \<longleftrightarrow>
     ph_packet_number_length h \<in> {1, 2, 4, 6} \<and> fr_perspective fr \<noteq> p \<and>
     \<not> (ph_reset_flag h \<and> ph_version_flag h) \<and> (ph_version_flag h \<longrightarrow> p = IS_CLIENT) \<and>
     (case ph_nonce h of None \<Rightarrow> True
      | Some nonce \<Rightarrow> p = IS_SERVER \<and> \<not> ph_reset_flag h \<and> length nonce = kDiversificationNonceSize) \<and>
     (ph_connection_id_length h = PACKET_0BYTE_CID \<longrightarrow> fr_last_serialized_connection_id fr = ph_connection_id h)"

definition public_bytes :: "framer_libs \<Rightarrow> perspective \<Rightarrow> parsed_quic_version \<Rightarrow> quic_packet_header \<Rightarrow> u8 list" where
  "public_bytes libs p version h =
     [header_flags p h] @
     (case ph_connection_id_length h of PACKET_0BYTE_CID \<Rightarrow> [] | PACKET_8BYTE_CID \<Rightarrow> be_bytes 8 (unat (ph_connection_id h))) @
     (if ph_version_flag h then be_bytes 4 (unat (CreateQuicVersionLabel libs version)) else []) @
     (case ph_nonce h of None \<Rightarrow> [] | Some nonce \<Rightarrow> take kDiversificationNonceSize nonce)"

lemma header_bytes_public:
  "header_bytes libs p version h = public_bytes libs p version h @
     uint_bytes (endianness_of (pv_transport_version version)) (ph_packet_number_length h) (unat (ph_packet_number h))"
  by (simp add: header_bytes_def public_bytes_def)

definition received_header :: "framer_libs \<Rightarrow> parsed_quic_version \<Rightarrow> quic_packet_header \<Rightarrow> quic_packet_header" where
  "received_header libs version h =
     h\<lparr>ph_version := (if ph_version_flag h then ParseQuicVersionLabel libs (CreateQuicVersionLabel libs version)
                      else ph_version (QuicPacketHeader libs))\<rparr>"

lemma NetToHost32_HostToNet32: "NetToHost32 (HostToNet32 x) = x"
proof -
  have "le_bytes 4 (unat (HostToNet32 (HostToNet32 x))) = le_bytes 4 (unat x)"
    by (simp add: le_bytes_HostToNet(2) be_bytes_def)
  from arg_cong [OF this, of le_value] show ?thesis
    using unat_u32_less [of x] unat_u32_less [of "HostToNet32 (HostToNet32 x)"]
    by (simp add: NetToHost32_def word_unat_eq_iff le_value_bytes)
qed

lemma reads_version_label: "reads e ReadTag (be_bytes 4 (unat label)) (HostToNet32 label)"
  using reads_ReadTag [of e "HostToNet32 label"] by (simp add: le_bytes_HostToNet)

definition note_label :: "framer_libs \<Rightarrow> parsed_quic_version \<Rightarrow> quic_packet_header \<Rightarrow> ('v, 'z) quic_framer_scheme \<Rightarrow> ('v, 'z) quic_framer_scheme" where
  "note_label libs version h fr =
     (if ph_version_flag h then fr\<lparr>fr_last_version_label := CreateQuicVersionLabel libs version\<rparr> else fr)"

definition note_nonce :: "quic_packet_header \<Rightarrow> ('v, 'z) quic_framer_scheme \<Rightarrow> ('v, 'z) quic_framer_scheme" where
  "note_nonce h fr = (case ph_nonce h of None \<Rightarrow> fr | Some nonce \<Rightarrow> fr\<lparr>fr_last_nonce := nonce\<rparr>)"

lemma framer_try_read:
  "reads (r_endianness r) f bs x \<Longrightarrow> r_rest r = bs @ rest \<Longrightarrow> framer_try m f (fr, r) = (Some x, fr, r_skip (length bs) r)"
  by (simp add: framer_try_def readsD)

lemma process_connection_id_read:
  assumes "header_ok p fr h" "r_rest r = (case ph_connection_id_length h of PACKET_0BYTE_CID \<Rightarrow> []
      | PACKET_8BYTE_CID \<Rightarrow> be_bytes 8 (unat (ph_connection_id h))) @ rest"
  shows "process_connection_id (header_flags p h) h0 (fr, r) =
    (Some (h0\<lparr>ph_connection_id := ph_connection_id h, ph_connection_id_length := ph_connection_id_length h\<rparr>), fr,
     r_skip (length (case ph_connection_id_length h of PACKET_0BYTE_CID \<Rightarrow> []
      | PACKET_8BYTE_CID \<Rightarrow> be_bytes 8 (unat (ph_connection_id h)))) r)"
proof (cases "ph_connection_id_length h")
  case PACKET_0BYTE_CID
  then show ?thesis using assms header_flags_decode(3) [of h p]
    by (simp add: process_connection_id_def header_ok_def public_flag_defs framer_return_def)
next
  case PACKET_8BYTE_CID
  then show ?thesis using assms header_flags_decode(3) [of h p]
    by (simp add: framer_try_read [OF reads_ReadConnectionId] process_connection_id_def header_ok_def public_flag_defs framer_return_def framer_bind_def)
qed

lemma process_version_read:
  assumes "header_ok p fr h" "ph_version_flag h0 = ph_version_flag h"
    "r_rest r = (if ph_version_flag h then be_bytes 4 (unat (CreateQuicVersionLabel libs version)) else []) @ rest"
  shows "process_version libs (header_flags p h) h0 (fr, r) =
    (Some (if ph_version_flag h then h0\<lparr>ph_version := ParseQuicVersionLabel libs (CreateQuicVersionLabel libs version)\<rparr> else h0),
     note_label libs version h fr,
     r_skip (length (if ph_version_flag h then be_bytes 4 (unat (CreateQuicVersionLabel libs version)) else [])) r)"
proof (cases "ph_version_flag h")
  case True
  then have "fr_perspective fr = IS_SERVER" using assms(1) by (cases "fr_perspective fr") (auto simp: header_ok_def)
  moreover have "\<not> 0x3f < header_flags p h" using header_flags_decode(6) [of h p] assms(1) by (simp add: header_ok_def not_less)
  ultimately show ?thesis using True assms
    by (simp add: framer_try_read [OF reads_version_label] process_version_def framer_return_def framer_bind_def NetToHost32_HostToNet32 note_label_def Let_def public_flag_defs)
next
  case False
  then show ?thesis using assms by (simp add: process_version_def framer_return_def note_label_def)
qed

lemma process_nonce_read:
  assumes "header_ok p fr h"
    "r_rest r = (case ph_nonce h of None \<Rightarrow> [] | Some nonce \<Rightarrow> take kDiversificationNonceSize nonce) @ rest"
  shows "process_nonce (header_flags p h) h0 (fr, r) =
    (Some (h0\<lparr>ph_nonce := ph_nonce h\<rparr>), note_nonce h fr,
     r_skip (length (case ph_nonce h of None \<Rightarrow> [] | Some nonce \<Rightarrow> take kDiversificationNonceSize nonce)) r)"
proof -
  have len: "ph_packet_number_length h \<in> {1, 2, 4, 6}" using assms(1) by (simp add: header_ok_def)
  have f: "header_flags p h AND 2 = 0 \<longleftrightarrow> \<not> ph_reset_flag h" "header_flags p h AND 1 = 0 \<longleftrightarrow> \<not> ph_version_flag h"
    "header_flags p h AND 4 = 0 \<longleftrightarrow> \<not> (ph_nonce h \<noteq> None \<or> p = IS_CLIENT \<and> ph_connection_id_length h = PACKET_8BYTE_CID)"
    using header_flags_decode(1,2,4) [OF len, of p] by auto
  show ?thesis
  proof (cases "ph_nonce h")
    case None
    then have "header_flags p h AND 4 \<noteq> 0 \<Longrightarrow> fr_perspective fr \<noteq> IS_CLIENT" using assms(1) f(3) by (auto simp: header_ok_def)
    then show ?thesis using None by (auto simp: process_nonce_def public_flag_defs framer_return_def note_nonce_def)
  next
    case (Some nonce)
    then have ok: "p = IS_SERVER" "\<not> ph_reset_flag h" "\<not> ph_version_flag h" "length nonce = kDiversificationNonceSize"
      using assms(1) by (auto simp: header_ok_def)
    then have "fr_perspective fr = IS_CLIENT" using assms(1) by (cases "fr_perspective fr") (auto simp: header_ok_def)
    then show ?thesis using Some ok f assms(2)
      by (simp add: framer_try_read [OF reads_ReadBytes [OF ok(4)]] process_nonce_def public_flag_defs framer_return_def framer_bind_def note_nonce_def)
  qed
qed

lemma header_ok_note [simp]: "header_ok p (note_label libs version h fr) h = header_ok p fr h"
  by (simp add: note_label_def header_ok_def)

lemma public_header_read:
  assumes ok: "header_ok p fr h" and r: "r_rest r = public_bytes libs p version h @ rest"
  shows "ProcessPublicHeader libs (QuicPacketHeader libs) (fr, r) =
    (Some ((received_header libs version h)\<lparr>ph_packet_number := ph_packet_number (QuicPacketHeader libs)\<rparr>),
     note_nonce h (note_label libs version h fr), r_skip (length (public_bytes libs p version h)) r)"
proof -
  let ?f = "header_flags p h" and ?e = "r_endianness r"
  let ?id = "case ph_connection_id_length h of PACKET_0BYTE_CID \<Rightarrow> [] | PACKET_8BYTE_CID \<Rightarrow> be_bytes 8 (unat (ph_connection_id h))"
  let ?v = "if ph_version_flag h then be_bytes 4 (unat (CreateQuicVersionLabel libs version)) else []"
  let ?n = "case ph_nonce h of None \<Rightarrow> [] | Some nonce \<Rightarrow> take kDiversificationNonceSize nonce"
  have len: "ph_packet_number_length h \<in> {1, 2, 4, 6}" using ok by (simp add: header_ok_def)
  note flags = header_flags_decode [OF len, of p]
  have rest: "r_rest r = [?f] @ ?id @ ?v @ ?n @ rest" using r by (simp add: public_bytes_def)
  let ?r1 = "r_skip (length [?f]) r" let ?r2 = "r_skip (length ?id) ?r1" let ?r3 = "r_skip (length ?v) ?r2"
  have r1: "r_rest ?r1 = ?id @ ?v @ ?n @ rest" using r_rest_skip [OF rest] .
  have r2: "r_rest ?r2 = ?v @ ?n @ rest" using r_rest_skip [OF r1] .
  have r3: "r_rest ?r3 = ?n @ rest" using r_rest_skip [OF r2] .
  define h1 where "h1 = (QuicPacketHeader libs)\<lparr>ph_reset_flag := ph_reset_flag h, ph_version_flag := ph_version_flag h\<rparr>"
  define h2 where "h2 = h1\<lparr>ph_connection_id := ph_connection_id h, ph_connection_id_length := ph_connection_id_length h\<rparr>"
  define h3 where "h3 = h2\<lparr>ph_packet_number_length := ph_packet_number_length h\<rparr>"
  define h4 where "h4 = (if ph_version_flag h then h3\<lparr>ph_version := ParseQuicVersionLabel libs (CreateQuicVersionLabel libs version)\<rparr> else h3)"
  have s1: "framer_try ''Unable to read public flags.'' (ReadBytes 1) (fr, r) = (Some [?f], fr, ?r1)"
    using framer_try_read [OF reads_ReadBytes [of "[?f]" 1] rest] by simp
  have s2: "process_connection_id ?f h1 (fr, ?r1) = (Some h2, fr, ?r2)"
    unfolding h2_def by (rule process_connection_id_read [OF ok r1])
  have s3: "process_version libs ?f h3 (fr, ?r2) = (Some h4, note_label libs version h fr, ?r3)"
    unfolding h4_def by (rule process_version_read [OF ok _ r2]) (simp add: h3_def h2_def h1_def)
  have s4: "process_nonce ?f h4 (note_label libs version h fr, ?r3) =
      (Some (h4\<lparr>ph_nonce := ph_nonce h\<rparr>), note_nonce h (note_label libs version h fr), r_skip (length ?n) ?r3)"
    by (rule process_nonce_read [OF _ r3]) (simp add: ok)
  have "ProcessPublicHeader libs (QuicPacketHeader libs) (fr, r) =
      (Some (h4\<lparr>ph_nonce := ph_nonce h\<rparr>), note_nonce h (note_label libs version h fr), r_skip (length ?n) ?r3)"
  proof -
    have g: "(if fr_validate_flags fr \<and> \<not> ph_version_flag h1 \<and> ?f > PACKET_PUBLIC_FLAGS_MAX then a
        else if ph_reset_flag h1 \<and> ph_version_flag h1 then b else c) = c" for a b c :: "quic_packet_header option \<times> ('v, 'z) framer_read"
      using flags(6) ok by (auto simp: h1_def header_ok_def public_flag_defs)
    have h1: "(QuicPacketHeader libs)\<lparr>ph_reset_flag := (?f AND PACKET_PUBLIC_FLAGS_RST \<noteq> 0),
        ph_version_flag := (?f AND PACKET_PUBLIC_FLAGS_VERSION \<noteq> 0)\<rparr> = h1"
      by (simp only: h1_def public_flag_defs flags)
    have h3: "h2\<lparr>ph_packet_number_length := ReadSequenceNumberLength (drop_bit kPublicHeaderSequenceNumberShift ?f)\<rparr> = h3"
      by (simp only: h3_def kPublicHeaderSequenceNumberShift_def flags)
    show ?thesis unfolding ProcessPublicHeader_def framer_bind_def s1 prod.case option.case list.sel Let_def h1 g s2 h3 s3 s4 ..
  qed
  moreover have "h4\<lparr>ph_nonce := ph_nonce h\<rparr> = (received_header libs version h)\<lparr>ph_packet_number := ph_packet_number (QuicPacketHeader libs)\<rparr>"
    by (rule quic_packet_header.equality) (simp_all add: h4_def h3_def h2_def h1_def received_header_def)
  moreover have "r_skip (length ?n) ?r3 = r_skip (length (public_bytes libs p version h)) r"
    by (simp add: public_bytes_def add.assoc)
  ultimately show ?thesis by simp
qed

section \<open>From the sender's frames to the receiver's visitor\<close>

text \<open>The number of bytes in front of the encrypted data is the length of the header.\<close>

definition start_ok :: "framer_libs \<Rightarrow> bool" where
  "start_ok libs \<longleftrightarrow> (\<forall>version id_length includes_version includes_nonce pn_length.
     GetStartOfEncryptedData libs version id_length includes_version includes_nonce pn_length =
       1 + (case id_length of PACKET_0BYTE_CID \<Rightarrow> 0 | PACKET_8BYTE_CID \<Rightarrow> 8) + (if includes_version then 4 else 0) + pn_length
         + (if includes_nonce then 32 else 0))"

text \<open>A decrypter undoes what an encrypter does, whenever the buffer has room for the plaintext.\<close>

definition inverts :: "quic_decrypter \<Rightarrow> quic_encrypter \<Rightarrow> bool" where
  "inverts dec enc \<longleftrightarrow> (\<forall>version pn ad plain limit out limit'.
     EncryptPacket enc version pn ad plain limit = Some out \<longrightarrow> length plain \<le> limit' \<longrightarrow>
     DecryptPacket dec version pn ad out limit' = Some plain)"

definition accepting_packets :: "('v, 'y) packet_visitor_scheme \<Rightarrow> bool" where
  "accepting_packets vis \<longleftrightarrow> accepting vis \<and> (\<forall>h v. fst (OnUnauthenticatedPublicHeader vis h v)) \<and>
     (\<forall>h v. fst (OnUnauthenticatedHeader vis h v)) \<and> (\<forall>h v. fst (OnPacketHeader vis h v))"

text \<open>The packet number is within half a window of the one the receiver expects next.\<close>

definition number_ok :: "u64 \<Rightarrow> quic_packet_header \<Rightarrow> bool" where
  "number_ok largest h \<longleftrightarrow>
     ph_packet_number h \<noteq> 0 \<and> unat largest < 2 ^ 62 \<and>
     2 * unat (ph_packet_number h) < 2 * (unat largest + 1) + 2 ^ (8 * ph_packet_number_length h) \<and>
     2 * (unat largest + 1) < 2 * unat (ph_packet_number h) + 2 ^ (8 * ph_packet_number_length h)"

lemma length_header_bytes:
  assumes "start_ok libs" "header_ok p fr h"
  shows "length (header_bytes libs p version h) =
    GetStartOfEncryptedData libs v (ph_connection_id_length h) (ph_version_flag h) (ph_nonce h \<noteq> None) (ph_packet_number_length h)"
  using assms by (auto simp: start_ok_def header_bytes_def header_ok_def kDiversificationNonceSize_def
      split: connection_id_length.splits option.splits)

lemma packet_number_read:
  assumes "ph_packet_number_length h \<in> {1, 2, 4, 6}" "number_ok largest h" "r_endianness r = e"
    "r_rest r = uint_bytes e (ph_packet_number_length h) (unat (ph_packet_number h)) @ rest"
  shows "ProcessAndCalculatePacketNumber (ph_packet_number_length h) largest r =
    (Some (ph_packet_number h), r_skip (ph_packet_number_length h) r)"
proof -
  let ?l = "ph_packet_number_length h" and ?pn = "unat (ph_packet_number h)"
  have "ReadBytesToUInt64 ?l r = (Some (word_of_nat (?pn mod 256 ^ ?l)), r_skip ?l r)"
    using readsD [OF reads_ReadBytesToUInt64 assms(3,4)] assms(1) by auto
  moreover have "(256 :: nat) ^ ?l = 2 ^ (8 * ?l)" by (simp add: power_mult)
  moreover have "unat (CalculatePacketNumberFromWire ?l largest (word_of_nat (?pn mod 2 ^ (8 * ?l)))) = ?pn"
    using assms(2) by (intro CalculatePacketNumberFromWire_closest [OF assms(1)]) (simp_all add: number_ok_def)
  then have "CalculatePacketNumberFromWire ?l largest (word_of_nat (?pn mod 2 ^ (8 * ?l))) = ph_packet_number h"
    by (simp add: word_unat_eq_iff)
  ultimately show ?thesis by (simp add: ProcessAndCalculatePacketNumber_def read_bind_def read_return_def)
qed

lemma unauthenticated_header_read:
  assumes "ph_packet_number_length h \<in> {1, 2, 4, 6}" "number_ok (fr_largest_packet_number fr) h" "r_endianness r = e"
    "r_rest r = uint_bytes e (ph_packet_number_length h) (unat (ph_packet_number h)) @ rest" "accepting_packets vis"
  shows "ProcessUnauthenticatedHeader vis (h\<lparr>ph_packet_number := n\<rparr>) (fr, r) =
    (Some h, fr\<lparr>fr_visitor := snd (OnUnauthenticatedHeader vis h (fr_visitor fr))\<rparr>, r_skip (ph_packet_number_length h) r)"
proof -
  have "fst (OnUnauthenticatedHeader vis h (fr_visitor fr))" using assms(5) by (simp add: accepting_packets_def)
  then show ?thesis
    using packet_number_read [OF assms(1-4)] assms(2)
    by (cases "OnUnauthenticatedHeader vis h (fr_visitor fr)") (simp add: ProcessUnauthenticatedHeader_def Let_def number_ok_def)
qed

definition packet_seen ::
  "framer_libs \<Rightarrow> ('v, 'y) packet_visitor_scheme \<Rightarrow> quic_packet_header \<Rightarrow> nat \<Rightarrow> quic_frame list \<Rightarrow> 'v \<Rightarrow> 'v" where
  "packet_seen libs vis h level frames v =
     (let v = OnPacket vis v;
          v = snd (OnUnauthenticatedPublicHeader vis (h\<lparr>ph_packet_number := ph_packet_number (QuicPacketHeader libs)\<rparr>) v);
          v = snd (OnUnauthenticatedHeader vis h v);
          v = OnDecryptedPacket vis level v;
          v = snd (OnPacketHeader vis h v)
      in OnPacketComplete vis (deliver_frames vis frames v))"

lemma note_simps [simp]:
  "fr_visitor (note_nonce h fr) = fr_visitor fr" "fr_perspective (note_nonce h fr) = fr_perspective fr"
  "fr_version (note_nonce h fr) = fr_version fr" "fr_decrypter (note_nonce h fr) = fr_decrypter fr"
  "fr_decrypter_level (note_nonce h fr) = fr_decrypter_level fr"
  "fr_largest_packet_number (note_nonce h fr) = fr_largest_packet_number fr"
  "fr_use_incremental_ack_processing (note_nonce h fr) = fr_use_incremental_ack_processing fr"
  "fr_visitor (note_label libs version h fr) = fr_visitor fr" "fr_perspective (note_label libs version h fr) = fr_perspective fr"
  "fr_version (note_label libs version h fr) = fr_version fr" "fr_decrypter (note_label libs version h fr) = fr_decrypter fr"
  "fr_decrypter_level (note_label libs version h fr) = fr_decrypter_level fr"
  "fr_largest_packet_number (note_label libs version h fr) = fr_largest_packet_number fr"
  "fr_use_incremental_ack_processing (note_label libs version h fr) = fr_use_incremental_ack_processing fr"
  by (simp_all add: note_nonce_def note_label_def split: option.splits)

lemma frame_data_delivered:
  assumes "frames_ok fp len pn frames w" "frames \<noteq> []" "w_ok w" "accepting vis"
    "fp_version fp' = fp_version fp" "fp_incremental fp'" "w_endianness w = e"
  shows "\<exists>r'. ProcessFrameData fp' vis len pn s (QuicDataReader (frames_bytes fp len pn frames w) e) =
      (True, s\<lparr>fr_visitor := deliver_frames vis (frames_padded fp len pn frames w) (fr_visitor s)\<rparr>, r')"
proof -
  let ?r = "QuicDataReader (frames_bytes fp len pn frames w) e"
  have "frames_bytes fp len pn frames w \<noteq> []" using assms(1,2) by (cases frames) (auto simp: Let_def)
  then have "\<not> IsDoneReading ?r" by (simp add: IsDoneReading_def QuicDataReader_def)
  moreover have "r_ok ?r" "r_endianness ?r = w_endianness w" "r_rest ?r = frames_bytes fp len pn frames w"
    using assms(7) by (simp_all add: QuicDataReader_def r_ok_def r_rest_def)
  ultimately show ?thesis using frames_delivered [OF assms(1,3,4,5,6)] by (simp add: ProcessFrameData_def)
qed

lemma data_packet_processed:
  assumes len: "ph_packet_number_length h \<in> {1, 2, 4, 6}" and number: "number_ok (fr_largest_packet_number fr) h"
    and r: "r_endianness r = endianness fr"
      "r_rest r = uint_bytes (endianness fr) (ph_packet_number_length h) (unat (ph_packet_number h)) @ encrypted"
    and vis: "accepting_packets vis" and size: "length packet \<le> kMaxPacketSize"
    and dec: "DecryptPacket (fr_decrypter fr) (pv_transport_version (fr_version fr)) (ph_packet_number h)
        (GetAssociatedDataFromEncryptedPacket libs (pv_transport_version (fr_version fr)) packet (ph_connection_id_length h)
           (ph_version_flag h) (ph_nonce h \<noteq> None) (ph_packet_number_length h)) encrypted limit =
        Some (frames_bytes fp (ph_packet_number_length h) (ph_packet_number h) frames w)"
    and frames: "frames_ok fp (ph_packet_number_length h) (ph_packet_number h) frames w" "frames \<noteq> []" "w_ok w"
      "w_endianness w = endianness fr" "fp_version fp = pv_transport_version (fr_version fr)" "fr_use_incremental_ack_processing fr"
  shows "\<exists>fr'. ProcessDataPacket libs vis (h\<lparr>ph_packet_number := n\<rparr>) packet limit (fr, r) = (True, fr') \<and>
    fr_largest_packet_number fr' = max (ph_packet_number h) (fr_largest_packet_number fr) \<and>
    fr_visitor fr' = OnPacketComplete vis (deliver_frames vis
      (frames_padded fp (ph_packet_number_length h) (ph_packet_number h) frames w)
      (snd (OnPacketHeader vis h (OnDecryptedPacket vis (fr_decrypter_level fr) (snd (OnUnauthenticatedHeader vis h (fr_visitor fr)))))))"
proof -
  let ?frames = "frames_padded fp (ph_packet_number_length h) (ph_packet_number h) frames w"
  let ?plain = "frames_bytes fp (ph_packet_number_length h) (ph_packet_number h) frames w"
  define v1 where "v1 = snd (OnUnauthenticatedHeader vis h (fr_visitor fr))"
  define fr1 where "fr1 = fr\<lparr>fr_visitor := v1\<rparr>"
  define fr2 where "fr2 = fr1\<lparr>fr_visitor := OnDecryptedPacket vis (fr_decrypter_level fr) v1\<rparr>"
  define fr3 where "fr3 = fr2\<lparr>fr_largest_packet_number := max (ph_packet_number h) (fr_largest_packet_number fr2)\<rparr>"
  define v3 where "v3 = snd (OnPacketHeader vis h (fr_visitor fr3))"
  define fr4 where "fr4 = fr3\<lparr>fr_visitor := v3\<rparr>"
  have 1: "ProcessUnauthenticatedHeader vis (h\<lparr>ph_packet_number := n\<rparr>) (fr, r) = (Some h, fr1, r_skip (ph_packet_number_length h) r)"
    unfolding fr1_def v1_def by (rule unauthenticated_header_read [OF len number r vis])
  have "r_rest (r_skip (ph_packet_number_length h) r) = encrypted" using r_rest_skip [OF r(2)] by simp
  then have rest: "fst (ReadRemainingPayload (r_skip (ph_packet_number_length h) r)) = encrypted"
    by (simp add: ReadRemainingPayload_def PeekRemainingPayload_def r_rest_def)
  have 2: "DecryptPayload libs vis h packet encrypted limit fr1 = (Some ?plain, fr2)"
    using dec by (simp add: DecryptPayload_def Let_def fr2_def fr1_def)
  have 3: "OnPacketHeader vis h (fr_visitor fr3) = (True, v3)"
    using vis by (simp add: accepting_packets_def v3_def prod_eq_iff)
  have e: "endianness fr2 = endianness fr" by (simp add: endianness_def fr2_def fr1_def)
  have vis': "accepting vis" using vis by (simp add: accepting_packets_def)
  have p: "fp_version (params_of libs fr4) = fp_version fp" "fp_incremental (params_of libs fr4)"
    using frames(5,6) by (simp_all add: params_of_def fr4_def fr3_def fr2_def fr1_def)
  obtain r' where 4: "ProcessFrameData (params_of libs fr4) vis (ph_packet_number_length h) (ph_packet_number h) fr4
      (QuicDataReader ?plain (endianness fr)) = (True, fr4\<lparr>fr_visitor := deliver_frames vis ?frames (fr_visitor fr4)\<rparr>, r')"
    using frame_data_delivered [OF frames(1,2,3) vis' p frames(4)] by blast
  have large: "\<not> kMaxPacketSize < length packet" using size by simp
  have "ProcessDataPacket libs vis (h\<lparr>ph_packet_number := n\<rparr>) packet limit (fr, r) =
      (True, (fr4\<lparr>fr_visitor := deliver_frames vis ?frames (fr_visitor fr4)\<rparr>)
        \<lparr>fr_visitor := OnPacketComplete vis (fr_visitor (fr4\<lparr>fr_visitor := deliver_frames vis ?frames (fr_visitor fr4)\<rparr>))\<rparr>)"
    by (simp only: ProcessDataPacket_def prod.case 1 option.case rest 2 Let_def fr3_def [symmetric] 3 fr4_def [symmetric]
        if_False large e 4 bool.case)
  then show ?thesis by (simp add: fr4_def v3_def fr3_def fr2_def v1_def fr1_def)
qed

lemma data_packet_dispatched:
  assumes ok: "header_ok p fr h" and "\<not> ph_reset_flag h" "number_ok (fr_largest_packet_number fr) h"
    and packet: "packet = header_bytes libs p (fr_version fr) h @ encrypted" and size: "length packet \<le> kMaxPacketSize"
    and label: "ParseQuicVersionLabel libs (CreateQuicVersionLabel libs (fr_version fr)) = fr_version fr"
    and vis: "accepting_packets vis"
    and dec: "DecryptPacket (fr_decrypter fr) (pv_transport_version (fr_version fr)) (ph_packet_number h)
        (GetAssociatedDataFromEncryptedPacket libs (pv_transport_version (fr_version fr)) packet (ph_connection_id_length h)
           (ph_version_flag h) (ph_nonce h \<noteq> None) (ph_packet_number_length h)) encrypted kMaxPacketSize =
        Some (frames_bytes fp (ph_packet_number_length h) (ph_packet_number h) frames w)"
    and frames: "frames_ok fp (ph_packet_number_length h) (ph_packet_number h) frames w" "frames \<noteq> []" "w_ok w"
      "w_endianness w = endianness fr" "fp_version fp = pv_transport_version (fr_version fr)" "fr_use_incremental_ack_processing fr"
  shows "\<exists>fr'. ProcessPacket libs vis packet fr = (True, fr') \<and>
    fr_largest_packet_number fr' = max (ph_packet_number h) (fr_largest_packet_number fr) \<and>
    fr_visitor fr' = packet_seen libs vis (received_header libs (fr_version fr) h) (fr_decrypter_level fr)
      (frames_padded fp (ph_packet_number_length h) (ph_packet_number h) frames w) (fr_visitor fr)"
proof -
  define version where "version = fr_version fr"
  define h' where "h' = received_header libs version h"
  define h0 where "h0 = h'\<lparr>ph_packet_number := ph_packet_number (QuicPacketHeader libs)\<rparr>"
  define fr1 where "fr1 = fr\<lparr>fr_last_packet_is_ietf_quic := False, fr_visitor := OnPacket vis (fr_visitor fr)\<rparr>"
  define fr2 where "fr2 = note_nonce h (note_label libs version h fr1)"
  define v2 where "v2 = snd (OnUnauthenticatedPublicHeader vis h0 (fr_visitor fr2))"
  define fr3 where "fr3 = fr2\<lparr>fr_visitor := v2\<rparr>"
  define fr4 where "fr4 = fr3\<lparr>fr_visitor := v2, fr_version := version\<rparr>"
  define pub where "pub = public_bytes libs p version h"
  define pnb where "pnb = uint_bytes (endianness fr) (ph_packet_number_length h) (unat (ph_packet_number h))"
  let ?rd = "QuicDataReader packet (endianness fr)"
  let ?r = "r_skip (length pub) ?rd"
  have fields: "fr_version fr2 = version" "fr_perspective fr2 = fr_perspective fr"
    by (simp_all add: fr2_def fr1_def version_def)
  have pkt: "packet = pub @ pnb @ encrypted"
    by (simp add: packet header_bytes_public pub_def pnb_def version_def endianness_def)
  have rest: "r_rest ?rd = pub @ pnb @ encrypted" using pkt by (simp add: QuicDataReader_def r_rest_def)
  have ok1: "header_ok p fr1 h" using ok by (simp add: header_ok_def fr1_def)
  have 1: "ProcessPublicHeader libs (QuicPacketHeader libs) (fr1, ?rd) = (Some h0, fr2, ?r)"
    using public_header_read [OF ok1 rest [unfolded pub_def]] by (simp add: h0_def h'_def fr2_def pub_def)
  have 2: "OnUnauthenticatedPublicHeader vis h0 (fr_visitor fr2) = (True, v2)"
    using vis by (simp add: accepting_packets_def v2_def prod_eq_iff)
  have flag: "ph_version_flag h0 = ph_version_flag h" "ph_reset_flag h0 = ph_reset_flag h"
    by (simp_all add: h0_def h'_def received_header_def)
  have noreset: "\<not> ph_reset_flag h0" using assms(2) flag by simp
  have server: "ph_version_flag h \<Longrightarrow> fr_perspective fr \<noteq> IS_CLIENT" using ok by (auto simp: header_ok_def)
  have same: "ph_version_flag h \<Longrightarrow> ph_version h0 = version"
    using label by (simp add: h0_def h'_def received_header_def version_def)
  have mismatch: "\<not> (fr_perspective fr3 = IS_SERVER \<and> ph_version_flag h0 \<and> ph_version h0 \<noteq> fr_version fr3)"
    using same fields by (auto simp: flag fr3_def)
  have client: "\<not> (fr_perspective fr4 = IS_CLIENT \<and> ph_version_flag h0)" using server fields by (auto simp: flag fr4_def fr3_def)
  have e4: "endianness fr4 = endianness fr" by (simp add: endianness_def fr4_def version_def)
  have r4: "?r\<lparr>r_endianness := endianness fr4\<rparr> = ?r" unfolding e4 by (simp add: r_skip_def QuicDataReader_def)
  have fr4: "fr3\<lparr>fr_visitor := fr_visitor fr3, fr_version := fr_version fr3\<rparr> = fr4"
    using fields by (simp add: fr4_def fr3_def)
  have v4: "fr_visitor fr4 = v2" "fr_version fr4 = version" "fr_decrypter fr4 = fr_decrypter fr" "fr_decrypter_level fr4 = fr_decrypter_level fr"
    "fr_largest_packet_number fr4 = fr_largest_packet_number fr" "fr_use_incremental_ack_processing fr4 = fr_use_incremental_ack_processing fr"
    by (simp_all add: fr4_def fr3_def fr2_def fr1_def)
  have h': "ph_packet_number_length h' = ph_packet_number_length h" "ph_packet_number h' = ph_packet_number h"
    "ph_connection_id_length h' = ph_connection_id_length h" "ph_version_flag h' = ph_version_flag h" "ph_nonce h' = ph_nonce h"
    by (simp_all add: h'_def received_header_def)
  have "\<exists>fr'. ProcessDataPacket libs vis (h'\<lparr>ph_packet_number := ph_packet_number (QuicPacketHeader libs)\<rparr>) packet kMaxPacketSize (fr4, ?r) = (True, fr') \<and>
    fr_largest_packet_number fr' = max (ph_packet_number h') (fr_largest_packet_number fr4) \<and>
    fr_visitor fr' = OnPacketComplete vis (deliver_frames vis
      (frames_padded fp (ph_packet_number_length h') (ph_packet_number h') frames w)
      (snd (OnPacketHeader vis h' (OnDecryptedPacket vis (fr_decrypter_level fr4) (snd (OnUnauthenticatedHeader vis h' (fr_visitor fr4)))))))"
  proof (rule data_packet_processed [OF _ _ _ _ vis size])
    show "ph_packet_number_length h' \<in> {1, 2, 4, 6}" using ok by (simp add: h' header_ok_def)
    show "number_ok (fr_largest_packet_number fr4) h'" using assms(3) by (simp add: number_ok_def h' v4)
    show "r_endianness ?r = endianness fr4" by (simp add: e4 QuicDataReader_def)
    show "r_rest ?r = uint_bytes (endianness fr4) (ph_packet_number_length h') (unat (ph_packet_number h')) @ encrypted"
      using r_rest_skip [OF rest] by (simp add: e4 h' pnb_def)
  qed (use dec frames in \<open>simp_all add: h' v4 e4 version_def\<close>)
  then obtain fr' where data: "ProcessDataPacket libs vis h0 packet kMaxPacketSize (fr4, ?r) = (True, fr')"
    "fr_largest_packet_number fr' = max (ph_packet_number h) (fr_largest_packet_number fr)"
    "fr_visitor fr' = OnPacketComplete vis (deliver_frames vis
      (frames_padded fp (ph_packet_number_length h) (ph_packet_number h) frames w)
      (snd (OnPacketHeader vis h' (OnDecryptedPacket vis (fr_decrypter_level fr) (snd (OnUnauthenticatedHeader vis h' v2))))))"
    by (auto simp: h0_def h' v4)
  have "ProcessPacket libs vis packet fr = (True, fr')"
  proof -
    have fr1: "fr\<lparr>fr_last_packet_is_ietf_quic := False\<rparr>\<lparr>fr_visitor := OnPacket vis (fr_visitor (fr\<lparr>fr_last_packet_is_ietf_quic := False\<rparr>))\<rparr> = fr1"
      by (simp add: fr1_def)
    show ?thesis unfolding ProcessPacket_def Let_def fr1
      by (simp only: 1 prod.case option.case 2 bool.case fr3_def [symmetric] mismatch if_False fr4 not_True_eq_False r4 client
          noreset size if_True data(1))
  qed
  moreover have "fr_visitor fr2 = OnPacket vis (fr_visitor fr)" by (simp add: fr2_def fr1_def)
  ultimately show ?thesis using data(2,3)
    by (simp add: packet_seen_def Let_def h'_def [symmetric] version_def [symmetric] h0_def [symmetric] v2_def)
qed

section \<open>Building and encrypting\<close>

lemma data_packet_built:
  assumes len: "ph_packet_number_length h \<in> {1, 2, 4, 6}" and plen: "plen \<le> length buffer"
    and hb: "hb = header_bytes libs (fr_perspective fr) (fr_version fr) h" "length hb \<le> plen"
    and w: "w = w_put hb (QuicDataWriter plen buffer (endianness fr))"
    and frames: "frames_ok (params_of libs fr) (ph_packet_number_length h) (ph_packet_number h) frames w"
    and fb: "fb = frames_bytes (params_of libs fr) (ph_packet_number_length h) (ph_packet_number h) frames w"
  shows "\<exists>w'. BuildDataPacket libs h frames buffer plen fr =
      (length hb + length fb, fr\<lparr>fr_last_serialized_connection_id := ph_connection_id h\<rparr>, w') \<and>
    length hb + length fb \<le> plen \<and> length (w_buffer w') = length buffer \<and> take (length hb + length fb) (w_buffer w') = hb @ fb"
proof -
  let ?w = "QuicDataWriter plen buffer (endianness fr)" and ?fr = "fr\<lparr>fr_last_serialized_connection_id := ph_connection_id h\<rparr>"
  have ok: "w_ok ?w" and e: "w_endianness ?w = endianness fr" and room: "w_room ?w = plen" and out: "w_out ?w = []"
    using plen by (simp_all add: w_room_def QuicDataWriter_def w_out_def w_ok_def)
  have 1: "AppendPacketHeader libs h (fr, ?w) = (True, ?fr, w)"
    unfolding w hb(1) by (rule header_appended [OF len ok e]) (use hb room in simp)
  have wok: "w_ok w" unfolding w by (rule w_ok_put [OF ok]) (use hb(2) room in simp)
  note app = frames_appended [OF frames wok, folded fb]
  have p: "params_of libs ?fr = params_of libs fr" by (simp add: params_of_def)
  have fit: "length hb + length fb \<le> w_room ?w" using app hb(2) room by (auto simp: w)
  have w': "w_put fb w = w_put (hb @ fb) ?w" unfolding w by (rule w_put_put [OF ok fit])
  have "w_length (w_put fb w) = length hb + length fb" unfolding w' by (simp add: QuicDataWriter_def)
  moreover have "take (w_length (w_put fb w)) (w_buffer (w_put fb w)) = hb @ fb"
    using w_out_put [OF ok, of "hb @ fb"] fit out unfolding w' [symmetric] w_out_def by simp
  moreover have "length (w_buffer (w_put fb w)) = length buffer"
    unfolding w' using fit room plen by (simp add: w_put_def QuicDataWriter_def)
  ultimately show ?thesis using 1 app p fit room by (simp add: BuildDataPacket_def)
qed

lemma encrypted_in_place:
  assumes "EncryptInPlace level pn ad tlen limit buf vis fr = Some (m, buf', fr')" "0 < m"
    "fr_encrypter fr level = Some enc" "ad \<le> length buf"
  obtains out where "EncryptPacket enc (pv_transport_version (fr_version fr)) pn (take ad buf) (take (tlen - ad) (drop ad buf)) (limit - ad) = Some out"
    "m = ad + length out" "take m buf' = take ad buf @ out"
proof -
  obtain out where o: "EncryptPacket enc (pv_transport_version (fr_version fr)) pn (take ad buf) (take (tlen - ad) (drop ad buf)) (limit - ad) = Some out"
    using assms(1-3) by (auto simp: EncryptInPlace_def split: option.splits)
  then have "m = ad + length out" "buf' = overwrite ad out buf" using assms(1,3) by (auto simp: EncryptInPlace_def)
  with o show ?thesis using that take_overwrite [OF assms(4)] by blast
qed

end
