(* ===== verification/Null_Crypter.thy ===== *)
theory Null_Crypter
  imports Packet_Roundtrip
begin

text \<open>
  NullEncrypter and NullDecrypter (core/crypto/null\_encrypter.cc, null\_decrypter.cc) with the
  128-bit FNV-1a hash of core/quic\_utils.cc: the protection of the framer before keys are
  negotiated, and the only one the experiments use. \<open>packet_protection\<close> is the interface the packet
  round trip relies on; the null encryption provides it in both directions.
\<close>

type_synonym u128 = "128 word"

definition MakeQuicUint128 :: "u64 \<Rightarrow> u64 \<Rightarrow> u128" where
  "MakeQuicUint128 hi lo = push_bit 64 (ucast hi) + ucast lo"

definition kFnvPrime :: u128 where "kFnvPrime = push_bit 64 16777216 + 315"

definition kFnvOffset :: u128 where "kFnvOffset = MakeQuicUint128 7809847782465536322 7113472399480571277"

definition IncrementalHash :: "u128 \<Rightarrow> u8 list \<Rightarrow> u128" where
  "IncrementalHash uhash data = fold (\<lambda>octet xhash. (xhash XOR ucast octet) * kFnvPrime) data uhash"

definition FNV1a_128_Hash_Three :: "u8 list \<Rightarrow> u8 list \<Rightarrow> u8 list \<Rightarrow> u128" where
  "FNV1a_128_Hash_Three data1 data2 data3 =
     (let hash = IncrementalHash kFnvOffset data1 in
      if data2 = [] then hash
      else let hash = IncrementalHash hash data2 in
           if data3 = [] then hash else IncrementalHash hash data3)"

definition FNV1a_128_Hash_Two :: "u8 list \<Rightarrow> u8 list \<Rightarrow> u128" where
  "FNV1a_128_Hash_Two data1 data2 = FNV1a_128_Hash_Three data1 data2 []"

definition SerializeUint128Short :: "u128 \<Rightarrow> u8 list" where
  "SerializeUint128Short v =
     (let lo = ucast v :: u64; hi = ucast (drop_bit 64 v) :: u64
      in le_bytes 8 (unat lo) @ take 4 (le_bytes 8 (unat hi)))"

definition QUIC_VERSION_35 :: transport_version where "QUIC_VERSION_35 = 35"
definition kHashSizeShort :: nat where "kHashSizeShort = 12"

definition ascii :: "string \<Rightarrow> u8 list" where
  "ascii s = map of_char s"

definition null_EncryptPacket :: "perspective \<Rightarrow> transport_version \<Rightarrow> u64 \<Rightarrow> u8 list \<Rightarrow> u8 list \<Rightarrow> nat \<Rightarrow> u8 list option" where
  "null_EncryptPacket perspective version packet_number associated_data plaintext max_output_length =
     (let len = length plaintext + kHashSizeShort in
      if max_output_length < len then None
      else
        let hash = (if version > QUIC_VERSION_35
                    then (if perspective = IS_SERVER then FNV1a_128_Hash_Three associated_data plaintext (ascii ''Server'')
                          else FNV1a_128_Hash_Three associated_data plaintext (ascii ''Client''))
                    else FNV1a_128_Hash_Two associated_data plaintext)
        in Some (SerializeUint128Short hash @ plaintext))"

definition null_GetMaxPlaintextSize :: "nat \<Rightarrow> nat" where
  "null_GetMaxPlaintextSize ciphertext_size = nat ((int ciphertext_size - int kHashSizeShort) mod 2 ^ 64)"

definition null_encrypter :: "perspective \<Rightarrow> quic_encrypter" where
  "null_encrypter perspective =
     \<lparr>EncryptPacket = null_EncryptPacket perspective, enc_GetMaxPlaintextSize = null_GetMaxPlaintextSize\<rparr>"

definition ReadHash :: "u128 read_op" where
  "ReadHash = read_bind ReadUInt64 (\<lambda>lo. read_bind ReadUInt32 (\<lambda>hi. read_return (MakeQuicUint128 (ucast hi) lo)))"

definition ComputeHash :: "perspective \<Rightarrow> transport_version \<Rightarrow> u8 list \<Rightarrow> u8 list \<Rightarrow> u128" where
  "ComputeHash perspective version data1 data2 =
     (let correct_hash = (if version > QUIC_VERSION_35
                          then (if perspective = IS_CLIENT then FNV1a_128_Hash_Three data1 data2 (ascii ''Server'')
                                else FNV1a_128_Hash_Three data1 data2 (ascii ''Client''))
                          else FNV1a_128_Hash_Two data1 data2);
          mask = push_bit 96 (MakeQuicUint128 0 0xffffffff)
      in correct_hash AND NOT mask)"

definition null_DecryptPacket :: "perspective \<Rightarrow> transport_version \<Rightarrow> u64 \<Rightarrow> u8 list \<Rightarrow> u8 list \<Rightarrow> nat \<Rightarrow> u8 list option" where
  "null_DecryptPacket perspective version packet_number associated_data ciphertext max_output_length =
     (case ReadHash (QuicDataReader ciphertext HOST_BYTE_ORDER) of
        (None, r) \<Rightarrow> None
      | (Some hash, r) \<Rightarrow>
          (case ReadRemainingPayload r of (plaintext, r') \<Rightarrow>
             if length plaintext > max_output_length then None
             else if hash \<noteq> ComputeHash perspective version associated_data plaintext then None
             else Some plaintext))"

primcorec null_decrypter :: "perspective \<Rightarrow> quic_decrypter" where
  "null_decrypter perspective = QuicDecrypter (null_DecryptPacket perspective) (\<lambda>_. null_decrypter perspective)"

section \<open>The interface\<close>

locale packet_protection =
  fixes enc :: quic_encrypter and dec :: quic_decrypter
  assumes protects: "EncryptPacket enc version pn ad plain limit = Some out \<Longrightarrow> length plain \<le> limit' \<Longrightarrow>
     DecryptPacket dec version pn ad out limit' = Some plain"
begin

lemma inverts: "Packet_Roundtrip.inverts dec enc"
  by (simp add: inverts_def protects)

end

section \<open>The null encryption provides it\<close>

lemma take_le8: "take 4 (le_bytes 8 v) = le_bytes 4 v"
  by (rule take_le_bytes) simp

lemma SerializeUint128Short_eq:
  "SerializeUint128Short v = le_bytes 8 (unat (ucast v :: u64)) @ le_bytes 4 (unat (ucast (drop_bit 64 v) :: u32))"
proof -
  have "le_bytes 4 (unat (ucast (drop_bit 64 v) :: u64)) = le_bytes 4 (unat (ucast (drop_bit 64 v) :: u64) mod 256 ^ 4)"
    by (rule le_bytes_mod [symmetric])
  also have "unat (ucast (drop_bit 64 v) :: u64) mod 256 ^ 4 = unat (ucast (drop_bit 64 v) :: u32)"
    by (simp add: unat_ucast_mod mod_mod_cancel)
  finally show ?thesis by (simp add: SerializeUint128Short_def Let_def take_le8)
qed

lemma MakeQuicUint128_or: "MakeQuicUint128 hi lo = push_bit 64 (ucast hi) OR ucast lo"
  unfolding MakeQuicUint128_def
  by (rule disjunctive_add) (auto simp: bit_simps dest: bit_imp_le_length)

lemma short_hash: "MakeQuicUint128 (ucast (ucast (drop_bit 64 v) :: u32)) (ucast v) = v AND NOT (push_bit 96 (MakeQuicUint128 0 0xffffffff))"
proof -
  have "MakeQuicUint128 0 0xffffffff = mask 32" by (simp add: MakeQuicUint128_def mask_eq_exp_minus_1)
  then show ?thesis unfolding MakeQuicUint128_or [of "ucast (ucast (drop_bit 64 v) :: u32)"]
    by (simp only:) (rule bit_word_eqI, auto simp: bit_simps)
qed

lemma reads_ReadHash:
  "reads HOST_BYTE_ORDER ReadHash (SerializeUint128Short v) (v AND NOT (push_bit 96 (MakeQuicUint128 0 0xffffffff)))"
  unfolding ReadHash_def SerializeUint128Short_eq short_hash [symmetric]
  by (rule reads_bind [OF reads_ReadUInt64 [of HOST_BYTE_ORDER "ucast v", unfolded uint_bytes_def, simplified]])
    (rule reads_bind_return [OF reads_ReadUInt32 [of HOST_BYTE_ORDER "ucast (drop_bit 64 v)", unfolded uint_bytes_def, simplified] refl])

lemma null_decrypts:
  assumes "null_EncryptPacket p version pn ad plain limit = Some out" "length plain \<le> limit'" "p' \<noteq> p"
  shows "null_DecryptPacket p' version pn' ad out limit' = Some plain"
proof -
  let ?hash = "if version > QUIC_VERSION_35 then (if p = IS_SERVER then FNV1a_128_Hash_Three ad plain (ascii ''Server'')
      else FNV1a_128_Hash_Three ad plain (ascii ''Client'')) else FNV1a_128_Hash_Two ad plain"
  let ?r = "QuicDataReader out HOST_BYTE_ORDER" and ?s = "SerializeUint128Short ?hash"
  have out: "out = ?s @ plain" using assms(1) by (auto simp: null_EncryptPacket_def Let_def split: if_splits)
  have persp: "p' = IS_CLIENT \<longleftrightarrow> p = IS_SERVER" using assms(3) by (cases p; cases p') auto
  have r: "r_rest ?r = ?s @ plain" "r_endianness ?r = HOST_BYTE_ORDER" by (simp_all add: QuicDataReader_def r_rest_def out)
  have 1: "ReadHash ?r = (Some (ComputeHash p' version ad plain), r_skip (length ?s) ?r)"
    using readsD [OF reads_ReadHash r(2,1)] by (simp only: ComputeHash_def Let_def persp)
  have 2: "fst (ReadRemainingPayload (r_skip (length ?s) ?r)) = plain"
    using r_rest_skip [OF r(1)] by (simp add: ReadRemainingPayload_def PeekRemainingPayload_def r_rest_def)
  show ?thesis
    using 1 2 assms(2) by (simp add: null_DecryptPacket_def split_beta)
qed

lemma DecryptPacket_null [simp]: "DecryptPacket (null_decrypter p) = null_DecryptPacket p"
  by (subst null_decrypter.code) simp

interpretation client_to_server: packet_protection "null_encrypter IS_CLIENT" "null_decrypter IS_SERVER"
  by unfold_locales (simp add: null_encrypter_def null_decrypts)

interpretation server_to_client: packet_protection "null_encrypter IS_SERVER" "null_decrypter IS_CLIENT"
  by unfold_locales (simp add: null_encrypter_def null_decrypts)

end
