(* ===== verification/Packet_Properties.thy ===== *)
theory Packet_Properties
  imports Null_Crypter
begin

text \<open>What the packet layer promises: data packets and version negotiation end to end, and what a forged packet cannot do.\<close>

section \<open>Data packets\<close>

text \<open>
  C26. End to end: a packet built by BuildDataPacket and encrypted by EncryptInPlace is accepted by
  ProcessPacket of the peer, whose visitor sees the header it was sent with, the decryption level
  and then every frame in order, and OnPacketComplete last; the packet number has been
  reconstructed from its truncated form and is the new largest one if it is larger.
\<close>

theorem data_packet_roundtrip:
  assumes "start_ok libs" "inverts (fr_decrypter receiver) enc" "fr_encrypter sender level = Some enc"
    and "ParseQuicVersionLabel libs (CreateQuicVersionLabel libs (fr_version sender)) = fr_version sender"
    and "fr_version receiver = fr_version sender" "fr_use_incremental_ack_processing receiver" "accepting_packets vis"
    and "header_ok (fr_perspective sender) receiver h" "\<not> ph_reset_flag h" "number_ok (fr_largest_packet_number receiver) h"
    and "length hb \<le> plen" "plen \<le> length buffer" "plen \<le> kMaxPacketSize" "hb = header_bytes libs (fr_perspective sender) (fr_version sender) h"
    and "w = w_put hb (QuicDataWriter plen buffer (endianness sender))" "frames \<noteq> []"
    and "frames_ok (params_of libs sender) (ph_packet_number_length h) (ph_packet_number h) frames w"
    and "BuildDataPacket libs h frames buffer plen sender = (n, sender', w')"
    and "EncryptInPlace level (ph_packet_number h) (length hb) n limit (w_buffer w') vis' sender' = Some (m, packet, sender'')"
    and "0 < m" "m \<le> kMaxPacketSize"
  shows "\<exists>receiver'. ProcessPacket libs vis (take m packet) receiver = (True, receiver') \<and>
    fr_largest_packet_number receiver' = max (ph_packet_number h) (fr_largest_packet_number receiver) \<and>
    fr_visitor receiver' = packet_seen libs vis (received_header libs (fr_version sender) h) (fr_decrypter_level receiver)
      (frames_padded (params_of libs sender) (ph_packet_number_length h) (ph_packet_number h) frames w) (fr_visitor receiver)"
proof -
  let ?fp = "params_of libs sender" and ?len = "ph_packet_number_length h" and ?pn = "ph_packet_number h"
  let ?fb = "frames_bytes ?fp ?len ?pn frames w" and ?version = "pv_transport_version (fr_version sender)"
  have len: "?len \<in> {1, 2, 4, 6}" using assms(8) by (simp add: header_ok_def)
  have e: "endianness receiver = endianness sender" using assms(5) by (simp add: endianness_def)
  have built: "n = length hb + length ?fb" "sender' = sender\<lparr>fr_last_serialized_connection_id := ph_connection_id h\<rparr>"
    "n \<le> plen" "length (w_buffer w') = length buffer" "take n (w_buffer w') = hb @ ?fb"
    using data_packet_built [OF len assms(12,14,11,15,17) refl] assms(18) by auto
  have ad: "take (length hb) (w_buffer w') = hb" "take (n - length hb) (drop (length hb) (w_buffer w')) = ?fb" "length hb \<le> length (w_buffer w')"
  proof -
    have "take (length hb) (w_buffer w') = take (length hb) (take n (w_buffer w'))" by (simp add: built(1))
    then show "take (length hb) (w_buffer w') = hb" unfolding built(5) by simp
    have "take (n - length hb) (drop (length hb) (w_buffer w')) = drop (length hb) (take n (w_buffer w'))"
      by (simp add: drop_take)
    then show "take (n - length hb) (drop (length hb) (w_buffer w')) = ?fb" unfolding built(5) by simp
    show "length hb \<le> length (w_buffer w')" using assms(11,12) built(4) by simp
  qed
  have enc: "fr_encrypter sender' level = Some enc" "fr_version sender' = fr_version sender" using built(2) assms(3) by simp_all
  obtain out where out: "EncryptPacket enc ?version ?pn hb ?fb (limit - length hb) = Some out" "take m packet = hb @ out" "m = length hb + length out"
    using encrypted_in_place [OF assms(19,20) enc(1) ad(3)] ad(1,2) enc(2) by metis
  have "length ?fb \<le> kMaxPacketSize" using built(1,3) assms(13) by simp
  then have dec: "DecryptPacket (fr_decrypter receiver) ?version ?pn hb out kMaxPacketSize = Some ?fb"
    using assms(2) out(1) unfolding inverts_def by blast
  have start: "GetAssociatedDataFromEncryptedPacket libs ?version (hb @ out) (ph_connection_id_length h) (ph_version_flag h)
      (ph_nonce h \<noteq> None) ?len = hb"
    using length_header_bytes [OF assms(1,8), of "fr_version sender" ?version] assms(14) by (simp add: GetAssociatedDataFromEncryptedPacket_def)
  have wok: "w_ok w" unfolding assms(15)
    by (rule w_ok_put) (use assms(11,12) in \<open>simp_all add: w_room_def QuicDataWriter_def w_ok_def\<close>)
  have we: "w_endianness w = endianness receiver" by (simp add: assms(15) e QuicDataWriter_def)
  have packet: "hb @ out = header_bytes libs (fr_perspective sender) (fr_version receiver) h @ out" by (simp add: assms(5,14))
  have plen: "length (hb @ out) \<le> kMaxPacketSize" using out(3) assms(21) by simp
  have dec': "DecryptPacket (fr_decrypter receiver) (pv_transport_version (fr_version receiver)) ?pn
      (GetAssociatedDataFromEncryptedPacket libs (pv_transport_version (fr_version receiver)) (hb @ out) (ph_connection_id_length h)
        (ph_version_flag h) (ph_nonce h \<noteq> None) ?len) out kMaxPacketSize = Some ?fb"
    unfolding assms(5) start by (rule dec)
  have fp: "fp_version ?fp = pv_transport_version (fr_version receiver)" by (simp add: params_of_def assms(5))
  show ?thesis unfolding out(2)
    using data_packet_dispatched [OF assms(8-10) packet plen assms(4) [folded assms(5)] assms(7) dec' assms(17,16) wok we fp assms(6)]
    unfolding assms(5) .
qed

definition sample_version :: parsed_quic_version where
  "sample_version = \<lparr>pv_handshake_protocol = 1, pv_transport_version = 43\<rparr>"

definition sample_header :: quic_packet_header where
  "sample_header = \<lparr>ph_connection_id = 42, ph_connection_id_length = PACKET_8BYTE_CID, ph_reset_flag = False,
     ph_version_flag = False, ph_packet_number_length = 4, ph_version = sample_version, ph_nonce = None, ph_packet_number = 2000\<rparr>"

definition sample_libs :: framer_libs where
  "sample_libs = \<lparr>CreateQuicVersionLabel = (\<lambda>v. word_of_nat (pv_transport_version v)),
     ParseQuicVersionLabel = (\<lambda>l. \<lparr>pv_handshake_protocol = 1, pv_transport_version = unat l\<rparr>),
     QuicPacketHeader = sample_header\<lparr>ph_packet_number := 0\<rparr>,
     GetStartOfEncryptedData = (\<lambda>_ id_length version nonce n.
       1 + (case id_length of PACKET_0BYTE_CID \<Rightarrow> 0 | PACKET_8BYTE_CID \<Rightarrow> 8) + (if version then 4 else 0) + n + (if nonce then 32 else 0)),
     NullEncrypter = null_encrypter, NullDecrypter = null_decrypter,
     GetSerialized = (\<lambda>_. []), ParseMessage = (\<lambda>_ _. None), EncodeAddress = (\<lambda>_. []), DecodeAddress = (\<lambda>_. None),
     WriteAt = (\<lambda>_ _. write_nothing)\<rparr>"

datatype packet_event = Frame frame_event | PacketStart | PublicHeader | Header u64 | Decrypted nat | Complete
  | Versions u64 "parsed_quic_version list" | Reset

definition packet_events :: "packet_event list packet_visitor" where
  "packet_events =
     (let saw = (\<lambda>e v. (True, v @ [e])); frame = (\<lambda>f. saw (Frame (Saw f))) in
      \<lparr>OnAckFrameStart = (\<lambda>l d. saw (Frame (SawAck l))), OnAckRange = (\<lambda>a b l. saw (Frame (SawRange a b l))),
       OnError = (\<lambda>err m v. v @ [Frame (SawError err m)]),
       OnStreamFrame = (\<lambda>f. frame (STREAM_FRAME f)), OnAckFrame = (\<lambda>f. frame (ACK_FRAME f)),
       OnStopWaitingFrame = (\<lambda>f. frame (STOP_WAITING_FRAME f)), OnPaddingFrame = (\<lambda>f. frame (PADDING_FRAME f)),
       OnPingFrame = frame PING_FRAME, OnRstStreamFrame = (\<lambda>f. frame (RST_STREAM_FRAME f)),
       OnConnectionCloseFrame = (\<lambda>f. frame (CONNECTION_CLOSE_FRAME f)), OnGoAwayFrame = (\<lambda>f. frame (GOAWAY_FRAME f)),
       OnWindowUpdateFrame = (\<lambda>f. frame (WINDOW_UPDATE_FRAME f)), OnBlockedFrame = (\<lambda>f. frame (BLOCKED_FRAME f)),
       OnPacket = (\<lambda>v. v @ [PacketStart]), OnUnauthenticatedPublicHeader = (\<lambda>h. saw PublicHeader),
       OnProtocolVersionMismatch = (\<lambda>version v. (True, None, v)),
       OnUnauthenticatedHeader = (\<lambda>h. saw (Header (ph_packet_number h))), OnDecryptedPacket = (\<lambda>l v. v @ [Decrypted l]),
       OnPacketHeader = (\<lambda>h. saw (Header (ph_packet_number h))), OnPacketComplete = (\<lambda>v. v @ [Complete]),
       OnVersionNegotiationPacket = (\<lambda>id vs v. v @ [Versions id vs]), OnPublicResetPacket = (\<lambda>p v. v @ [Reset])\<rparr>)"

definition sample_sender :: "packet_event list quic_framer" where
  "sample_sender = MyQuicFramer sample_libs [sample_version] 0 IS_CLIENT []"

definition sample_receiver :: "packet_event list quic_framer" where
  "sample_receiver = (MyQuicFramer sample_libs [sample_version] 0 IS_SERVER [])\<lparr>fr_largest_packet_number := 1998\<rparr>"

lemmas sample_defs = sample_sender_def sample_receiver_def MyQuicFramer_def sample_libs_def sample_header_def sample_version_def
  packet_events_def Let_def

lemma sample_start: "start_ok sample_libs"
  by (simp add: start_ok_def sample_libs_def)

lemma sample_accepting: "accepting_packets packet_events"
  by (simp add: accepting_packets_def accepting_def packet_events_def Let_def)

definition sample_hb :: "u8 list" where
  "sample_hb = header_bytes sample_libs IS_CLIENT sample_version sample_header"

definition sample_pw :: quic_data_writer where
  "sample_pw = w_put sample_hb (sample_writer 100)"

lemma sample_hb_length: "length sample_hb = 13"
  by (simp add: sample_hb_def header_bytes_def sample_header_def)

lemma sample_payload_ok: "frames_ok (params_of sample_libs sample_sender) 4 2000 [PING_FRAME, STREAM_FRAME sample_stream] sample_pw"
  by (simp add: frame_bytes_def frame_ok_def Let_def params_of_def sample_sender_def MyQuicFramer_def sample_pw_def sample_hb_length
      stream_frame_bytes_def sample_stream_def GetStreamIdSize_eq GetStreamOffsetSize_eq sample_version_def QUIC_VERSION_41_def)

lemma sample_encrypts:
  "n \<le> 100 \<Longrightarrow> length buf = 100 \<Longrightarrow> fr_encrypter fr 0 = Some (null_encrypter IS_CLIENT) \<Longrightarrow>
   \<exists>packet. EncryptInPlace 0 2000 13 n 300 buf vis fr = Some (13 + 12 + (n - 13), packet, fr)"
  by (auto simp: EncryptInPlace_def null_encrypter_def null_EncryptPacket_def SerializeUint128Short_def Let_def kHashSizeShort_def min_def)

theorem data_packet_roundtrip_witness:
  "\<exists>n sender' w' m packet sender'' receiver'.
     BuildDataPacket sample_libs sample_header [PING_FRAME, STREAM_FRAME sample_stream] (replicate 100 0) 100 sample_sender = (n, sender', w') \<and>
     EncryptInPlace 0 2000 13 n 300 (w_buffer w') packet_events sender' = Some (m, packet, sender'') \<and>
     ProcessPacket sample_libs packet_events (take m packet) sample_receiver = (True, receiver') \<and>
     fr_largest_packet_number receiver' = 2000 \<and>
     fr_visitor receiver' = [PacketStart, PublicHeader, Header 2000, Decrypted 0, Header 2000,
       Frame (Saw PING_FRAME), Frame (Saw (STREAM_FRAME sample_stream)), Complete]"
proof -
  let ?frames = "[PING_FRAME, STREAM_FRAME sample_stream]" and ?buf = "replicate 100 (0 :: u8)"
  have h: "ph_packet_number_length sample_header = 4" "ph_packet_number sample_header = 2000" by (simp_all add: sample_header_def)
  have e: "endianness sample_sender = NETWORK_BYTE_ORDER"
    by (simp add: endianness_def endianness_of_def sample_sender_def MyQuicFramer_def sample_version_def QUIC_VERSION_38_def)
  have s: "fr_perspective sample_sender = IS_CLIENT" "fr_version sample_sender = sample_version" "fr_encrypter sample_sender 0 = Some (null_encrypter IS_CLIENT)"
    "fr_version sample_receiver = sample_version" "fr_decrypter sample_receiver = null_decrypter IS_SERVER" "fr_decrypter_level sample_receiver = 0"
    "fr_use_incremental_ack_processing sample_receiver" "fr_visitor sample_receiver = []" "fr_largest_packet_number sample_receiver = 1998"
    by (simp_all add: sample_sender_def sample_receiver_def MyQuicFramer_def sample_libs_def ENCRYPTION_NONE_def)
  have hb: "sample_hb = header_bytes sample_libs (fr_perspective sample_sender) (fr_version sample_sender) sample_header"
    by (simp add: sample_hb_def s)
  have w: "sample_pw = w_put sample_hb (QuicDataWriter 100 ?buf (endianness sample_sender))" by (simp add: sample_pw_def e)
  have ok: "frames_ok (params_of sample_libs sample_sender) (ph_packet_number_length sample_header) (ph_packet_number sample_header) ?frames sample_pw"
    using sample_payload_ok h by simp
  have len: "ph_packet_number_length sample_header \<in> {1, 2, 4, 6}" by (simp add: h)
  obtain n w' where b: "BuildDataPacket sample_libs sample_header ?frames ?buf 100 sample_sender =
      (n, sample_sender\<lparr>fr_last_serialized_connection_id := ph_connection_id sample_header\<rparr>, w')" "n \<le> 100" "length (w_buffer w') = 100"
    using data_packet_built [OF len _ hb _ w ok refl] sample_hb_length by auto
  let ?s = "sample_sender\<lparr>fr_last_serialized_connection_id := ph_connection_id sample_header\<rparr>"
  obtain packet where enc: "EncryptInPlace 0 2000 13 n 300 (w_buffer w') packet_events ?s = Some (13 + 12 + (n - 13), packet, ?s)"
    using sample_encrypts [OF b(2,3), of ?s packet_events] s(3) by auto
  have enc': "EncryptInPlace 0 (ph_packet_number sample_header) (length sample_hb) n 300 (w_buffer w') packet_events ?s = Some (13 + 12 + (n - 13), packet, ?s)"
    unfolding h sample_hb_length by (rule enc)
  have "\<exists>receiver'. ProcessPacket sample_libs packet_events (take (13 + 12 + (n - 13)) packet) sample_receiver = (True, receiver') \<and>
    fr_largest_packet_number receiver' = max (ph_packet_number sample_header) (fr_largest_packet_number sample_receiver) \<and>
    fr_visitor receiver' = packet_seen sample_libs packet_events (received_header sample_libs (fr_version sample_sender) sample_header) (fr_decrypter_level sample_receiver)
      (frames_padded (params_of sample_libs sample_sender) (ph_packet_number_length sample_header) (ph_packet_number sample_header) ?frames sample_pw) (fr_visitor sample_receiver)"
  proof (rule data_packet_roundtrip [OF sample_start _ s(3) _ _ s(7) sample_accepting _ _ _ _ _ _ hb w _ ok b(1) enc'])
    show "inverts (fr_decrypter sample_receiver) (null_encrypter IS_CLIENT)" unfolding s by (rule client_to_server.inverts)
    show "header_ok (fr_perspective sample_sender) sample_receiver sample_header"
      by (simp add: header_ok_def s sample_header_def) (simp add: sample_receiver_def MyQuicFramer_def)
    show "number_ok (fr_largest_packet_number sample_receiver) sample_header"
      by (simp add: number_ok_def s sample_header_def)
  qed (use b(2) in \<open>simp_all add: s sample_hb_length kMaxPacketSize_def sample_libs_def sample_version_def sample_header_def\<close>)
  moreover have "packet_seen sample_libs packet_events (received_header sample_libs (fr_version sample_sender) sample_header) (fr_decrypter_level sample_receiver)
      (frames_padded (params_of sample_libs sample_sender) (ph_packet_number_length sample_header) (ph_packet_number sample_header) ?frames sample_pw) (fr_visitor sample_receiver) =
      [PacketStart, PublicHeader, Header 2000, Decrypted 0, Header 2000, Frame (Saw PING_FRAME), Frame (Saw (STREAM_FRAME sample_stream)), Complete]"
    by (simp add: packet_seen_def s h packet_events_def Let_def frame_padded_def deliver_frame_def received_header_def)
  moreover have "max (ph_packet_number sample_header) (fr_largest_packet_number sample_receiver) = 2000" by (simp add: h s)
  ultimately show ?thesis using b(1) enc by metis
qed

section \<open>Version negotiation\<close>

definition labels_bytes :: "framer_libs \<Rightarrow> parsed_quic_version list \<Rightarrow> u8 list" where
  "labels_bytes libs versions = concat (map (\<lambda>v. be_bytes 4 (unat (CreateQuicVersionLabel libs v))) versions)"

lemma appends_write_versions: "appends e (write_versions libs versions) (labels_bytes libs versions)"
proof (induction versions)
  case (Cons v vs)
  have "appends e (WriteTag (HostToNet32 (CreateQuicVersionLabel libs v))) (be_bytes 4 (unat (CreateQuicVersionLabel libs v)))"
    using appends_WriteTag [of e "HostToNet32 (CreateQuicVersionLabel libs v)"] by (simp add: le_bytes_HostToNet)
  from appends_and_then [OF this Cons] show ?case by (simp add: labels_bytes_def)
qed (simp add: labels_bytes_def)

lemma length_labels [simp]: "length (labels_bytes libs versions) = 4 * length versions"
  by (induction versions) (simp_all add: labels_bytes_def)

lemma built_appends:
  assumes "appends NETWORK_BYTE_ORDER f bs" "length bs = len"
  shows "built len f = Some bs"
proof -
  let ?w = "QuicDataWriter len (replicate len 0) NETWORK_BYTE_ORDER"
  have ok: "w_ok ?w" "w_room ?w = len" "w_out ?w = []" by (simp_all add: w_room_def QuicDataWriter_def w_out_def w_ok_def)
  have "f ?w = (True, w_put bs ?w)" by (rule appends_fits [OF assms(1) ok(1)]) (use ok assms in simp_all)
  moreover have "w_buffer (w_put bs ?w) = bs" using assms(2) by (simp add: w_put_def QuicDataWriter_def overwrite_def)
  ultimately show ?thesis by (simp add: built_def)
qed

lemma versions_read:
  assumes "r_rest r = labels_bytes libs versions" "versions \<noteq> []" "r_ok r"
    "\<forall>v\<in>set versions. ParseQuicVersionLabel libs (CreateQuicVersionLabel libs v) = v"
  shows "\<exists>r'. read_versions libs r = (Some versions, r')"
  using assms
proof (induction versions arbitrary: r)
  case (Cons v vs)
  let ?b = "be_bytes 4 (unat (CreateQuicVersionLabel libs v))"
  have rest: "r_rest r = ?b @ labels_bytes libs vs" using Cons.prems(1) by (simp add: labels_bytes_def)
  have tag: "ReadTag r = (Some (HostToNet32 (CreateQuicVersionLabel libs v)), r_skip (length ?b) r)"
    by (rule readsD [OF reads_version_label refl rest])
  have r': "r_rest (r_skip (length ?b) r) = labels_bytes libs vs" using r_rest_skip [OF rest] .
  have ok: "r_ok (r_skip (length ?b) r)"
    using arg_cong [OF rest, of length] Cons.prems(3) by (simp add: r_ok_def r_rest_def)
  have v: "ParseQuicVersionLabel libs (NetToHost32 (HostToNet32 (CreateQuicVersionLabel libs v))) = v"
    using Cons.prems(4) by (simp add: NetToHost32_HostToNet32)
  have "length (labels_bytes libs vs) = length (r_data r) - (r_pos r + 4)" using arg_cong [OF r', of length] by (simp add: r_rest_def)
  then have done_iff: "IsDoneReading (r_skip (length ?b) r) \<longleftrightarrow> vs = []"
    using ok by (auto simp: IsDoneReading_def r_ok_def)
  show ?case
  proof (cases "vs = []")
    case True
    then show ?thesis using tag v done_iff by (subst read_versions.simps) simp
  next
    case False
    then obtain r'' where "read_versions libs (r_skip (length ?b) r) = (Some vs, r'')"
      using Cons.IH [OF r' False ok] Cons.prems(4) by auto
    then show ?thesis using tag v done_iff False by (subst read_versions.simps) simp
  qed
qed simp

lemma public_version_negotiation:
  assumes "versions \<noteq> []" "\<forall>v\<in>set versions. ParseQuicVersionLabel libs (CreateQuicVersionLabel libs v) = v"
    "fr_perspective client = IS_CLIENT" "\<forall>h v. fst (OnUnauthenticatedPublicHeader vis h v)"
  shows "\<exists>packet client'. BuildVersionNegotiationPacket libs connection_id False versions = Some packet \<and>
    length packet = GetVersionNegotiationPacketSize (length versions) \<and>
    ProcessPacket libs vis packet client = (True, client') \<and>
    (\<exists>h. ph_connection_id h = connection_id \<and>
      fr_visitor client' = OnVersionNegotiationPacket vis connection_id versions
        (snd (OnUnauthenticatedPublicHeader vis h (OnPacket vis (fr_visitor client)))))"
proof -
  define packet where "packet = [0x0d] @ be_bytes 8 (unat connection_id) @ labels_bytes libs versions"
  have "appends NETWORK_BYTE_ORDER (and_then (WriteUInt8 0x0d) (and_then (WriteConnectionId connection_id) (write_versions libs versions))) packet"
    unfolding packet_def by (intro appends_and_then appends_write_versions) simp_all
  from built_appends [OF this] have build: "BuildVersionNegotiationPacket libs connection_id False versions = Some packet"
    by (simp add: BuildVersionNegotiationPacket_def Let_def public_flag_defs packet_def GetVersionNegotiationPacketSize_def framer_size_defs mult.commute)
  have len: "length packet = GetVersionNegotiationPacketSize (length versions)"
    by (simp add: packet_def GetVersionNegotiationPacketSize_def framer_size_defs)
  define fr1 where "fr1 = client\<lparr>fr_last_packet_is_ietf_quic := False, fr_visitor := OnPacket vis (fr_visitor client)\<rparr>"
  define h where "h = (QuicPacketHeader libs)\<lparr>ph_reset_flag := False, ph_version_flag := True, ph_connection_id := connection_id,
    ph_connection_id_length := PACKET_8BYTE_CID, ph_packet_number_length := 1, ph_nonce := None\<rparr>"
  let ?rd = "QuicDataReader packet (endianness client)"
  have rest: "r_rest ?rd = [0x0d] @ be_bytes 8 (unat connection_id) @ labels_bytes libs versions" by (simp add: QuicDataReader_def r_rest_def packet_def)
  let ?rs = "r_skip 9 ?rd"
  have rest1: "r_rest (r_skip 1 ?rd) = be_bytes 8 (unat connection_id) @ labels_bytes libs versions" using r_rest_skip [OF rest] by simp
  have rest2: "r_rest ?rs = labels_bytes libs versions" using r_rest_skip [OF rest1] by simp
  have s1: "framer_try m (ReadBytes 1) (fr1, ?rd) = (Some [0x0d], fr1, r_skip 1 ?rd)" for m
    using framer_try_read [OF reads_ReadBytes [of "[0x0d]" 1] rest] by simp
  have s2: "framer_try m ReadConnectionId (fr1, r_skip 1 ?rd) = (Some connection_id, fr1, ?rs)" for m
    using framer_try_read [OF reads_ReadConnectionId rest1] by simp
  have p1: "fr_perspective fr1 = IS_CLIENT" using assms(3) by (simp add: fr1_def)
  have header: "ProcessPublicHeader libs (QuicPacketHeader libs) (fr1, ?rd) = (Some h, fr1, ?rs)"
    using p1 s1 s2 by (simp add: ProcessPublicHeader_def framer_bind_def framer_return_def process_connection_id_def process_version_def
        process_nonce_def public_flag_defs Let_def h_def ReadSequenceNumberLength_def kPublicHeaderSequenceNumberShift_def
        packet_flag_defs packet_length_defs)
  define v2 where "v2 = snd (OnUnauthenticatedPublicHeader vis h (fr_visitor fr1))"
  have vis: "OnUnauthenticatedPublicHeader vis h (fr_visitor fr1) = (True, v2)" using assms(4) by (simp add: v2_def prod_eq_iff)
  define fr2 where "fr2 = fr1\<lparr>fr_visitor := v2\<rparr>"
  have e: "endianness (fr2\<lparr>fr_visitor := fr_visitor fr2, fr_version := fr_version fr2\<rparr>) = endianness client"
    by (simp add: endianness_def fr2_def fr1_def)
  have rs: "?rs\<lparr>r_endianness := endianness client\<rparr> = ?rs" by (simp add: r_skip_def QuicDataReader_def)
  have "r_ok ?rs" by (simp add: r_ok_def QuicDataReader_def packet_def)
  then obtain r' where versions: "read_versions libs ?rs = (Some versions, r')"
    using versions_read [OF rest2 assms(1) _ assms(2)] by blast
  have p2: "fr_perspective (fr2\<lparr>fr_visitor := fr_visitor fr2, fr_version := fr_version fr2\<rparr>) = IS_CLIENT" "fr_perspective fr2 = IS_CLIENT"
    using p1 by (simp_all add: fr2_def)
  have f: "ph_version_flag h" "ph_connection_id h = connection_id" by (simp_all add: h_def)
  have neg: "ProcessVersionNegotiationPacket libs vis h (fr2\<lparr>fr_visitor := fr_visitor fr2, fr_version := fr_version fr2\<rparr>, ?rs) =
      (True, (fr2\<lparr>fr_visitor := fr_visitor fr2, fr_version := fr_version fr2\<rparr>)
        \<lparr>fr_visitor := OnVersionNegotiationPacket vis connection_id versions v2\<rparr>, r')"
    using versions f by (simp add: ProcessVersionNegotiationPacket_def fr2_def)
  have "\<exists>client'. ProcessPacket libs vis packet client = (True, client') \<and> fr_visitor client' = OnVersionNegotiationPacket vis connection_id versions v2"
  proof -
    have fr1: "client\<lparr>fr_last_packet_is_ietf_quic := False\<rparr>\<lparr>fr_visitor := OnPacket vis (fr_visitor (client\<lparr>fr_last_packet_is_ietf_quic := False\<rparr>))\<rparr> = fr1"
      by (simp add: fr1_def)
    show ?thesis unfolding ProcessPacket_def Let_def fr1
      by (simp only: header prod.case option.case vis bool.case fr2_def [symmetric] p2 perspective.distinct simp_thms if_False if_True f e rs neg)
        simp
  qed
  moreover have "v2 = snd (OnUnauthenticatedPublicHeader vis h (OnPacket vis (fr_visitor client)))" by (simp add: v2_def fr1_def)
  ultimately show ?thesis using build len f(2) by blast
qed

text \<open>
  The IETF packet starts with a byte beyond the flags a public header may have, and this framer has
  no other way to read a header.
\<close>

lemma ietf_version_negotiation:
  assumes "fr_validate_flags client"
  shows "\<exists>packet. BuildVersionNegotiationPacket libs connection_id True versions = Some packet \<and>
    ProcessPacket libs vis packet client = RaiseError vis QUIC_INVALID_PACKET_HEADER
      (client\<lparr>fr_last_packet_is_ietf_quic := False, fr_visitor := OnPacket vis (fr_visitor client),
         fr_detailed_error := ''Illegal public flags value.''\<rparr>)"
proof -
  define packet where "packet = [0x80] @ be_bytes 8 (unat connection_id) @ be_bytes 4 0 @ labels_bytes libs versions"
  have "appends NETWORK_BYTE_ORDER (and_then (WriteUInt8 0x80) (and_then (WriteConnectionId connection_id)
      (and_then (WriteUInt32 0) (write_versions libs versions)))) packet"
    unfolding packet_def by (intro appends_and_then appends_write_versions) (use appends_WriteUInt32 [of NETWORK_BYTE_ORDER 0] in \<open>simp_all add: uint_bytes_def\<close>)
  from built_appends [OF this] have build: "BuildVersionNegotiationPacket libs connection_id True versions = Some packet"
    by (simp add: BuildVersionNegotiationPacket_def BuildIetfVersionNegotiationPacket_def Let_def public_flag_defs packet_def
      FLAGS_LONG_HEADER_def VERSION_NEGOTIATION_def kPacketHeaderTypeSize_def framer_size_defs mult.commute)
  define fr1 where "fr1 = client\<lparr>fr_last_packet_is_ietf_quic := False, fr_visitor := OnPacket vis (fr_visitor client)\<rparr>"
  let ?rd = "QuicDataReader packet (endianness client)"
  have rest: "r_rest ?rd = [0x80] @ (be_bytes 8 (unat connection_id) @ be_bytes 4 0 @ labels_bytes libs versions)"
    by (simp add: QuicDataReader_def r_rest_def packet_def)
  have s1: "framer_try m (ReadBytes 1) (fr1, ?rd) = (Some [0x80], fr1, r_skip 1 ?rd)" for m
    using framer_try_read [OF reads_ReadBytes [of "[0x80]" 1] rest] by simp
  have "fr_validate_flags fr1" using assms by (simp add: fr1_def)
  then have "ProcessPublicHeader libs (QuicPacketHeader libs) (fr1, ?rd) =
      (None, fr1\<lparr>fr_detailed_error := ''Illegal public flags value.''\<rparr>, r_skip 1 ?rd)"
    using s1 by (simp add: ProcessPublicHeader_def framer_bind_def framer_fail_def public_flag_defs Let_def)
  then have "ProcessPacket libs vis packet client = RaiseError vis QUIC_INVALID_PACKET_HEADER
      (fr1\<lparr>fr_detailed_error := ''Illegal public flags value.''\<rparr>)" by (simp add: ProcessPacket_def Let_def fr1_def)
  then show ?thesis using build by (simp add: fr1_def)
qed

text \<open>
  C28. Version negotiation. In the format of the public header (\<open>ietf_quic\<close> is false), the packet a
  server builds to offer its versions is understood by a client whose visitor goes on after the
  public header: it is given the connection id and the versions in the order they were offered. The
  packet of the IETF format (\<open>ietf_quic\<close> is true) is also built, but a client that validates flags
  refuses it as QUIC\_INVALID\_PACKET\_HEADER and learns no version.
\<close>

theorem version_negotiation_roundtrip:
  assumes "versions \<noteq> []" "\<forall>v\<in>set versions. ParseQuicVersionLabel libs (CreateQuicVersionLabel libs v) = v"
    "fr_perspective client = IS_CLIENT" "\<forall>h v. fst (OnUnauthenticatedPublicHeader vis h v)"
  shows "(\<exists>packet client'. BuildVersionNegotiationPacket libs connection_id False versions = Some packet \<and>
    length packet = GetVersionNegotiationPacketSize (length versions) \<and>
    ProcessPacket libs vis packet client = (True, client') \<and>
    (\<exists>h. ph_connection_id h = connection_id \<and>
      fr_visitor client' = OnVersionNegotiationPacket vis connection_id versions
        (snd (OnUnauthenticatedPublicHeader vis h (OnPacket vis (fr_visitor client)))))) \<and>
    (fr_validate_flags client \<longrightarrow>
      (\<exists>packet. BuildVersionNegotiationPacket libs connection_id True versions = Some packet \<and>
      ProcessPacket libs vis packet client = RaiseError vis QUIC_INVALID_PACKET_HEADER
        (client\<lparr>fr_last_packet_is_ietf_quic := False, fr_visitor := OnPacket vis (fr_visitor client),
           fr_detailed_error := ''Illegal public flags value.''\<rparr>)))"
  using public_version_negotiation [OF assms] ietf_version_negotiation [of client] by blast

theorem version_negotiation_roundtrip_witness:
  "\<exists>packet client' ietf refused. BuildVersionNegotiationPacket sample_libs 42 False [sample_version, sample_version\<lparr>pv_transport_version := 39\<rparr>] = Some packet \<and>
    length packet = 17 \<and> ProcessPacket sample_libs packet_events packet sample_sender = (True, client') \<and>
    fr_visitor client' = [PacketStart, PublicHeader, Versions 42 [sample_version, sample_version\<lparr>pv_transport_version := 39\<rparr>]] \<and>
    BuildVersionNegotiationPacket sample_libs 42 True [sample_version, sample_version\<lparr>pv_transport_version := 39\<rparr>] = Some ietf \<and>
    ProcessPacket sample_libs packet_events ietf sample_sender = (False, refused) \<and>
    fr_error refused = QUIC_INVALID_PACKET_HEADER \<and> fr_detailed_error refused = ''Illegal public flags value.''"
  using version_negotiation_roundtrip [where libs = sample_libs and vis = packet_events and client = sample_sender
      and versions = "[sample_version, sample_version\<lparr>pv_transport_version := 39\<rparr>]" and connection_id = 42]
  by (auto simp: sample_libs_def sample_version_def sample_sender_def MyQuicFramer_def packet_events_def Let_def
      GetVersionNegotiationPacketSize_def framer_size_defs RaiseError_def)

section \<open>What an unauthenticated packet cannot change\<close>

definition step_keeps :: "('v, 'z) frame_step \<Rightarrow> bool" where
  "step_keeps f \<longleftrightarrow> (\<forall>s r. framer.more (fst (snd (f (s, r)))) = framer.more s)"

lemma step_keeps_basic: "step_keeps (fail_frame vis err m)" "step_keeps (visit_frame cb)"
  by (simp_all add: step_keeps_def fail_frame_def visit_frame_def RaiseError_def split: prod.splits)

lemma step_keeps_parse: "step_keeps (parse_frame vis err f cb)"
  unfolding step_keeps_def parse_frame_def fail_frame_def visit_frame_def RaiseError_def by (simp split: prod.splits sum.splits)

lemma step_keeps_padding: "step_keeps (\<lambda>(s, r). case ProcessPaddingFrame version r of (frame, r') \<Rightarrow> visit_frame (cb frame) (s, r'))"
  by (simp add: step_keeps_def visit_frame_def case_prod_unfold)

lemma step_keeps_if: "step_keeps f \<Longrightarrow> step_keeps g \<Longrightarrow> step_keeps (if b then f else g)"
  by simp

lemma step_keeps_ack: "step_keeps (process_ack fp vis ty)"
  unfolding step_keeps_def process_ack_def fail_frame_def visit_frame_def RaiseError_def Let_def
  by (simp split: prod.splits sum.splits)

lemma step_keeps_dispatch: "step_keeps (process_special fp vis ty)" "step_keeps (process_regular fp vis len pn ty)"
  unfolding process_special_def process_regular_def
  by (intro step_keeps_if step_keeps_basic step_keeps_parse step_keeps_padding step_keeps_ack)+

lemma step_keepsD: "step_keeps f \<Longrightarrow> framer.more (fst (snd (f (s, r)))) = framer.more s"
  by (simp add: step_keeps_def)

lemma process_frame_more: "framer.more (fst (snd (process_frame fp vis len pn (s, r)))) = framer.more s"
  unfolding process_frame_def Let_def
  by (simp add: step_keepsD step_keeps_dispatch step_keeps_basic(1) split: prod.splits option.splits)

lemma process_frames_more: "framer.more (fst (snd (process_frames fp vis len pn s r))) = framer.more s"
proof (induction fp vis len pn s r rule: process_frames.induct)
  case (1 fp vis len pn s r)
  obtain out s1 r1 where st: "process_frame fp vis len pn (s, r) = (out, s1, r1)" by (metis prod_cases3)
  then have more: "framer.more s1 = framer.more s" using process_frame_more [of fp vis len pn s r] by simp
  show ?case
  proof (cases "IsDoneReading r")
    case False
    then show ?thesis using 1 [OF False st [symmetric]] st more
      by (cases out) (simp_all add: process_frames.simps [of _ _ _ _ _ r])
  qed (simp add: process_frames.simps [of _ _ _ _ _ r])
qed

lemma ProcessFrameData_more: "framer.more (fst (snd (ProcessFrameData fp vis len pn s r))) = framer.more s"
  using process_frames_more [of fp vis len pn s r]
  by (simp add: ProcessFrameData_def RaiseError_def)

text \<open>The parts of the framer that decide what the next packet means.\<close>

definition security_state ::
  "('v, 'z) quic_framer_scheme \<Rightarrow> u64 \<times> quic_decrypter \<times> nat \<times> quic_decrypter option \<times> nat \<times> bool" where
  "security_state fr = (fr_largest_packet_number fr, fr_decrypter fr, fr_decrypter_level fr, fr_alternative_decrypter fr,
     fr_alternative_decrypter_level fr, fr_alternative_decrypter_latch fr)"

lemma security_state_more: "framer.more fr' = framer.more fr \<Longrightarrow> security_state fr' = security_state fr"
  by (cases fr; cases fr') (simp add: security_state_def)

lemma security_state_updates [simp]:
  "security_state (fr\<lparr>fr_visitor := v\<rparr>) = security_state fr" "security_state (fr\<lparr>fr_error := e\<rparr>) = security_state fr"
  "security_state (fr\<lparr>fr_detailed_error := m\<rparr>) = security_state fr" "security_state (fr\<lparr>fr_version := ver\<rparr>) = security_state fr"
  "security_state (fr\<lparr>fr_last_version_label := l\<rparr>) = security_state fr" "security_state (fr\<lparr>fr_last_nonce := n\<rparr>) = security_state fr"
  "security_state (fr\<lparr>fr_last_packet_is_ietf_quic := b\<rparr>) = security_state fr"
  by (simp_all add: security_state_def)

lemma security_state_RaiseError [simp]: "security_state (snd (RaiseError vis err fr)) = security_state fr"
  by (simp add: RaiseError_def)

definition keeps_data :: "'a read_op \<Rightarrow> bool" where
  "keeps_data f \<longleftrightarrow> (\<forall>r. r_data (snd (f r)) = r_data r)"

lemma keeps_data_ReadBytes: "keeps_data (ReadBytes n)"
  by (simp add: keeps_data_def ReadBytes_def OnFailure_def)

lemma keeps_data_bind: "keeps_data f \<Longrightarrow> (\<And>x. keeps_data (g x)) \<Longrightarrow> keeps_data (read_bind f g)"
  unfolding keeps_data_def read_bind_def by (simp split: prod.splits option.splits) (metis snd_conv)

lemma keeps_data_return: "keeps_data (read_return x)"
  by (simp add: keeps_data_def read_return_def)

lemma keeps_data_readers: "keeps_data ReadConnectionId" "keeps_data ReadTag" "keeps_data (ReadBytesToUInt64 n)"
  unfolding ReadConnectionId_def ReadTag_def
    apply (intro keeps_data_bind keeps_data_ReadBytes keeps_data_return)+
  apply (simp add: keeps_data_def ReadBytesToUInt64_def read_bind_def read_return_def ReadBytes_def OnFailure_def)
  done

definition keeps_security :: "(('v, 'z) framer_read \<Rightarrow> 'a option \<times> ('v, 'z) framer_read) \<Rightarrow> bool" where
  "keeps_security f \<longleftrightarrow> (\<forall>fr r. security_state (fst (snd (f (fr, r)))) = security_state fr \<and> r_data (snd (snd (f (fr, r)))) = r_data r)"

named_theorems security_intros

lemma keeps_basic [security_intros]: "keeps_security (framer_return x)" "keeps_security (framer_fail m)"
  by (simp_all add: keeps_security_def framer_return_def framer_fail_def)

lemma keeps_try [security_intros]: "keeps_data f \<Longrightarrow> keeps_security (framer_try m f)"
  unfolding keeps_security_def framer_try_def framer_fail_def keeps_data_def
  by (simp split: prod.splits option.splits) (metis snd_conv)

lemma keeps_bind [security_intros]: "keeps_security f \<Longrightarrow> (\<And>x. keeps_security (g x)) \<Longrightarrow> keeps_security (framer_bind f g)"
  unfolding keeps_security_def framer_bind_def by (simp split: prod.splits option.splits) (metis fst_conv snd_conv surj_pair)

lemma keeps_if [security_intros]: "keeps_security f \<Longrightarrow> keeps_security g \<Longrightarrow> keeps_security (if b then f else g)"
  by simp

lemma keeps_state: "(\<And>fr. keeps_security (f fr)) \<Longrightarrow> keeps_security (\<lambda>(fr, r). f fr (fr, r))"
  by (simp add: keeps_security_def)

lemma keeps_choice: "keeps_security f \<Longrightarrow> keeps_security g \<Longrightarrow> keeps_security (\<lambda>(fr, r). if b fr then f (fr, r) else g (fr, r))"
  by (simp add: keeps_security_def)

lemma keeps_guards:
  "keeps_security g \<Longrightarrow>
   keeps_security (\<lambda>(fr, r). if b fr then framer_fail m1 (fr, r) else if c then framer_fail m2 (fr, r) else g (fr, r))"
  by (simp add: keeps_security_def framer_fail_def)

lemma keeps_parts [security_intros]:
  "keeps_security (process_connection_id fl h)" "keeps_security (process_version libs fl h)" "keeps_security (process_nonce fl h)"
proof -
  show "keeps_security (process_connection_id fl h)"
    unfolding process_connection_id_def
    by (intro keeps_if keeps_bind keeps_try keeps_data_readers keeps_basic(1) keeps_state [OF keeps_basic(1)])
  have 1: "keeps_security (\<lambda>(fr, r). let version_label = NetToHost32 tag; fr = fr\<lparr>fr_last_version_label := version_label\<rparr>;
      version = ParseQuicVersionLabel libs version_label
      in if version = fr_version fr \<and> fl > PACKET_PUBLIC_FLAGS_MAX then framer_fail m (fr, r)
         else framer_return (h\<lparr>ph_version := version\<rparr>) (fr, r))" for tag m
    by (simp add: keeps_security_def Let_def framer_fail_def framer_return_def)
  show "keeps_security (process_version libs fl h)"
    unfolding process_version_def by (intro keeps_choice keeps_bind [OF keeps_try 1] keeps_data_readers keeps_basic)
  have 2: "keeps_security (\<lambda>(fr, r). framer_return (h\<lparr>ph_nonce := Some nonce\<rparr>) (fr\<lparr>fr_last_nonce := nonce\<rparr>, r))" for nonce
    by (simp add: keeps_security_def framer_return_def)
  show "keeps_security (process_nonce fl h)"
    unfolding process_nonce_def by (intro keeps_choice keeps_bind [OF keeps_try 2] keeps_data_ReadBytes keeps_basic)
qed

lemma keeps_public_header: "keeps_security (ProcessPublicHeader libs h)"
  unfolding ProcessPublicHeader_def Let_def by (intro security_intros keeps_guards keeps_data_ReadBytes)

lemma keeps_unauthenticated_header:
  fixes vis :: "('v, 'y) packet_visitor_scheme"
  shows "keeps_security (ProcessUnauthenticatedHeader vis h :: ('v, 'z) framer_read \<Rightarrow> _)"
proof -
  have "keeps_data (ProcessAndCalculatePacketNumber len base)" for len base
    unfolding ProcessAndCalculatePacketNumber_def by (intro keeps_data_bind keeps_data_readers keeps_data_return)
  then have data: "r_data r' = r_data r" if "ProcessAndCalculatePacketNumber len base r = (x, r')" for len base r r' x
    using that unfolding keeps_data_def by (metis snd_conv)
  show ?thesis unfolding keeps_security_def
  proof (intro allI)
    fix fr :: "('v, 'z) quic_framer_scheme" and r
    obtain x r' where p: "ProcessAndCalculatePacketNumber (ph_packet_number_length h) (fr_largest_packet_number fr) r = (x, r')" by fastforce
    show "security_state (fst (snd (ProcessUnauthenticatedHeader vis h (fr, r)))) = security_state fr \<and>
        r_data (snd (snd (ProcessUnauthenticatedHeader vis h (fr, r)))) = r_data r"
      using data [OF p] by (cases x) (simp_all add: ProcessUnauthenticatedHeader_def p Let_def split: prod.splits bool.splits)
  qed
qed

text \<open>The decrypters the framer may use for a packet.\<close>

definition candidate :: "('v, 'z) quic_framer_scheme \<Rightarrow> quic_decrypter \<Rightarrow> bool" where
  "candidate fr dec \<longleftrightarrow> dec = fr_decrypter fr \<or>
     (\<exists>alternative. fr_alternative_decrypter fr = Some alternative \<and>
        (dec = alternative \<or> (\<exists>nonce. dec = SetDiversificationNonce alternative nonce)))"

definition accepts_packet :: "('v, 'z) quic_framer_scheme \<Rightarrow> u8 list \<Rightarrow> bool" where
  "accepts_packet fr packet \<longleftrightarrow> (\<exists>dec version pn ad k limit plain. candidate fr dec \<and>
     DecryptPacket dec version pn ad (drop k packet) limit = Some plain)"

text \<open>All that is left of a packet that fails to decrypt is a nonce in the alternative decrypter.\<close>

definition untouched :: "('v, 'z) quic_framer_scheme \<Rightarrow> ('v, 'z) quic_framer_scheme \<Rightarrow> bool" where
  "untouched fr fr' \<longleftrightarrow>
     fr_largest_packet_number fr' = fr_largest_packet_number fr \<and> fr_decrypter fr' = fr_decrypter fr \<and>
     fr_decrypter_level fr' = fr_decrypter_level fr \<and> fr_alternative_decrypter_level fr' = fr_alternative_decrypter_level fr \<and>
     fr_alternative_decrypter_latch fr' = fr_alternative_decrypter_latch fr \<and>
     (fr_alternative_decrypter fr' = fr_alternative_decrypter fr \<or>
      (\<exists>alternative nonce. fr_alternative_decrypter fr = Some alternative \<and>
         fr_alternative_decrypter fr' = Some (SetDiversificationNonce alternative nonce)))"

lemma untouched_same: "security_state fr' = security_state fr \<Longrightarrow> untouched fr fr'"
  by (simp add: security_state_def untouched_def)

lemma untouched_security: "security_state fr1 = security_state fr \<Longrightarrow> security_state fr3 = security_state fr2 \<Longrightarrow> untouched fr1 fr2 \<Longrightarrow> untouched fr fr3"
  by (simp add: security_state_def untouched_def)

lemma accepts_same: "security_state fr1 = security_state fr \<Longrightarrow> accepts_packet fr1 packet = accepts_packet fr packet"
  by (simp add: security_state_def accepts_packet_def candidate_def)

lemma rejected_payload:
  assumes "\<not> accepts_packet fr packet" "r_data r = packet"
  shows "\<exists>fr'. DecryptPayload libs vis h packet (fst (ReadRemainingPayload r)) limit fr = (None, fr') \<and> untouched fr fr'"
proof -
  have rej: "DecryptPacket dec version pn ad (fst (ReadRemainingPayload r)) limit = None" if "candidate fr dec" for dec version pn ad limit
    using assms that unfolding accepts_packet_def
    by (cases "DecryptPacket dec version pn ad (fst (ReadRemainingPayload r)) limit")
      (auto simp: ReadRemainingPayload_def PeekRemainingPayload_def)
  have main: "candidate fr (fr_decrypter fr)" by (simp add: candidate_def)
  show ?thesis
  proof (cases "fr_alternative_decrypter fr")
    case None
    then show ?thesis using rej [OF main] by (simp add: DecryptPayload_def Let_def untouched_def)
  next
    case (Some alternative)
    define alt where "alt = (case ph_nonce h of None \<Rightarrow> alternative | Some nonce \<Rightarrow> SetDiversificationNonce alternative nonce)"
    have "candidate fr alt" using Some by (auto simp: candidate_def alt_def split: option.splits)
    then have "DecryptPayload libs vis h packet (fst (ReadRemainingPayload r)) limit fr = (None, fr\<lparr>fr_alternative_decrypter := Some alt\<rparr>)"
      using rej [OF main] rej Some by (simp add: DecryptPayload_def Let_def alt_def)
    moreover have "untouched fr (fr\<lparr>fr_alternative_decrypter := Some alt\<rparr>)"
      using Some by (auto simp: untouched_def alt_def split: option.splits)
    ultimately show ?thesis by blast
  qed
qed

lemma rejected_data_packet:
  assumes "\<not> accepts_packet fr packet" "r_data r = packet"
  shows "untouched fr (snd (ProcessDataPacket libs vis h packet limit (fr, r)))"
proof -
  obtain h' fr1 r1 where st: "ProcessUnauthenticatedHeader vis h (fr, r) = (h', fr1, r1)" by (metis prod_cases3)
  have "security_state (fst (snd (ProcessUnauthenticatedHeader vis h (fr, r)))) = security_state fr \<and>
      r_data (snd (snd (ProcessUnauthenticatedHeader vis h (fr, r)))) = r_data r"
    using keeps_unauthenticated_header [of vis h, unfolded keeps_security_def] by (elim allE) assumption
  then have k: "security_state fr1 = security_state fr" "r_data r1 = r_data r" by (simp_all add: st)
  show ?thesis
  proof (cases h')
    case None
    show ?thesis unfolding ProcessDataPacket_def prod.case st None option.case snd_conv by (rule untouched_same [OF k(1)])
  next
    case (Some header)
    obtain fr2 where d: "DecryptPayload libs vis header packet (fst (ReadRemainingPayload r1)) limit fr1 = (None, fr2)" "untouched fr1 fr2"
      using rejected_payload [of fr1 packet r1 libs vis header limit] assms k(2) unfolding accepts_same [OF k(1)] by blast
    have "security_state (snd (RaiseError vis QUIC_DECRYPTION_FAILURE (fr2\<lparr>fr_detailed_error := m\<rparr>))) = security_state fr2" for m by simp
    then show ?thesis unfolding ProcessDataPacket_def prod.case st Some option.case d(1)
      by (rule untouched_security [OF k(1) _ d(2)])
  qed
qed

text \<open>
  C32. A forged packet is harmless: when none of the framer's decrypters accepts any part of the
  packet, ProcessPacket leaves the largest packet number, the decrypter and its level as they were;
  at most the nonce of the packet has reached the alternative decrypter. The largest packet number,
  which later packet numbers are reconstructed from, is never under the control of an attacker.
\<close>

theorem forged_packet_harmless:
  assumes "\<not> accepts_packet fr packet"
  shows "untouched fr (snd (ProcessPacket libs vis packet fr))"
proof -
  let ?rd = "QuicDataReader packet (endianness fr)"
  define fr1 where "fr1 = fr\<lparr>fr_last_packet_is_ietf_quic := False, fr_visitor := OnPacket vis (fr_visitor fr)\<rparr>"
  have fr1: "fr\<lparr>fr_last_packet_is_ietf_quic := False\<rparr>\<lparr>fr_visitor := OnPacket vis (fr_visitor (fr\<lparr>fr_last_packet_is_ietf_quic := False\<rparr>))\<rparr> = fr1"
    by (simp add: fr1_def)
  have s1: "security_state fr1 = security_state fr" by (simp add: fr1_def)
  have rd: "r_data ?rd = packet" by (simp add: QuicDataReader_def)
  obtain h fr2 r2 where hd: "ProcessPublicHeader libs (QuicPacketHeader libs) (fr1, ?rd) = (h, fr2, r2)" by (metis prod_cases3)
  have "security_state (fst (snd (ProcessPublicHeader libs (QuicPacketHeader libs) (fr1, ?rd)))) = security_state fr1 \<and>
      r_data (snd (snd (ProcessPublicHeader libs (QuicPacketHeader libs) (fr1, ?rd)))) = r_data ?rd"
    using keeps_public_header [of libs] unfolding keeps_security_def by blast
  then have k: "security_state fr2 = security_state fr" "r_data r2 = packet" using s1 rd by (simp_all add: hd)
  show ?thesis
  proof (cases h)
    case None
    then show ?thesis unfolding ProcessPacket_def Let_def fr1 hd using k by (simp add: untouched_same)
  next
    case (Some header)
    obtain ok v where pub: "OnUnauthenticatedPublicHeader vis header (fr_visitor fr2) = (ok, v)" by fastforce
    define mm where "mm = (if fr_perspective (fr2\<lparr>fr_visitor := v\<rparr>) = IS_SERVER \<and> ph_version_flag header \<and>
      ph_version header \<noteq> fr_version (fr2\<lparr>fr_visitor := v\<rparr>)
      then OnProtocolVersionMismatch vis (ph_version header) (fr_visitor (fr2\<lparr>fr_visitor := v\<rparr>)) else (True, None, fr_visitor (fr2\<lparr>fr_visitor := v\<rparr>)))"
    obtain go_on nv v' where mm: "mm = (go_on, nv, v')" by (metis prod_cases3)
    define fr3 where "fr3 = fr2\<lparr>fr_visitor := v\<rparr>\<lparr>fr_visitor := v', fr_version := (case nv of None \<Rightarrow> fr_version (fr2\<lparr>fr_visitor := v\<rparr>) | Some version \<Rightarrow> version)\<rparr>"
    define r3 where "r3 = r2\<lparr>r_endianness := endianness fr3\<rparr>"
    have s3: "security_state fr3 = security_state fr" "r_data r3 = packet" using k by (simp_all add: fr3_def r3_def)
    have neg: "security_state (fst (snd (ProcessVersionNegotiationPacket libs vis header (fr3, r3)))) = security_state fr"
      using s3 by (simp add: ProcessVersionNegotiationPacket_def RaiseError_def split: prod.splits option.splits)
    have reset: "security_state (fst (snd (ProcessPublicResetPacket libs vis header (fr3, r3)))) = security_state fr"
      using s3 by (simp add: ProcessPublicResetPacket_def RaiseError_def Let_def split: prod.splits option.splits)
    have data: "untouched fr (snd (ProcessDataPacket libs vis header packet limit (fr3, r3)))" for limit
      by (rule untouched_security [OF s3(1) refl]) (rule rejected_data_packet, use assms s3 accepts_same [OF s3(1)] in simp_all)
    show ?thesis
    proof (cases ok)
      case False
      then show ?thesis unfolding ProcessPacket_def Let_def fr1 hd Some using k pub by (simp add: untouched_same)
    next
      case True
      have "snd (ProcessPacket libs vis packet fr) =
          (if \<not> go_on then fr3
           else if fr_perspective fr3 = IS_CLIENT \<and> ph_version_flag header then fst (snd (ProcessVersionNegotiationPacket libs vis header (fr3, r3)))
           else if ph_reset_flag header then fst (snd (ProcessPublicResetPacket libs vis header (fr3, r3)))
           else if length packet \<le> kMaxPacketSize then snd (ProcessDataPacket libs vis header packet kMaxPacketSize (fr3, r3))
           else snd (ProcessDataPacket libs vis header packet (length packet) (fr3, r3)))"
        unfolding ProcessPacket_def Let_def fr1 hd Some
        by (simp only: prod.case option.case pub True bool.case mm_def [symmetric] mm fr3_def [symmetric] r3_def [symmetric])
          (simp only: if_distrib [of snd] case_prod_beta snd_conv cong: if_cong)
      then show ?thesis using data neg reset s3 by (simp add: untouched_same)
    qed
  qed
qed

lemma null_rejects_short: "length ct < 12 \<Longrightarrow> null_DecryptPacket p version pn ad ct limit = None"
  by (auto simp: null_DecryptPacket_def ReadHash_def read_bind_def read_return_def ReadUInt64_def ReadUInt32_def ReadBytes_def CanRead_def
      QuicDataReader_def Let_def split: prod.splits option.splits if_splits)

theorem forged_packet_harmless_witness:
  "untouched sample_receiver (snd (ProcessPacket sample_libs packet_events [0x38, 0, 0, 0, 0, 0, 0, 0, 42, 255] sample_receiver))"
  by (rule forged_packet_harmless)
    (simp add: accepts_packet_def candidate_def sample_receiver_def MyQuicFramer_def sample_libs_def null_rejects_short)

end
