(* ===== verification/Packet_Map.thy ===== *)
theory Packet_Map
  imports Quic_Prelude
begin

text \<open>
  The \<open>std::map\<close> from packet numbers that the controllers keep their packets in: an
  association list in ascending order of its keys. As in C++, \<open>insert\<close> leaves an existing
  entry alone and \<open>begin\<close> is the entry of the smallest key.
\<close>

type_synonym 'a packet_map = "(u64 \<times> 'a) list"

fun pm_insert :: "u64 \<Rightarrow> 'a \<Rightarrow> 'a packet_map \<Rightarrow> 'a packet_map" where
  "pm_insert k v [] = [(k, v)]"
| "pm_insert k v ((k', v') # m) =
     (if k < k' then (k, v) # (k', v') # m
      else if k = k' then (k', v') # m
      else (k', v') # pm_insert k v m)"

fun pm_find :: "u64 \<Rightarrow> 'a packet_map \<Rightarrow> 'a option" where
  "pm_find k [] = None"
| "pm_find k ((k', v) # m) = (if k = k' then Some v else pm_find k m)"

fun pm_erase :: "u64 \<Rightarrow> 'a packet_map \<Rightarrow> 'a packet_map" where
  "pm_erase k [] = []"
| "pm_erase k ((k', v) # m) = (if k = k' then m else (k', v) # pm_erase k m)"

definition pm_inv :: "'a packet_map \<Rightarrow> bool" where
  "pm_inv m \<longleftrightarrow> sorted_wrt (<) (map fst m)"

lemma pm_inv_simps [simp]:
  "pm_inv []" "pm_inv ((k, v) # m) \<longleftrightarrow> (\<forall>x\<in>fst ` set m. k < x) \<and> pm_inv m"
  by (auto simp: pm_inv_def)

lemma pm_keys_insert [simp]: "fst ` set (pm_insert k v m) = insert k (fst ` set m)"
  by (induction k v m rule: pm_insert.induct) auto

lemma pm_inv_insert [simp]: "pm_inv m \<Longrightarrow> pm_inv (pm_insert k v m)"
  by (induction k v m rule: pm_insert.induct) (auto simp: pm_inv_simps(2) image_iff)

lemma pm_find_None_iff: "pm_find k m = None \<longleftrightarrow> k \<notin> fst ` set m"
  by (induction k m rule: pm_find.induct) auto

lemma pm_find_insert:
  assumes "pm_inv m"
  shows "pm_find x (pm_insert k v m) =
    (if x = k then (case pm_find k m of None \<Rightarrow> Some v | Some w \<Rightarrow> Some w) else pm_find x m)"
  using assms
proof (induction k v m rule: pm_insert.induct)
  case (2 k v k' v' m)
  have "pm_find k m = None" if "k < k'"
    using that "2.prems" by (auto simp: pm_find_None_iff)
  then show ?case using 2 by auto
qed simp

lemma pm_erase_subset: "set (pm_erase k m) \<subseteq> set m"
  by (induction k m rule: pm_erase.induct) auto

lemma pm_inv_erase [simp]: "pm_inv m \<Longrightarrow> pm_inv (pm_erase k m)"
proof (induction k m rule: pm_erase.induct)
  case (2 k k' v m)
  then show ?case using pm_erase_subset [of k m] by auto
qed simp

lemma pm_find_erase: "pm_inv m \<Longrightarrow> pm_find x (pm_erase k m) = (if x = k then None else pm_find x m)"
proof (induction k m rule: pm_erase.induct)
  case (2 k k' v m)
  have "pm_find k' m = None" using "2.prems" by (auto simp: pm_find_None_iff)
  then show ?case using 2 by auto
qed simp

lemma pm_find_in: "pm_find k m = Some v \<Longrightarrow> (k, v) \<in> set m"
  by (induction k m rule: pm_find.induct) (auto split: if_splits)

lemma pm_erase_absent: "k \<notin> fst ` set m \<Longrightarrow> pm_erase k m = m"
  by (induction k m rule: pm_erase.induct) auto

section \<open>Sums over the entries\<close>

definition pm_sum :: "('a \<Rightarrow> u64) \<Rightarrow> 'a packet_map \<Rightarrow> u64" where
  "pm_sum f m = sum_list (map (\<lambda>(_, v). f v) m)"

lemma pm_sum_simps [simp]: "pm_sum f [] = 0" "pm_sum f ((k, v) # m) = f v + pm_sum f m"
  by (simp_all add: pm_sum_def)

lemma pm_sum_insert: "k \<notin> fst ` set m \<Longrightarrow> pm_sum f (pm_insert k v m) = pm_sum f m + f v"
  by (induction k v m rule: pm_insert.induct) auto

lemma pm_insert_last: "pm_inv m \<Longrightarrow> \<forall>x\<in>fst ` set m. x < k \<Longrightarrow> pm_insert k v m = m @ [(k, v)]"
  by (induction k v m rule: pm_insert.induct) auto

text \<open>The same sum without wrap-around.\<close>

definition pm_total :: "('a \<Rightarrow> nat) \<Rightarrow> 'a packet_map \<Rightarrow> nat" where
  "pm_total f m = sum_list (map (\<lambda>(_, v). f v) m)"

lemma pm_total_simps [simp]: "pm_total f [] = 0" "pm_total f ((k, v) # m) = f v + pm_total f m"
  by (simp_all add: pm_total_def)

lemma pm_total_insert_le: "pm_total f (pm_insert k v m) \<le> pm_total f m + f v"
  by (induction k v m rule: pm_insert.induct) auto

lemma pm_total_erase: "pm_find k m = Some v \<Longrightarrow> pm_total f m = pm_total f (pm_erase k m) + f v"
  by (induction k m rule: pm_erase.induct) (auto split: if_splits)

lemma pm_total_erase_le: "pm_total f (pm_erase k m) \<le> pm_total f m"
  by (induction k m rule: pm_erase.induct) auto

lemma pm_insert_values: "(k', x) \<in> set (pm_insert k v m) \<Longrightarrow> x = v \<or> (k', x) \<in> set m"
  by (induction k v m rule: pm_insert.induct) (auto split: if_splits)

section \<open>The interface\<close>

text \<open>What the users of the map rely on; \<open>look\<close> is the finite map it stands for.\<close>

locale packet_store =
  fixes empty :: 'm
    and put :: "u64 \<Rightarrow> 'a \<Rightarrow> 'm \<Rightarrow> 'm"
    and del :: "u64 \<Rightarrow> 'm \<Rightarrow> 'm"
    and look :: "u64 \<Rightarrow> 'm \<Rightarrow> 'a option"
    and ok :: "'m \<Rightarrow> bool"
  assumes ok_empty: "ok empty" and look_empty: "look k empty = None"
    and ok_put: "ok m \<Longrightarrow> ok (put k v m)"
    and look_put: "ok m \<Longrightarrow> look x (put k v m) =
          (if x = k then (case look k m of None \<Rightarrow> Some v | Some w \<Rightarrow> Some w) else look x m)"
    and ok_del: "ok m \<Longrightarrow> ok (del k m)"
    and look_del: "ok m \<Longrightarrow> look x (del k m) = (if x = k then None else look x m)"
begin

lemma ok_dels: "ok m \<Longrightarrow> ok (fold del ks m)"
  by (induction ks arbitrary: m) (simp_all add: ok_del)

lemma look_dels: "ok m \<Longrightarrow> look x (fold del ks m) = (if x \<in> set ks then None else look x m)"
  by (induction ks arbitrary: m) (simp_all add: ok_del look_del)

lemma look_put_del: "ok m \<Longrightarrow> look x (del k (put k v m)) = (if x = k then None else look x m)"
  by (simp add: ok_put look_put look_del)

lemma first_put_wins: "ok m \<Longrightarrow> look k m = None \<Longrightarrow> look k (put k w (put k v m)) = Some v"
  by (simp add: ok_put look_put)

end

interpretation pm: packet_store "[]" pm_insert pm_erase pm_find pm_inv
  by unfold_locales (simp_all add: pm_find_insert pm_find_erase)

end
