(* ===== verification/Sampler.thy ===== *)
theory Sampler
  imports Packet_Map Quic_Time
begin

text \<open>
  MySampler (delay-bbr/sampler.h, sampler.cc): the delivery-rate sampler of the delay-based BBR
  sender. Every sent packet keeps a snapshot of the sampler; its acknowledgement yields the smaller
  of the rate at which the data was sent and the rate at which it was acknowledged.

  A sample divides by a time difference; \<open>None\<close> stands for the undefined division by zero.
\<close>

section \<open>State\<close>

record packet_state =
  ps_sent_time :: quic_time
  ps_size :: u64
  ps_total_bytes_sent :: u64
  ps_total_bytes_sent_at_last_acked_packet :: u64
  ps_last_acked_packet_sent_time :: quic_time
  ps_last_acked_packet_ack_time :: quic_time
  ps_total_bytes_acked_at_the_last_acked_packet :: u64

record my_sampler =
  total_bytes_sent :: u64
  total_bytes_acked :: u64
  total_bytes_sent_at_last_acked_packet :: u64
  last_acked_packet_sent_time :: quic_time
  last_acked_packet_ack_time :: quic_time
  smp_last_sent_packet :: u64
  packet_infos :: "packet_state packet_map"

definition MySampler :: my_sampler where
  "MySampler = \<lparr>total_bytes_sent = 0, total_bytes_acked = 0, total_bytes_sent_at_last_acked_packet = 0,
     last_acked_packet_sent_time = 0, last_acked_packet_ack_time = 0, smp_last_sent_packet = 0, packet_infos = []\<rparr>"

definition PacketState :: "quic_time \<Rightarrow> u64 \<Rightarrow> my_sampler \<Rightarrow> packet_state" where
  "PacketState sent_time bytes sampler =
     \<lparr>ps_sent_time = sent_time, ps_size = bytes, ps_total_bytes_sent = total_bytes_sent sampler,
      ps_total_bytes_sent_at_last_acked_packet = total_bytes_sent_at_last_acked_packet sampler,
      ps_last_acked_packet_sent_time = last_acked_packet_sent_time sampler,
      ps_last_acked_packet_ack_time = last_acked_packet_ack_time sampler,
      ps_total_bytes_acked_at_the_last_acked_packet = total_bytes_acked sampler\<rparr>"

definition bw_Infinite :: bandwidth where "bw_Infinite = 2 ^ 63 - 1"

section \<open>Operations\<close>

definition smp_OnPacketSent :: "quic_time \<Rightarrow> u64 \<Rightarrow> u64 \<Rightarrow> u64 \<Rightarrow> my_sampler \<Rightarrow> my_sampler" where
  "smp_OnPacketSent sent_time packet_number bytes bytes_in_flight s =
     (let s1 = s\<lparr>total_bytes_sent := total_bytes_sent s + bytes\<rparr>;
          s2 = (if bytes_in_flight = 0
                then s1\<lparr>last_acked_packet_ack_time := sent_time,
                        total_bytes_sent_at_last_acked_packet := total_bytes_sent s1,
                        last_acked_packet_sent_time := sent_time\<rparr>
                else s1)
      in s2\<lparr>packet_infos := pm_insert packet_number (PacketState sent_time bytes s2) (packet_infos s2)\<rparr>)"

definition GetPacketInfoEntry :: "u64 \<Rightarrow> my_sampler \<Rightarrow> packet_state option" where
  "GetPacketInfoEntry seq s = pm_find seq (packet_infos s)"

definition PacketInfoRemove :: "u64 \<Rightarrow> my_sampler \<Rightarrow> my_sampler" where
  "PacketInfoRemove seq s = s\<lparr>packet_infos := pm_erase seq (packet_infos s)\<rparr>"

definition smp_OnPacketLost :: "u64 \<Rightarrow> my_sampler \<Rightarrow> my_sampler" where
  "smp_OnPacketLost packet_number s = PacketInfoRemove packet_number s"

definition smp_send_rate :: "packet_state \<Rightarrow> bandwidth option" where
  "smp_send_rate p =
     (if ps_sent_time p > ps_last_acked_packet_sent_time p
      then bw_FromBytesAndTimeDelta (ps_total_bytes_sent p - ps_total_bytes_sent_at_last_acked_packet p)
             (ps_sent_time p - ps_last_acked_packet_sent_time p)
      else Some bw_Infinite)"

definition OnPacketAcknowledgedInner ::
  "quic_time \<Rightarrow> u64 \<Rightarrow> packet_state \<Rightarrow> bool \<Rightarrow> my_sampler \<Rightarrow> (bandwidth \<times> my_sampler) option" where
  "OnPacketAcknowledgedInner ack_time packet_number p round_update s =
     (let s' = s\<lparr>total_bytes_acked := total_bytes_acked s + ps_size p,
                 total_bytes_sent_at_last_acked_packet := ps_total_bytes_sent p,
                 last_acked_packet_sent_time := ps_sent_time p,
                 last_acked_packet_ack_time := ack_time\<rparr>
      in if \<not> round_update then Some (0, s')
         else if ps_last_acked_packet_sent_time p = 0 then Some (0, s')
         else case smp_send_rate p of
                None \<Rightarrow> None
              | Some send_rate \<Rightarrow>
                  if ack_time \<le> ps_last_acked_packet_ack_time p then Some (0, s')
                  else case bw_FromBytesAndTimeDelta
                              (total_bytes_acked s' - ps_total_bytes_acked_at_the_last_acked_packet p)
                              (ack_time - ps_last_acked_packet_ack_time p) of
                         None \<Rightarrow> None
                       | Some ack_rate \<Rightarrow> Some (min send_rate ack_rate, s'))"

definition smp_OnPacketAcknowledged ::
  "quic_time \<Rightarrow> u64 \<Rightarrow> bool \<Rightarrow> my_sampler \<Rightarrow> (bandwidth \<times> my_sampler) option" where
  "smp_OnPacketAcknowledged ack_time packet_number round_update s =
     (case GetPacketInfoEntry packet_number s of
        None \<Rightarrow> Some (0, s)
      | Some p \<Rightarrow>
          (case OnPacketAcknowledgedInner ack_time packet_number p round_update s of
             None \<Rightarrow> None
           | Some (bw, s') \<Rightarrow> Some (bw, PacketInfoRemove packet_number s')))"

lemmas smp_defs = smp_OnPacketSent_def GetPacketInfoEntry_def PacketInfoRemove_def smp_OnPacketLost_def
  OnPacketAcknowledgedInner_def smp_OnPacketAcknowledged_def PacketState_def

section \<open>Invariant\<close>

text \<open>
  The byte counters do not run ahead of each other, in a packet's snapshot either, and acknowledged
  and outstanding bytes together never exceed the bytes sent. Times are non-negative 64-bit values.
\<close>

definition time_ok :: "quic_time \<Rightarrow> bool" where
  "time_ok t \<longleftrightarrow> 0 \<le> t \<and> t < 2 ^ 63"

definition packet_state_ok :: "my_sampler \<Rightarrow> packet_state \<Rightarrow> bool" where
  "packet_state_ok s p \<longleftrightarrow>
     unat (ps_total_bytes_sent_at_last_acked_packet p) \<le> unat (ps_total_bytes_sent p) \<and>
     unat (ps_total_bytes_sent p) \<le> unat (total_bytes_sent s) \<and>
     unat (ps_total_bytes_acked_at_the_last_acked_packet p) \<le> unat (total_bytes_acked s) \<and>
     time_ok (ps_sent_time p) \<and> time_ok (ps_last_acked_packet_sent_time p) \<and> time_ok (ps_last_acked_packet_ack_time p)"

definition sampler_inv :: "my_sampler \<Rightarrow> bool" where
  "sampler_inv s \<longleftrightarrow>
     pm_inv (packet_infos s) \<and>
     unat (total_bytes_acked s) + pm_total (\<lambda>p. unat (ps_size p)) (packet_infos s) \<le> unat (total_bytes_sent s) \<and>
     unat (total_bytes_sent_at_last_acked_packet s) \<le> unat (total_bytes_sent s) \<and>
     time_ok (last_acked_packet_sent_time s) \<and> time_ok (last_acked_packet_ack_time s) \<and>
     (\<forall>(k, p)\<in>set (packet_infos s). packet_state_ok s p)"

lemma sampler_inv_init: "sampler_inv MySampler"
  by (simp add: sampler_inv_def MySampler_def time_ok_def)

lemma unat_add_small: "unat a + unat b < 2 ^ 64 \<Longrightarrow> unat (a + b :: u64) = unat a + unat b"
  by (simp add: unat_word_ariths)

lemma sampler_inv_sent:
  assumes inv: "sampler_inv s" and t: "time_ok t" and b: "unat (total_bytes_sent s) + unat bytes < 2 ^ 64"
  shows "sampler_inv (smp_OnPacketSent t pn bytes fl s)"
proof -
  let ?s = "smp_OnPacketSent t pn bytes fl s"
  note u = unat_add_small [OF b]
  have sent: "total_bytes_sent ?s = total_bytes_sent s + bytes" "total_bytes_acked ?s = total_bytes_acked s"
    by (simp_all add: smp_defs Let_def)
  define p where "p = PacketState t bytes (?s\<lparr>packet_infos := packet_infos s\<rparr>)"
  have infos: "packet_infos ?s = pm_insert pn p (packet_infos s)"
    by (simp add: smp_defs Let_def p_def)
  have last: "unat (total_bytes_sent_at_last_acked_packet ?s) \<le> unat (total_bytes_sent ?s)"
    "time_ok (last_acked_packet_sent_time ?s)" "time_ok (last_acked_packet_ack_time ?s)"
    using inv t u by (auto simp: sampler_inv_def smp_defs Let_def)
  have p: "packet_state_ok ?s p" using last t by (simp add: packet_state_ok_def p_def PacketState_def)
  have old: "packet_state_ok ?s q" if "(k, q) \<in> set (packet_infos s)" for k q
    using inv that u by (fastforce simp: sampler_inv_def packet_state_ok_def sent)
  have "pm_total (\<lambda>p. unat (ps_size p)) (packet_infos ?s) \<le> pm_total (\<lambda>p. unat (ps_size p)) (packet_infos s) + unat bytes"
    using pm_total_insert_le [of "\<lambda>p. unat (ps_size p)" pn p "packet_infos s"]
    by (simp add: infos p_def PacketState_def)
  moreover have "packet_state_ok ?s q" if "(k, q) \<in> set (packet_infos ?s)" for k q
    using pm_insert_values [of k q pn p] that p old by (auto simp: infos)
  ultimately show ?thesis using inv last u
    by (auto simp: sampler_inv_def sent infos)
qed

lemma sampler_inv_remove: "sampler_inv s \<Longrightarrow> sampler_inv (PacketInfoRemove k s)"
  using pm_erase_subset [of k "packet_infos s"] pm_total_erase_le [of "\<lambda>p. unat (ps_size p)" k "packet_infos s"]
  by (fastforce simp: sampler_inv_def PacketInfoRemove_def packet_state_ok_def)

lemma uint_to_u64: "0 \<le> d \<Longrightarrow> d < 2 ^ 64 \<Longrightarrow> uint (to_u64 d) = d"
  by (simp add: to_u64_def unsigned_of_int take_bit_int_eq_self)

lemma bw_defined:
  assumes "0 < d" "d < 2 ^ 64"
  obtains b where "bw_FromBytesAndTimeDelta bytes d = Some b" "0 \<le> b"
proof -
  have "uint (to_u64 d) \<noteq> 0" using assms by (simp add: uint_to_u64)
  then have "to_u64 d \<noteq> 0" by auto
  then show ?thesis using that by (simp add: bw_FromBytesAndTimeDelta_def mk_bandwidth_def)
qed

lemma time_diff_ok: "time_ok a \<Longrightarrow> time_ok b \<Longrightarrow> a < b \<Longrightarrow> 0 < b - a \<and> b - a < 2 ^ 64"
  by (simp add: time_ok_def)

lemma smp_send_rate_defined:
  assumes "packet_state_ok s p"
  obtains b where "smp_send_rate p = Some b" "0 \<le> b"
proof (cases "ps_last_acked_packet_sent_time p < ps_sent_time p")
  case True
  then have "0 < ps_sent_time p - ps_last_acked_packet_sent_time p" "ps_sent_time p - ps_last_acked_packet_sent_time p < 2 ^ 64"
    using time_diff_ok assms by (simp_all add: packet_state_ok_def)
  then obtain b where "bw_FromBytesAndTimeDelta (ps_total_bytes_sent p - ps_total_bytes_sent_at_last_acked_packet p)
      (ps_sent_time p - ps_last_acked_packet_sent_time p) = Some b" "0 \<le> b" by (rule bw_defined)
  then show ?thesis using True that by (simp add: smp_send_rate_def)
next
  case False
  then show ?thesis using that [of bw_Infinite] by (simp add: smp_send_rate_def bw_Infinite_def)
qed

definition smp_acked :: "quic_time \<Rightarrow> u64 \<Rightarrow> packet_state \<Rightarrow> my_sampler \<Rightarrow> my_sampler" where
  "smp_acked ack_time pn p s = s\<lparr>total_bytes_acked := total_bytes_acked s + ps_size p,
     total_bytes_sent_at_last_acked_packet := ps_total_bytes_sent p,
     last_acked_packet_sent_time := ps_sent_time p, last_acked_packet_ack_time := ack_time,
     packet_infos := pm_erase pn (packet_infos s)\<rparr>"

lemma sampler_inv_acked:
  assumes inv: "sampler_inv s" and t: "time_ok ack_time" and p: "pm_find pn (packet_infos s) = Some p"
  shows "sampler_inv (smp_acked ack_time pn p s)"
    and "unat (total_bytes_acked (smp_acked ack_time pn p s)) = unat (total_bytes_acked s) + unat (ps_size p)"
proof -
  have pok: "packet_state_ok s p" using inv pm_find_in [OF p] by (auto simp: sampler_inv_def)
  have tot: "pm_total (\<lambda>p. unat (ps_size p)) (packet_infos s) =
      pm_total (\<lambda>p. unat (ps_size p)) (pm_erase pn (packet_infos s)) + unat (ps_size p)"
    using pm_total_erase [OF p] .
  have "unat (total_bytes_acked s) + unat (ps_size p) < 2 ^ 64"
    using inv tot unat_u64_less [of "total_bytes_sent s"] by (simp add: sampler_inv_def)
  note u = unat_add_small [OF this]
  show "unat (total_bytes_acked (smp_acked ack_time pn p s)) = unat (total_bytes_acked s) + unat (ps_size p)"
    by (simp add: smp_acked_def u)
  have "packet_state_ok (smp_acked ack_time pn p s) q" if "(k, q) \<in> set (pm_erase pn (packet_infos s))" for k q
    using inv that pm_erase_subset [of pn "packet_infos s"] u
    by (fastforce simp: sampler_inv_def packet_state_ok_def smp_acked_def)
  then show "sampler_inv (smp_acked ack_time pn p s)"
    using inv pok t tot u by (auto simp: sampler_inv_def packet_state_ok_def smp_acked_def)
qed

text \<open>An acknowledgement never divides by zero, and its sample is what its definition says.\<close>

definition smp_rate_taken :: "quic_time \<Rightarrow> packet_state \<Rightarrow> bool \<Rightarrow> bool" where
  "smp_rate_taken ack_time p round_update \<longleftrightarrow>
     round_update \<and> ps_last_acked_packet_sent_time p \<noteq> 0 \<and> ps_last_acked_packet_ack_time p < ack_time"

lemma smp_OnPacketAcknowledged_known:
  assumes inv: "sampler_inv s" and t: "time_ok ack_time" and p: "pm_find pn (packet_infos s) = Some p"
  obtains send_rate ack_rate where
    "smp_send_rate p = Some send_rate" "0 \<le> send_rate" "0 \<le> ack_rate"
    "smp_rate_taken ack_time p ru \<Longrightarrow> bw_FromBytesAndTimeDelta
       (total_bytes_acked s + ps_size p - ps_total_bytes_acked_at_the_last_acked_packet p)
       (ack_time - ps_last_acked_packet_ack_time p) = Some ack_rate"
    "smp_OnPacketAcknowledged ack_time pn ru s =
       Some (if smp_rate_taken ack_time p ru then min send_rate ack_rate else 0, smp_acked ack_time pn p s)"
proof -
  have pok: "packet_state_ok s p" using inv pm_find_in [OF p] by (auto simp: sampler_inv_def)
  obtain send_rate where s: "smp_send_rate p = Some send_rate" "0 \<le> send_rate" by (rule smp_send_rate_defined [OF pok])
  let ?bytes = "total_bytes_acked s + ps_size p - ps_total_bytes_acked_at_the_last_acked_packet p"
  let ?d = "ack_time - ps_last_acked_packet_ack_time p"
  show thesis
  proof (cases "smp_rate_taken ack_time p ru")
    case True
    then have "ps_last_acked_packet_ack_time p < ack_time" by (simp add: smp_rate_taken_def)
    then have "0 < ?d" "?d < 2 ^ 64" using time_diff_ok pok t by (simp_all add: packet_state_ok_def)
    then obtain ack_rate where a: "bw_FromBytesAndTimeDelta ?bytes ?d = Some ack_rate" "0 \<le> ack_rate" by (rule bw_defined)
    show ?thesis
      by (rule that [of send_rate ack_rate])
        (use True s a p in \<open>auto simp: smp_defs smp_rate_taken_def smp_acked_def Let_def\<close>)
  next
    case False
    show ?thesis
      by (rule that [of send_rate 0])
        (use False s p in \<open>auto simp: smp_defs smp_rate_taken_def smp_acked_def Let_def\<close>)
  qed
qed

lemma smp_OnPacketAcknowledged_unknown:
  "pm_find pn (packet_infos s) = None \<Longrightarrow> smp_OnPacketAcknowledged ack_time pn ru s = Some (0, s)"
  by (simp add: smp_OnPacketAcknowledged_def GetPacketInfoEntry_def)

lemma sampler_acknowledged:
  assumes inv: "sampler_inv s" and t: "time_ok ack_time"
  obtains bw s' where "smp_OnPacketAcknowledged ack_time pn ru s = Some (bw, s')" "sampler_inv s'" "0 \<le> bw"
    "total_bytes_sent s' = total_bytes_sent s" "packet_infos s' = pm_erase pn (packet_infos s)"
proof (cases "pm_find pn (packet_infos s)")
  case None
  then have "pm_erase pn (packet_infos s) = packet_infos s" by (simp add: pm_find_None_iff pm_erase_absent)
  then show ?thesis using that [OF smp_OnPacketAcknowledged_unknown [OF None] inv] by simp
next
  case (Some p)
  obtain b where "smp_OnPacketAcknowledged ack_time pn ru s = Some (b, smp_acked ack_time pn p s)" "0 \<le> b"
    by (rule smp_OnPacketAcknowledged_known [OF inv t Some, of ru]) simp
  from that [OF this(1) sampler_inv_acked(1) [OF inv t Some] this(2)] show ?thesis by (simp add: smp_acked_def)
qed

lemma to_i64_small: "unat w < 2 ^ 63 \<Longrightarrow> to_i64 w = int (unat w)"
proof -
  assume "unat w < 2 ^ 63"
  then have "int (unat w) < int (2 ^ 63)" by (simp only: of_nat_less_iff)
  then have lt: "int (unat w) < 2 ^ 63" by (simp only: of_nat_power of_nat_numeral)
  have "- (2 ^ 63) \<le> int (unat w)" by (rule order.trans [of _ 0]) simp_all
  from signed_take_bit_int_eq_self [OF this lt] show "to_i64 w = int (unat w)"
    by (simp add: to_i64_def sint_uint)
qed

lemma bw_FromBytesAndTimeDelta_exact:
  assumes b: "unat bytes * 8000000 < 2 ^ 63" and d: "0 < d" "d < 2 ^ 64"
  shows "bw_FromBytesAndTimeDelta bytes d = Some (8 * int (unat bytes * 1000000 div nat d))"
proof -
  have ud: "unat (to_u64 d) = nat d" using uint_to_u64 [of d] d by (simp add: unat_eq_nat_uint)
  have "unat (bytes * kNumMicrosPerSecond) = unat bytes * 1000000"
    using b by (simp add: kNumMicrosPerSecond_def unat_mult_lem [THEN iffD1])
  then have q: "unat (bytes * kNumMicrosPerSecond div to_u64 d) = unat bytes * 1000000 div nat d"
    by (simp add: unat_div ud)
  have le: "unat bytes * 1000000 div nat d \<le> unat bytes * 1000000" by (rule div_le_dividend)
  then have lt: "(unat bytes * 1000000 div nat d) * 8 < 2 ^ 63" using b by linarith
  then have "unat (bytes * kNumMicrosPerSecond div to_u64 d * 8) = (unat bytes * 1000000 div nat d) * 8"
    using q unat_mult_lem [of "bytes * kNumMicrosPerSecond div to_u64 d" "8 :: u64"] by simp
  with lt have "to_i64 (bytes * kNumMicrosPerSecond div to_u64 d * 8) = int ((unat bytes * 1000000 div nat d) * 8)"
    by (simp add: to_i64_small)
  then show ?thesis using d ud by (auto simp: bw_FromBytesAndTimeDelta_def mk_bandwidth_def)
qed

section \<open>Properties\<close>

text \<open>
  C24. Conservation: from a state in which acknowledged and outstanding bytes do not exceed the bytes
  sent, an acknowledgement at any non-negative time completes (no division by zero), keeps that
  relation, and reports a non-negative bandwidth.
\<close>

theorem sampler_ack_safe:
  assumes "sampler_inv s" "time_ok ack_time"
  shows "\<exists>bw s'. smp_OnPacketAcknowledged ack_time pn round_update s = Some (bw, s') \<and> sampler_inv s' \<and> 0 \<le> bw \<and>
    unat (total_bytes_acked s') \<le> unat (total_bytes_sent s')"
  by (rule sampler_acknowledged [OF assms, of pn round_update]) (auto simp: sampler_inv_def)

definition sample_sampler :: my_sampler where
  "sample_sampler = smp_OnPacketSent 2000 2 1000 1000 (smp_OnPacketSent 1000 1 1000 0 MySampler)"

lemma sample_sampler_inv: "sampler_inv sample_sampler"
  unfolding sample_sampler_def
  by (intro sampler_inv_sent sampler_inv_init) (simp_all add: time_ok_def MySampler_def smp_OnPacketSent_def)

theorem sampler_ack_safe_witness:
  "\<exists>bw s'. smp_OnPacketAcknowledged 51000 1 True sample_sampler = Some (bw, s') \<and> sampler_inv s' \<and> 0 \<le> bw \<and>
    unat (total_bytes_acked s') \<le> unat (total_bytes_sent s')"
  by (rule sampler_ack_safe [OF sample_sampler_inv]) (simp add: time_ok_def)

text \<open>
  C25. The sample is exact: for a known packet that yields a sample, the bandwidth is the smaller of
  the send rate and eight times the bytes acknowledged since the packet was sent over the time since
  the acknowledgement before it, with no wrap-around in the difference of the counters.
\<close>

theorem sampler_rate_exact:
  assumes "sampler_inv s" "time_ok ack_time" "pm_find pn (packet_infos s) = Some p" "smp_rate_taken ack_time p True"
    and "unat (total_bytes_sent s) * 8000000 < 2 ^ 63"
  shows "\<exists>send_rate s'. smp_send_rate p = Some send_rate \<and>
    smp_OnPacketAcknowledged ack_time pn True s =
      Some (min send_rate (8 * int ((unat (total_bytes_acked s) + unat (ps_size p)
          - unat (ps_total_bytes_acked_at_the_last_acked_packet p)) * 1000000
          div nat (ack_time - ps_last_acked_packet_ack_time p))), s')"
proof -
  have pok: "packet_state_ok s p" using assms(1) pm_find_in [OF assms(3)] by (auto simp: sampler_inv_def)
  note acked = sampler_inv_acked [OF assms(1-3)]
  let ?a = "total_bytes_acked s + ps_size p"
  have ua: "unat ?a = unat (total_bytes_acked s) + unat (ps_size p)" "unat ?a \<le> unat (total_bytes_sent s)"
    using acked by (simp_all add: smp_acked_def sampler_inv_def)
  have ub: "unat (?a - ps_total_bytes_acked_at_the_last_acked_packet p) =
      unat ?a - unat (ps_total_bytes_acked_at_the_last_acked_packet p)"
    using pok ua(1) by (simp add: packet_state_ok_def unat_sub_if')
  then have small: "unat (?a - ps_total_bytes_acked_at_the_last_acked_packet p) * 8000000 < 2 ^ 63"
    using ua(2) assms(5) by simp
  have "ps_last_acked_packet_ack_time p < ack_time" using assms(4) by (simp add: smp_rate_taken_def)
  then have "0 < ack_time - ps_last_acked_packet_ack_time p" "ack_time - ps_last_acked_packet_ack_time p < 2 ^ 64"
    using time_diff_ok pok assms(2) by (simp_all add: packet_state_ok_def)
  note rate = bw_FromBytesAndTimeDelta_exact [OF small this]
  show ?thesis
    by (rule smp_OnPacketAcknowledged_known [OF assms(1-3), of True]) (use assms(4) rate ub ua in auto)
qed

theorem sampler_rate_exact_witness:
  "\<exists>p send_rate s'. pm_find 2 (packet_infos sample_sampler) = Some p \<and> smp_send_rate p = Some send_rate \<and>
    smp_OnPacketAcknowledged 52000 2 True sample_sampler =
      Some (min send_rate (8 * int ((unat (total_bytes_acked sample_sampler) + unat (ps_size p)
          - unat (ps_total_bytes_acked_at_the_last_acked_packet p)) * 1000000
          div nat (52000 - ps_last_acked_packet_ack_time p))), s')"
proof -
  obtain p where p: "pm_find 2 (packet_infos sample_sampler) = Some p" "smp_rate_taken 52000 p True"
    by (simp add: sample_sampler_def smp_OnPacketSent_def MySampler_def PacketState_def smp_rate_taken_def)
  have "unat (total_bytes_sent sample_sampler) * 8000000 < 2 ^ 63"
    by (simp add: sample_sampler_def smp_OnPacketSent_def MySampler_def)
  from sampler_rate_exact [OF sample_sampler_inv _ p this] p(1) show ?thesis by (auto simp: time_ok_def)
qed

end
