(* ===== verification/Windowed_Filter.thy ===== *)
theory Windowed_Filter
  imports Quic_Prelude
begin

text \<open>
  WindowedFilter (congestion\_control/windowed\_filter.h): the best, second best and third best of
  the samples of a window. The comparison is an argument, as the template's \<open>Compare\<close> is;
  times are 64-bit words and their differences wrap, as \<open>uint64_t\<close> times do.
\<close>

section \<open>State and operations\<close>

type_synonym 'a wf_sample = "'a \<times> u64"

record 'a windowed_filter =
  window_length :: u64
  zero_value :: 'a
  estimate0 :: "'a wf_sample"
  estimate1 :: "'a wf_sample"
  estimate2 :: "'a wf_sample"

definition WindowedFilter :: "u64 \<Rightarrow> 'a \<Rightarrow> u64 \<Rightarrow> 'a windowed_filter" where
  "WindowedFilter window zero zero_time =
     \<lparr>window_length = window, zero_value = zero, estimate0 = (zero, zero_time),
      estimate1 = (zero, zero_time), estimate2 = (zero, zero_time)\<rparr>"

definition MaxFilter :: "'a::linorder \<Rightarrow> 'a \<Rightarrow> bool" where "MaxFilter lhs rhs \<longleftrightarrow> lhs \<ge> rhs"
definition MinFilter :: "'a::linorder \<Rightarrow> 'a \<Rightarrow> bool" where "MinFilter lhs rhs \<longleftrightarrow> lhs \<le> rhs"

definition SetWindowLength :: "u64 \<Rightarrow> 'a windowed_filter \<Rightarrow> 'a windowed_filter" where
  "SetWindowLength window f = f\<lparr>window_length := window\<rparr>"

definition wf_Reset :: "'a \<Rightarrow> u64 \<Rightarrow> 'a windowed_filter \<Rightarrow> 'a windowed_filter" where
  "wf_Reset new_sample new_time f =
     f\<lparr>estimate0 := (new_sample, new_time), estimate1 := (new_sample, new_time), estimate2 := (new_sample, new_time)\<rparr>"

definition wf_insert :: "('a \<Rightarrow> 'a \<Rightarrow> bool) \<Rightarrow> 'a \<Rightarrow> u64 \<Rightarrow> 'a windowed_filter \<Rightarrow> 'a windowed_filter" where
  "wf_insert compare new_sample new_time f =
     (if compare new_sample (fst (estimate1 f))
      then f\<lparr>estimate1 := (new_sample, new_time), estimate2 := (new_sample, new_time)\<rparr>
      else if compare new_sample (fst (estimate2 f)) then f\<lparr>estimate2 := (new_sample, new_time)\<rparr>
      else f)"

definition wf_expire :: "'a \<Rightarrow> u64 \<Rightarrow> 'a windowed_filter \<Rightarrow> 'a windowed_filter" where
  "wf_expire new_sample new_time f =
     (if new_time - snd (estimate0 f) > window_length f then
        let g = f\<lparr>estimate0 := estimate1 f, estimate1 := estimate2 f, estimate2 := (new_sample, new_time)\<rparr>
        in if new_time - snd (estimate0 g) > window_length g
           then g\<lparr>estimate0 := estimate1 g, estimate1 := estimate2 g\<rparr> else g
      else if fst (estimate1 f) = fst (estimate0 f) \<and> new_time - snd (estimate1 f) > drop_bit 2 (window_length f)
      then f\<lparr>estimate1 := (new_sample, new_time), estimate2 := (new_sample, new_time)\<rparr>
      else if fst (estimate2 f) = fst (estimate1 f) \<and> new_time - snd (estimate2 f) > drop_bit 1 (window_length f)
      then f\<lparr>estimate2 := (new_sample, new_time)\<rparr>
      else f)"

definition wf_Update :: "('a \<Rightarrow> 'a \<Rightarrow> bool) \<Rightarrow> 'a \<Rightarrow> u64 \<Rightarrow> 'a windowed_filter \<Rightarrow> 'a windowed_filter" where
  "wf_Update compare new_sample new_time f =
     (if fst (estimate0 f) = zero_value f \<or> compare new_sample (fst (estimate0 f))
         \<or> new_time - snd (estimate2 f) > window_length f
      then wf_Reset new_sample new_time f
      else wf_expire new_sample new_time (wf_insert compare new_sample new_time f))"

definition GetBest :: "'a windowed_filter \<Rightarrow> 'a" where "GetBest f = fst (estimate0 f)"
definition GetSecondBest :: "'a windowed_filter \<Rightarrow> 'a" where "GetSecondBest f = fst (estimate1 f)"
definition GetThirdBest :: "'a windowed_filter \<Rightarrow> 'a" where "GetThirdBest f = fst (estimate2 f)"

lemmas wf_defs = wf_Update_def wf_Reset_def wf_insert_def wf_expire_def

lemma wf_Update_window [simp]: "window_length (wf_Update c x t f) = window_length f" "zero_value (wf_Update c x t f) = zero_value f"
  by (simp_all add: wf_defs Let_def)

section \<open>Where the estimates come from\<close>

definition wf_samples :: "'a windowed_filter \<Rightarrow> 'a wf_sample set" where
  "wf_samples f = {estimate0 f, estimate1 f, estimate2 f}"

lemma wf_Update_samples: "wf_samples (wf_Update c x t f) \<subseteq> insert (x, t) (wf_samples f)"
  by (auto simp: wf_defs wf_samples_def Let_def)

lemma wf_Updates_samples:
  "wf_samples (fold (\<lambda>(x, t). wf_Update c x t) xs f) \<subseteq> set xs \<union> wf_samples f"
proof (induction xs arbitrary: f)
  case (Cons p xs)
  obtain x t where p: "p = (x, t)" by (cases p)
  have "wf_samples (fold (\<lambda>(x, t). wf_Update c x t) xs (wf_Update c x t f)) \<subseteq> set xs \<union> wf_samples (wf_Update c x t f)"
    by (rule Cons.IH)
  then show ?case using wf_Update_samples [of c x t f] by (auto simp: p)
qed simp

section \<open>Order of the estimates\<close>

text \<open>The contract of a comparison: a total preorder, \<open>better a b\<close> when \<open>a\<close> is at least as good as \<open>b\<close>.\<close>

locale wf_compare =
  fixes better :: "'a \<Rightarrow> 'a \<Rightarrow> bool"
  assumes total: "better a b \<or> better b a"
    and trans: "better a b \<Longrightarrow> better b c \<Longrightarrow> better a c"
begin

lemma better_refl [simp]: "better a a"
  using total by blast

lemma not_better: "\<not> better a b \<Longrightarrow> better b a"
  using total by blast

lemma insert_ordered:
  fixes x :: 'a and t :: u64
  assumes "better (fst (estimate0 f)) (fst (estimate1 f))" "better (fst (estimate1 f)) (fst (estimate2 f))"
    "\<not> better x (fst (estimate0 f))"
  defines "g \<equiv> wf_insert better x t f"
  shows "better (fst (estimate0 g)) (fst (estimate1 g))" "better (fst (estimate1 g)) (fst (estimate2 g))"
    "better (fst (estimate2 g)) x"
  using assms(1-3) not_better [OF assms(3)] not_better [of x "fst (estimate1 f)"] not_better [of x "fst (estimate2 f)"]
  by (simp_all add: g_def wf_insert_def)

lemma expire_ordered:
  fixes x :: 'a and t :: u64
  assumes "better (fst (estimate0 f)) (fst (estimate1 f))" "better (fst (estimate1 f)) (fst (estimate2 f))"
    "better (fst (estimate2 f)) x"
  defines "g \<equiv> wf_expire x t f"
  shows "better (fst (estimate0 g)) (fst (estimate1 g))" "better (fst (estimate1 g)) (fst (estimate2 g))"
    "better (fst (estimate2 g)) x"
proof -
  have a: "better (fst (estimate1 f)) x" "better (fst (estimate0 f)) x" "better (fst (estimate0 f)) (fst (estimate2 f))"
    using assms(1-3) trans by blast+
  show "better (fst (estimate0 g)) (fst (estimate1 g))" "better (fst (estimate1 g)) (fst (estimate2 g))"
    "better (fst (estimate2 g)) x"
    using assms(1-3) a by (simp_all add: g_def wf_expire_def Let_def)
qed

lemma update_ordered:
  fixes x :: 'a and t :: u64
  assumes "better (fst (estimate0 f)) (fst (estimate1 f))" "better (fst (estimate1 f)) (fst (estimate2 f))"
  defines "g \<equiv> wf_Update better x t f"
  shows "better (fst (estimate0 g)) (fst (estimate1 g))" "better (fst (estimate1 g)) (fst (estimate2 g))"
    "better (fst (estimate2 g)) x"
proof -
  let ?h = "wf_insert better x t f"
  have "better (fst (estimate0 g)) (fst (estimate1 g)) \<and> better (fst (estimate1 g)) (fst (estimate2 g)) \<and>
      better (fst (estimate2 g)) x"
  proof (cases "fst (estimate0 f) = zero_value f \<or> better x (fst (estimate0 f)) \<or> t - snd (estimate2 f) > window_length f")
    case True
    then show ?thesis by (simp add: g_def wf_Update_def wf_Reset_def)
  next
    case False
    then have g: "g = wf_expire x t ?h" by (simp add: g_def wf_Update_def)
    have "\<not> better x (fst (estimate0 f))" using False by blast
    from expire_ordered [OF insert_ordered [OF assms(1,2) this]] show ?thesis unfolding g by blast
  qed
  then show "better (fst (estimate0 g)) (fst (estimate1 g))" "better (fst (estimate1 g)) (fst (estimate2 g))"
    "better (fst (estimate2 g)) x" by blast+
qed

text \<open>After any updates of a fresh filter, the best estimate is at least as good as the latest sample.\<close>

lemma updates_ordered:
  fixes xs :: "'a wf_sample list"
  assumes "better (fst (estimate0 f)) (fst (estimate1 f))" "better (fst (estimate1 f)) (fst (estimate2 f))"
  shows "let g = fold (\<lambda>(x, t). wf_Update better x t) xs f in
    better (fst (estimate0 g)) (fst (estimate1 g)) \<and> better (fst (estimate1 g)) (fst (estimate2 g))"
  using assms
proof (induction xs arbitrary: f)
  case (Cons p xs)
  obtain x t where p: "p = (x, t)" by (cases p)
  show ?case using Cons.IH [OF update_ordered(1,2) [OF Cons.prems, of x t]] by (simp add: p)
qed (simp add: Let_def)

lemma latest_bounded:
  assumes "better (fst (estimate0 f)) (fst (estimate1 f))" "better (fst (estimate1 f)) (fst (estimate2 f))"
  shows "better (GetBest (wf_Update better x t f)) x"
  using update_ordered [OF assms, of x t] trans unfolding GetBest_def by blast

end

interpretation max_filter: wf_compare "MaxFilter :: 'a::linorder \<Rightarrow> 'a \<Rightarrow> bool"
  by unfold_locales (auto simp: MaxFilter_def)

interpretation min_filter: wf_compare "MinFilter :: 'a::linorder \<Rightarrow> 'a \<Rightarrow> bool"
  by unfold_locales (auto simp: MinFilter_def)

section \<open>Age of the estimates\<close>

text \<open>Times are those of past updates, the newest last, and none is ahead of the clock.\<close>

definition wf_timed :: "nat \<Rightarrow> 'a windowed_filter \<Rightarrow> bool" where
  "wf_timed now f \<longleftrightarrow> unat (snd (estimate0 f)) \<le> unat (snd (estimate1 f)) \<and>
     unat (snd (estimate1 f)) \<le> unat (snd (estimate2 f)) \<and> unat (snd (estimate2 f)) \<le> now"

lemma wf_Update_timed:
  assumes "wf_timed now f" "now \<le> unat t"
  shows "wf_timed (unat t) (wf_Update c x t f)"
  using assms by (auto simp: wf_timed_def wf_defs Let_def)

text \<open>The best estimate after an update is never older than the window.\<close>

lemma wf_Update_fresh:
  assumes "wf_timed now f" "now \<le> unat t"
  shows "t - snd (estimate0 (wf_Update c x t f)) \<le> window_length f"
proof (cases "fst (estimate0 f) = zero_value f \<or> c x (fst (estimate0 f)) \<or> t - snd (estimate2 f) > window_length f")
  case True
  then show ?thesis by (simp add: wf_Update_def wf_Reset_def)
next
  case False
  then have "t - snd (estimate2 f) \<le> window_length f" by (simp add: not_less)
  then have "t - snd (estimate2 (wf_insert c x t f)) \<le> window_length f" by (simp add: wf_insert_def)
  moreover have "window_length (wf_insert c x t f) = window_length f" by (simp add: wf_insert_def)
  ultimately show ?thesis using False by (auto simp: wf_Update_def wf_expire_def Let_def)
qed

section \<open>What the estimates are\<close>

text \<open>An estimate of a history is one of its samples, at least as good as every later one.\<close>

definition covers :: "('a \<Rightarrow> 'a \<Rightarrow> bool) \<Rightarrow> 'a wf_sample list \<Rightarrow> 'a wf_sample \<Rightarrow> bool" where
  "covers better xs e \<longleftrightarrow> (\<exists>pre post. xs = pre @ e # post \<and> (\<forall>(x, t)\<in>set post. better (fst e) x))"

lemma covers_latest [simp]: "covers better (xs @ [p]) p"
  unfolding covers_def by (rule exI [of _ xs], rule exI [of _ "[]"]) simp

lemma covers_snoc: "covers better xs e \<Longrightarrow> better (fst e) x \<Longrightarrow> covers better (xs @ [(x, t)]) e"
  unfolding covers_def by (elim exE conjE) (rule exI, rule exI [of _ "post @ [(x, t)]" for post], auto)

lemma covers_mem: "covers better xs e \<Longrightarrow> fst e \<in> fst ` set xs"
  by (auto simp: covers_def)

definition wf_covered :: "('a \<Rightarrow> 'a \<Rightarrow> bool) \<Rightarrow> 'a wf_sample list \<Rightarrow> 'a windowed_filter \<Rightarrow> bool" where
  "wf_covered better xs f \<longleftrightarrow>
     covers better xs (estimate0 f) \<and> covers better xs (estimate1 f) \<and> covers better xs (estimate2 f) \<and>
     better (fst (estimate0 f)) (fst (estimate1 f)) \<and> better (fst (estimate1 f)) (fst (estimate2 f))"

context wf_compare
begin

lemma update_covered:
  assumes "wf_covered better xs f"
  shows "wf_covered better (xs @ [(x, t)]) (wf_Update better x t f)"
proof (cases "fst (estimate0 f) = zero_value f \<or> better x (fst (estimate0 f)) \<or> t - snd (estimate2 f) > window_length f")
  case True
  then show ?thesis by (simp add: wf_covered_def wf_Update_def wf_Reset_def)
next
  case False
  let ?h = "wf_insert better x t f"
  have o: "better (fst (estimate0 f)) (fst (estimate1 f))" "better (fst (estimate1 f)) (fst (estimate2 f))"
    and n: "\<not> better x (fst (estimate0 f))" using assms False by (simp_all add: wf_covered_def)
  have le: "better (fst (estimate0 ?h)) (fst (estimate1 ?h))" "better (fst (estimate1 ?h)) (fst (estimate2 ?h))"
    "better (fst (estimate2 ?h)) x" by (rule insert_ordered [OF o n])+
  have h: "covers better (xs @ [(x, t)]) (estimate0 ?h) \<and> covers better (xs @ [(x, t)]) (estimate1 ?h) \<and>
      covers better (xs @ [(x, t)]) (estimate2 ?h)"
    using assms not_better [OF n] not_better [of x "fst (estimate1 f)"] not_better [of x "fst (estimate2 f)"]
    by (auto simp: wf_covered_def wf_insert_def covers_snoc)
  have "wf_covered better (xs @ [(x, t)]) (wf_expire x t ?h)"
    using expire_ordered [OF le, of t] h by (auto simp: wf_covered_def wf_expire_def Let_def)
  then show ?thesis using False by (simp add: wf_Update_def)
qed

lemma updates_covered:
  "wf_covered better xs f \<Longrightarrow> wf_covered better (xs @ ys) (fold (\<lambda>(x, t). wf_Update better x t) ys f)"
proof (induction ys arbitrary: xs f)
  case (Cons p ys)
  obtain x t where p: "p = (x, t)" by (cases p)
  show ?case using Cons.IH [OF update_covered [OF Cons.prems, of x t]] by (simp add: p)
qed simp

text \<open>The first sample resets the fresh filter.\<close>

lemma fresh_covered:
  "wf_covered better ((x, t) # xs) (fold (\<lambda>(x, t). wf_Update better x t) ((x, t) # xs) (WindowedFilter w zero t0))"
proof -
  have "wf_covered better [(x, t)] (wf_Update better x t (WindowedFilter w zero t0))"
    by (simp add: wf_covered_def wf_Update_def wf_Reset_def WindowedFilter_def covers_latest [of _ "[]", simplified])
  from updates_covered [OF this, of xs] show ?thesis by simp
qed

end

lemma wf_Updates_window [simp]: "window_length (fold (\<lambda>(x, t). wf_Update c x t) xs f) = window_length f"
  by (induction xs arbitrary: f) (auto simp: case_prod_unfold)

lemma wf_Updates_timed:
  assumes "wf_timed now f" "now \<le> unat t" "sorted (map (\<lambda>p. unat (snd p)) ((x, t) # xs))"
  shows "wf_timed (unat (snd (last ((x, t) # xs)))) (fold (\<lambda>(x, t). wf_Update c x t) ((x, t) # xs) f)"
  using assms
proof (induction xs arbitrary: x t f now)
  case Nil
  then show ?case using wf_Update_timed by fastforce
next
  case (Cons p xs)
  obtain y u where p: "p = (y, u)" by (cases p)
  have "unat t \<le> unat u" "sorted (map (\<lambda>p. unat (snd p)) ((y, u) # xs))" using Cons.prems(3) by (auto simp: p)
  then show ?case using Cons.IH [OF wf_Update_timed [OF Cons.prems(1,2)]] by (simp add: p)
qed

lemma wf_Updates_fresh:
  assumes "wf_timed now f" "now \<le> unat t" "sorted (map (\<lambda>p. unat (snd p)) ((x, t) # xs))"
  shows "snd (last ((x, t) # xs)) - snd (estimate0 (fold (\<lambda>(x, t). wf_Update c x t) ((x, t) # xs) f)) \<le> window_length f"
  using assms
proof (induction xs arbitrary: x t f now)
  case Nil
  then show ?case using wf_Update_fresh by fastforce
next
  case (Cons p xs)
  obtain y u where p: "p = (y, u)" by (cases p)
  have "unat t \<le> unat u" "sorted (map (\<lambda>p. unat (snd p)) ((y, u) # xs))" using Cons.prems(3) by (auto simp: p)
  then show ?case using Cons.IH [OF wf_Update_timed [OF Cons.prems(1,2)]] by (simp add: p)
qed

section \<open>Properties\<close>

text \<open>
  C23. Fed with samples at non-decreasing times, the filter of MaxFilter returns as its best estimate
  one of the samples, taken no longer than a window before the latest update, and at least as large
  as every sample that followed it; the second and third best are samples too, and the three are
  ordered.
\<close>

theorem windowed_max:
  fixes xs :: "(int \<times> u64) list"
  assumes "xs \<noteq> []" "sorted (map (\<lambda>p. unat (snd p)) xs)"
  shows "let f = fold (\<lambda>(x, t). wf_Update MaxFilter x t) xs (WindowedFilter w zero 0) in
     (\<exists>pre t post. xs = pre @ (GetBest f, t) # post \<and> (\<forall>(x, u)\<in>set post. x \<le> GetBest f) \<and> snd (last xs) - t \<le> w) \<and>
     GetThirdBest f \<le> GetSecondBest f \<and> GetSecondBest f \<le> GetBest f \<and>
     GetSecondBest f \<in> fst ` set xs \<and> GetThirdBest f \<in> fst ` set xs"
proof -
  define f where "f = fold (\<lambda>(x, t). wf_Update MaxFilter x t) xs (WindowedFilter w zero 0)"
  obtain x t ys where xs: "xs = (x, t) # ys" using assms(1) by (metis neq_Nil_conv surj_pair)
  have "wf_timed 0 (WindowedFilter w zero 0)" by (simp add: wf_timed_def WindowedFilter_def)
  from wf_Updates_fresh [OF this _ assms(2) [unfolded xs], of MaxFilter]
  have fresh: "snd (last xs) - snd (estimate0 f) \<le> w" by (simp add: f_def xs WindowedFilter_def)
  have cov: "wf_covered MaxFilter xs f" unfolding f_def xs by (rule max_filter.fresh_covered)
  then obtain pre post where "xs = pre @ estimate0 f # post" "\<forall>(x, u)\<in>set post. x \<le> GetBest f"
    by (auto simp: wf_covered_def covers_def MaxFilter_def GetBest_def)
  then have "\<exists>pre t post. xs = pre @ (GetBest f, t) # post \<and> (\<forall>(x, u)\<in>set post. x \<le> GetBest f) \<and> snd (last xs) - t \<le> w"
    using fresh unfolding GetBest_def by (metis prod.collapse)
  moreover have "GetThirdBest f \<le> GetSecondBest f \<and> GetSecondBest f \<le> GetBest f"
    using cov by (simp add: wf_covered_def MaxFilter_def GetBest_def GetSecondBest_def GetThirdBest_def)
  moreover have "GetSecondBest f \<in> fst ` set xs \<and> GetThirdBest f \<in> fst ` set xs"
    using cov covers_mem unfolding wf_covered_def GetSecondBest_def GetThirdBest_def by blast
  ultimately show ?thesis unfolding f_def [symmetric] Let_def by blast
qed

theorem windowed_max_witness:
  "let xs = [(5, 1), (9, 2), (7, 5), (3, 14)]; f = fold (\<lambda>(x, t). wf_Update MaxFilter x t) xs (WindowedFilter 10 0 0) in
     GetBest f = (7::int) \<and> (\<exists>pre t post. xs = pre @ (GetBest f, t) # post \<and> (\<forall>(x, u)\<in>set post. x \<le> GetBest f) \<and>
       snd (last xs) - t \<le> 10)"
proof -
  have best: "GetBest (fold (\<lambda>(x, t). wf_Update MaxFilter x t) [(5, 1), (9, 2), (7, 5), (3, 14)] (WindowedFilter 10 0 0)) = (7::int)"
    by (simp add: wf_defs MaxFilter_def WindowedFilter_def GetBest_def Let_def)
  show ?thesis
    using best windowed_max [of "[(5, 1), (9, 2), (7, 5), (3, 14)]" 10 0] unfolding Let_def by simp
qed

end
