(* ===== verification/Bbr_Sender_V5.thy ===== *)
theory Bbr_Sender_V5
  imports Sampler Windowed_Filter
begin

text \<open>
  MyBbrSenderV5 (delay-bbr/bbr\_sender\_v5.h, bbr\_sender\_v5.cc): the delay-based BBR congestion
  controller, with its start-up, drain, increase and decrease modes. Floating-point gains are
  dyadic rationals rounded as the C++ types round. The trace callback and the observer are an event
  log. The value that \<open>random_->RandUint64()\<close> reads from the system is an argument of the
  operations that draw it, at most once each. \<open>None\<close> is the undefined division by zero.
  Members that the class declares and never reads are left out.
\<close>

section \<open>Constants\<close>

text \<open>\<open>float\<close> literals are the nearest 24-bit values.\<close>

definition kPacingGain :: "dyadic list" where
  "kPacingGain = [(9311355, 23), (15099494, 24), (1, 0), (1, 0), (1, 0), (1, 0), (1, 0), (1, 0)]"

definition kGainCycleLength :: nat where "kGainCycleLength = length kPacingGain"
definition kBandwidthWindowSize :: u64 where "kBandwidthWindowSize = word_of_nat (kGainCycleLength + 2)"
definition kDefaultHighGain :: dyadic where "kDefaultHighGain = (2, 0)"
definition kStartupGrowthTarget :: dyadic where "kStartupGrowthTarget = (5, 2)"
definition kRoundTripsWithoutGrowthBeforeExitingStartup :: u64 where
  "kRoundTripsWithoutGrowthBeforeExitingStartup = 3"
definition kSimilarMinRttThreshold :: dyadic where "kSimilarMinRttThreshold = (9, 3)"
definition kInitialCongestionWindowPackets :: u64 where "kInitialCongestionWindowPackets = 10"
definition kDefaultSegmentSize :: u64 where "kDefaultSegmentSize = 1000"
definition kMinRttExpiry :: quic_delta where "kMinRttExpiry = delta_FromSeconds 10"
definition kTolerableDelayFactor :: dyadic where "kTolerableDelayFactor = (10066330, 23)"
definition kSmoothRttNum :: int where "kSmoothRttNum = 95"
definition kSmoothRttDen :: int where "kSmoothRttDen = 100"
definition cc_none :: nat where "cc_none = 0"
definition cc_delay :: nat where "cc_delay = 2"
definition kDecreasePacingGain :: dyadic where "kDecreasePacingGain = (3, 2)"

section \<open>State\<close>

datatype bbr_mode = ST_START | ST_DRAIN | ST_INCREASE | ST_DECREASE

datatype bbr_event = TraceState u64 string | OnBandwidthUpdate

record per_packet =
  pp_sent_ts :: quic_time
  pp_bytes :: u64

record bbr_sender =
  b_min_bw :: bandwidth
  b_has_observer :: bool
  b_has_trace :: bool
  b_mode :: bbr_mode
  b_last_sent_packet :: u64
  b_last_ack_seq :: u64
  b_current_round_trip_end :: u64
  b_round_trip_count :: u64
  b_last_backoff_count :: u64
  b_seq_at_backoff :: u64
  b_congestion_backoff_flag :: bool
  b_base_line_rtt :: quic_delta
  b_base_line_rtt_timestamp :: quic_time
  b_sent_packets_map :: "per_packet packet_map"
  b_min_rtt :: quic_delta
  b_s_rtt :: quic_delta
  b_min_rtt_timestamp :: quic_time
  b_min_rtt_in_decrease :: quic_delta
  b_min_rtt_timestamp_in_decrease :: quic_time
  b_min_rtt_record :: quic_delta
  b_exit_probe_rtt_at :: quic_time
  b_max_bw_in_increase :: bandwidth
  b_pacing_rate :: bandwidth
  b_reference_rate :: bandwidth
  b_max_bandwidth :: "bandwidth windowed_filter"
  b_pacing_gain :: dyadic
  b_high_gain :: dyadic
  b_drain_gain :: dyadic
  b_num_startup_rtts :: u64
  b_is_at_full_bandwidth :: bool
  b_cycle_current_offset :: nat
  b_last_cycle_start :: quic_time
  b_rounds_without_bandwidth_gain :: u64
  b_bandwidth_at_last_round :: bandwidth
  b_bytes_in_flight :: u64
  b_bdp :: u64
  b_initial_congestion_window :: u64
  b_congestion_recv_seq :: u64
  b_congestion_recv_cut_seq :: u64
  b_min_rtt_expired :: bool
  b_sampler :: my_sampler
  b_events :: "bbr_event list"

definition EnterStartUpMode :: "bbr_sender \<Rightarrow> bbr_sender" where
  "EnterStartUpMode s = s\<lparr>b_mode := ST_START, b_pacing_gain := b_high_gain s\<rparr>"

definition MyBbrSenderV5 :: "u64 \<Rightarrow> bool \<Rightarrow> bool \<Rightarrow> bbr_sender" where
  "MyBbrSenderV5 min_bps has_observer has_trace = EnterStartUpMode
     \<lparr>b_min_bw = bw_FromBitsPerSecond (to_i64 min_bps), b_has_observer = has_observer, b_has_trace = has_trace,
      b_mode = ST_START, b_last_sent_packet = 0, b_last_ack_seq = 0, b_current_round_trip_end = 0,
      b_round_trip_count = 0, b_last_backoff_count = 0, b_seq_at_backoff = 0, b_congestion_backoff_flag = False,
      b_base_line_rtt = kQuicInfiniteTimeUs, b_base_line_rtt_timestamp = 0, b_sent_packets_map = [],
      b_min_rtt = 0, b_s_rtt = 0, b_min_rtt_timestamp = 0, b_min_rtt_in_decrease = kQuicInfiniteTimeUs,
      b_min_rtt_timestamp_in_decrease = 0, b_min_rtt_record = 0, b_exit_probe_rtt_at = 0,
      b_max_bw_in_increase = 0, b_pacing_rate = 0, b_reference_rate = 0,
      b_max_bandwidth = WindowedFilter kBandwidthWindowSize 0 0,
      b_pacing_gain = (1, 0), b_high_gain = kDefaultHighGain, b_drain_gain = (1, 1),
      b_num_startup_rtts = kRoundTripsWithoutGrowthBeforeExitingStartup, b_is_at_full_bandwidth = False,
      b_cycle_current_offset = 0, b_last_cycle_start = 0, b_rounds_without_bandwidth_gain = 0,
      b_bandwidth_at_last_round = 0, b_bytes_in_flight = 0, b_bdp = 0,
      b_initial_congestion_window = kInitialCongestionWindowPackets * kDefaultSegmentSize,
      b_congestion_recv_seq = 0, b_congestion_recv_cut_seq = 0, b_min_rtt_expired = False,
      b_sampler = MySampler, b_events = []\<rparr>"

section \<open>Queries\<close>

definition BandwidthEstimate :: "bbr_sender \<Rightarrow> bandwidth" where
  "BandwidthEstimate s = GetBest (b_max_bandwidth s)"

definition PaceRate :: "bbr_sender \<Rightarrow> bandwidth" where
  "PaceRate s = (if b_pacing_rate s = 0 then bw_scale (b_high_gain s) (b_min_bw s) else b_pacing_rate s)"

definition GetReferenceRate :: "bbr_sender \<Rightarrow> bandwidth" where
  "GetReferenceRate s =
     (if b_pacing_rate s = 0 \<or> b_reference_rate s = 0 then b_min_bw s else b_reference_rate s)"

definition ShouldSendProbePacket :: "bbr_sender \<Rightarrow> bool" where
  "ShouldSendProbePacket s = (let ret = False; ret = (if dyadic_less (1, 0) (b_pacing_gain s) then True else ret); ret = True in ret)"

definition GetMinRtt :: "bbr_sender \<Rightarrow> quic_delta" where
  "GetMinRtt s = (if b_min_rtt s \<noteq> 0 then b_min_rtt s else delta_FromMilliseconds 200)"

definition gain_bytes :: "dyadic \<Rightarrow> u64 \<Rightarrow> u64" where
  "gain_bytes gain bytes = to_u64 (dyadic_trunc (float_mul gain (float_of_int (uint bytes))))"

definition GetTargetCongestionWindow :: "dyadic \<Rightarrow> bbr_sender \<Rightarrow> u64" where
  "GetTargetCongestionWindow gain s =
     (let bdp = bw_ToBytesPerPeriod (BandwidthEstimate s) (GetMinRtt s);
          congestion_window = gain_bytes gain bdp
      in if congestion_window = 0 then gain_bytes gain (b_initial_congestion_window s) else congestion_window)"

definition GetTargetInflightInDecrease :: "dyadic \<Rightarrow> bbr_sender \<Rightarrow> u64" where
  "GetTargetInflightInDecrease gain s =
     (let bdp = bw_ToBytesPerPeriod (BandwidthEstimate s) (b_min_rtt_record s);
          congestion_window = gain_bytes gain bdp
      in if congestion_window = 0 then gain_bytes gain (b_initial_congestion_window s) else congestion_window)"

definition GetStateString :: "bbr_sender \<Rightarrow> string" where
  "GetStateString s =
     (case b_mode s of ST_START \<Rightarrow> ''start'' | ST_DRAIN \<Rightarrow> ''drain''
      | ST_INCREASE \<Rightarrow> ''increase'' | ST_DECREASE \<Rightarrow> ''decrease'')"

section \<open>Steps of the handlers\<close>

definition AddPacketInfo :: "quic_time \<Rightarrow> u64 \<Rightarrow> u64 \<Rightarrow> bbr_sender \<Rightarrow> bbr_sender" where
  "AddPacketInfo now packet_number payload s =
     s\<lparr>b_sent_packets_map := pm_insert packet_number \<lparr>pp_sent_ts = now, pp_bytes = payload\<rparr> (b_sent_packets_map s)\<rparr>"

definition bbr_OnPacketSent :: "quic_time \<Rightarrow> u64 \<Rightarrow> u64 \<Rightarrow> bbr_sender \<Rightarrow> bbr_sender" where
  "bbr_OnPacketSent event_time packet_number bytes s =
     (if packet_number \<le> b_last_sent_packet s then s
      else
        let s1 = s\<lparr>b_last_sent_packet := packet_number\<rparr>;
            s2 = s1\<lparr>b_sampler := smp_OnPacketSent event_time packet_number bytes (b_bytes_in_flight s1) (b_sampler s1)\<rparr>;
            s3 = s2\<lparr>b_bytes_in_flight := b_bytes_in_flight s2 + bytes\<rparr>
        in AddPacketInfo event_time packet_number bytes s3)"

definition CheckIfFullBandwidthReached :: "bbr_sender \<Rightarrow> bbr_sender" where
  "CheckIfFullBandwidthReached s =
     (let target = bw_scale kStartupGrowthTarget (b_bandwidth_at_last_round s) in
      if BandwidthEstimate s \<ge> target
      then s\<lparr>b_bandwidth_at_last_round := BandwidthEstimate s, b_rounds_without_bandwidth_gain := 0\<rparr>
      else
        let s1 = s\<lparr>b_rounds_without_bandwidth_gain := b_rounds_without_bandwidth_gain s + 1\<rparr>
        in if b_rounds_without_bandwidth_gain s1 \<ge> b_num_startup_rtts s1
           then s1\<lparr>b_is_at_full_bandwidth := True\<rparr> else s1)"

definition CheckIfCongestion :: "u64 \<Rightarrow> bbr_sender \<Rightarrow> nat \<times> bbr_sender" where
  "CheckIfCongestion packet_number s =
     (let s1 = (if packet_number > b_congestion_recv_seq s + 1 \<and> packet_number > b_congestion_recv_cut_seq s
                then s\<lparr>b_congestion_recv_cut_seq := b_last_sent_packet s\<rparr> else s);
          s2 = (if packet_number \<ge> b_congestion_recv_seq s1 + 1
                then s1\<lparr>b_congestion_recv_seq := packet_number\<rparr> else s1);
          congestion_reason =
            (if b_base_line_rtt s2 \<noteq> kQuicInfiniteTimeUs \<and>
                b_s_rtt s2 > delta_scale kTolerableDelayFactor (b_base_line_rtt s2) \<and> b_mode s2 = ST_INCREASE
             then cc_delay else cc_none)
      in (congestion_reason, s2))"

text \<open>The offset is drawn from 0 and 2 to 7.\<close>

definition EnterIncreaseMode :: "quic_time \<Rightarrow> u64 \<Rightarrow> bbr_sender \<Rightarrow> bbr_sender" where
  "EnterIncreaseMode now rand s =
     (let offset = unat (rand mod word_of_nat (kGainCycleLength - 1));
          offset = (if offset \<ge> 1 then offset + 1 else offset)
      in s\<lparr>b_mode := ST_INCREASE, b_cycle_current_offset := offset, b_last_cycle_start := now,
           b_pacing_gain := kPacingGain ! offset\<rparr>)"

definition MaybeExitStartupOrDrain :: "quic_time \<Rightarrow> u64 \<Rightarrow> bbr_sender \<Rightarrow> bbr_sender" where
  "MaybeExitStartupOrDrain now rand s =
     (let s1 = (if b_mode s = ST_START \<and> b_is_at_full_bandwidth s
                then s\<lparr>b_mode := ST_DRAIN, b_pacing_gain := b_drain_gain s\<rparr> else s)
      in if b_mode s1 = ST_DRAIN \<and> b_bytes_in_flight s1 \<le> GetTargetCongestionWindow (1, 0) s1
         then EnterIncreaseMode now rand s1 else s1)"

definition EnterDecrease :: "bool \<Rightarrow> u64 \<Rightarrow> bbr_sender \<Rightarrow> bbr_sender" where
  "EnterDecrease min_rtt_expired round s =
     (let s1 = s\<lparr>b_seq_at_backoff := b_last_sent_packet s, b_s_rtt := 0, b_base_line_rtt := kQuicInfiniteTimeUs,
                 b_mode := ST_DECREASE, b_min_rtt_record := b_min_rtt s, b_exit_probe_rtt_at := 0,
                 b_max_bw_in_increase := 0, b_min_rtt_in_decrease := kQuicInfiniteTimeUs,
                 b_pacing_gain := kDecreasePacingGain\<rparr>
      in s1\<lparr>b_bdp := GetTargetCongestionWindow (1, 0) s1, b_min_rtt_expired := min_rtt_expired,
            b_last_backoff_count := round\<rparr>)"

definition ExitDecrease :: "quic_time \<Rightarrow> u64 \<Rightarrow> bbr_sender \<Rightarrow> bbr_sender" where
  "ExitDecrease now rand s =
     (let s1 = (if b_min_rtt_expired s then
                  (if b_min_rtt_in_decrease s = kQuicInfiniteTimeUs
                   then s\<lparr>b_min_rtt := b_min_rtt_record s, b_min_rtt_timestamp := now, b_min_rtt_expired := False\<rparr>
                   else s\<lparr>b_min_rtt := b_min_rtt_in_decrease s,
                          b_min_rtt_timestamp := b_min_rtt_timestamp_in_decrease s, b_min_rtt_expired := False\<rparr>)
                else s)
      in EnterIncreaseMode now rand (s1\<lparr>b_congestion_backoff_flag := False\<rparr>))"

definition MaybeEnterOrExitDecrease ::
  "quic_time \<Rightarrow> bool \<Rightarrow> nat \<Rightarrow> u64 \<Rightarrow> u64 \<Rightarrow> bbr_sender \<Rightarrow> bbr_sender" where
  "MaybeEnterOrExitDecrease now min_rtt_expired congestion_reason round rand s =
     (let s1 = (if b_mode s \<noteq> ST_DECREASE \<and> (min_rtt_expired \<or> congestion_reason \<noteq> 0)
                then EnterDecrease min_rtt_expired round s else s)
      in if b_mode s1 = ST_DECREASE then
           let s2 = (if b_exit_probe_rtt_at s1 = 0 then s1\<lparr>b_exit_probe_rtt_at := now\<rparr> else s1);
               excess_drained = (b_bytes_in_flight s2 \<le> b_bdp s2)
           in if (b_min_rtt_expired s2 \<and> now - b_exit_probe_rtt_at s2 > 4 * b_min_rtt_record s2) \<or> excess_drained
              then ExitDecrease now rand s2 else s2
         else s1)"

definition UpdateGainCyclePhase :: "quic_time \<Rightarrow> bbr_sender \<Rightarrow> bbr_sender" where
  "UpdateGainCyclePhase now s =
     (if now - b_last_cycle_start s > GetMinRtt s then
        let offset = (b_cycle_current_offset s + 1) mod kGainCycleLength
        in s\<lparr>b_cycle_current_offset := offset, b_last_cycle_start := now, b_pacing_gain := kPacingGain ! offset\<rparr>
      else s)"

definition UpdateMaxBw :: "bbr_sender \<Rightarrow> bbr_sender" where
  "UpdateMaxBw s =
     (if BandwidthEstimate s > b_max_bw_in_increase s then s\<lparr>b_max_bw_in_increase := BandwidthEstimate s\<rparr> else s)"

definition dyadic_is_one :: "dyadic \<Rightarrow> bool" where
  "dyadic_is_one x \<longleftrightarrow> fst x = 2 ^ snd x"

definition report_rate :: "bandwidth \<Rightarrow> bbr_sender \<Rightarrow> bbr_sender" where
  "report_rate last_rate s =
     (if b_pacing_rate s \<noteq> last_rate then
        s\<lparr>b_events := b_events s
            @ (if b_has_trace s then [TraceState (to_u64 (bw_ToKBitsPerSecond (b_pacing_rate s) * 1000)) (GetStateString s)] else [])
            @ (if b_has_observer s then [OnBandwidthUpdate] else [])\<rparr>
      else s)"

definition CalculatePacingRate :: "bbr_sender \<Rightarrow> bbr_sender option" where
  "CalculatePacingRate s =
     (let bw = BandwidthEstimate s; last_rate = b_pacing_rate s;
          s1 = s\<lparr>b_reference_rate := bw, b_pacing_rate := bw_scale (b_pacing_gain s) bw\<rparr>
      in case (if b_pacing_rate s1 = 0
               then bw_FromBytesAndTimeDelta (b_initial_congestion_window s1) (GetMinRtt s1)
               else Some (b_pacing_rate s1)) of
           None \<Rightarrow> None
         | Some rate \<Rightarrow>
             let s2 = s1\<lparr>b_pacing_rate := rate\<rparr>;
                 s3 = (if b_mode s2 = ST_INCREASE \<and> dyadic_is_one (b_pacing_gain s2) \<and> b_pacing_rate s2 < b_min_bw s2
                       then s2\<lparr>b_pacing_rate := b_min_bw s2, b_reference_rate := b_min_bw s2\<rparr> else s2)
             in Some (report_rate last_rate s3))"

definition UpdateRoundTripCounter :: "u64 \<Rightarrow> bbr_sender \<Rightarrow> bool \<times> bbr_sender" where
  "UpdateRoundTripCounter last_acked_packet s =
     (if last_acked_packet > b_current_round_trip_end s
      then (True, s\<lparr>b_round_trip_count := b_round_trip_count s + 1, b_current_round_trip_end := b_last_sent_packet s\<rparr>)
      else (False, s))"

definition UpdateMinRtt :: "quic_time \<Rightarrow> quic_delta \<Rightarrow> bbr_sender \<Rightarrow> bbr_sender" where
  "UpdateMinRtt now rtt s =
     (if b_min_rtt s = 0 then s\<lparr>b_min_rtt := rtt, b_min_rtt_timestamp := now\<rparr>
      else
        let s1 = (if rtt < b_min_rtt s then s\<lparr>b_min_rtt := rtt, b_min_rtt_timestamp := now\<rparr> else s)
        in if rtt > b_min_rtt s1 \<and> rtt \<le> delta_scale kSimilarMinRttThreshold (b_min_rtt s1)
           then s1\<lparr>b_min_rtt_timestamp := now\<rparr> else s1)"

definition UpdateSmoothRtt :: "quic_time \<Rightarrow> quic_delta \<Rightarrow> bbr_sender \<Rightarrow> bbr_sender" where
  "UpdateSmoothRtt now rtt s =
     (let s1 = (if rtt < b_base_line_rtt s
                then s\<lparr>b_base_line_rtt := rtt, b_s_rtt := rtt, b_base_line_rtt_timestamp := now\<rparr> else s)
      in if b_s_rtt s1 = 0 then s1\<lparr>b_s_rtt := rtt\<rparr>
         else
           let old_ms = delta_ToMilliseconds (b_s_rtt s1);
               new_ms = delta_ToMilliseconds rtt;
               smooth_ms = trunc_div ((kSmoothRttDen - kSmoothRttNum) * old_ms + kSmoothRttNum * new_ms) kSmoothRttDen
           in s1\<lparr>b_s_rtt := delta_FromMilliseconds smooth_ms\<rparr>)"

text \<open>The loop that drops every packet up to the acknowledged one from the front of the map.\<close>

fun drop_acked :: "u64 \<Rightarrow> per_packet packet_map \<Rightarrow> u64 \<Rightarrow> per_packet packet_map \<times> u64" where
  "drop_acked packet_number [] in_flight = ([], in_flight)"
| "drop_acked packet_number ((k, p) # m) in_flight =
     (if k \<le> packet_number then drop_acked packet_number m (in_flight - pp_bytes p)
      else ((k, p) # m, in_flight))"

definition UpdateRttAndInflight :: "quic_time \<Rightarrow> u64 \<Rightarrow> bbr_sender \<Rightarrow> bbr_sender" where
  "UpdateRttAndInflight now packet_number s =
     (let s1 = (case pm_find packet_number (b_sent_packets_map s) of
                  None \<Rightarrow> s
                | Some packet \<Rightarrow>
                    let rtt = now - pp_sent_ts packet;
                        t1 = UpdateMinRtt now rtt s;
                        t2 = (if b_mode t1 = ST_DECREASE \<and> rtt \<le> b_min_rtt_in_decrease t1
                              then t1\<lparr>b_min_rtt_in_decrease := rtt, b_min_rtt_timestamp_in_decrease := now\<rparr> else t1)
                    in if b_mode t2 = ST_INCREASE \<and> packet_number > b_seq_at_backoff t2
                       then UpdateSmoothRtt now rtt t2 else t2)
      in case drop_acked packet_number (b_sent_packets_map s1) (b_bytes_in_flight s1) of
           (m, in_flight) \<Rightarrow> s1\<lparr>b_sent_packets_map := m, b_bytes_in_flight := in_flight\<rparr>)"

text \<open>The packets skipped by an acknowledgement are lost to the sampler.\<close>

function lose_range :: "u64 \<Rightarrow> u64 \<Rightarrow> my_sampler \<Rightarrow> my_sampler" where
  "lose_range i packet_number smp =
     (if i < packet_number then lose_range (i + 1) packet_number (smp_OnPacketLost i smp) else smp)"
  by auto
termination
proof (relation "measure (\<lambda>(i, pn, _). unat pn - unat i)", simp)
  fix i pn :: u64 and smp
  assume "i < pn"
  then have "unat (i + 1) = unat i + 1" using unat_u64_less [of pn] by (simp add: word_less_nat_alt unat_word_ariths)
  then show "((i + 1, pn, smp_OnPacketLost i smp), i, pn, smp) \<in> measure (\<lambda>(i, pn, _). unat pn - unat i)"
    using \<open>i < pn\<close> by (simp add: word_less_nat_alt)
qed

declare lose_range.simps [simp del]

text \<open>Everything OnAck does after the sampler, once the first round trip is over.\<close>

definition after_sample :: "quic_time \<Rightarrow> u64 \<Rightarrow> u64 \<Rightarrow> bool \<Rightarrow> bandwidth \<Rightarrow> u64 \<Rightarrow> bbr_sender \<Rightarrow> bbr_sender option" where
  "after_sample event_time packet_number current_round is_round_update bw rand s =
     (let min_rtt_expired = (event_time > b_min_rtt_timestamp s + kMinRttExpiry);
          (congestion_reason, s1) = (if b_mode s = ST_INCREASE then CheckIfCongestion packet_number s else (cc_none, s));
          s2 = MaybeEnterOrExitDecrease event_time min_rtt_expired congestion_reason current_round rand s1;
          s3 = (if is_round_update then
                  let t = s2\<lparr>b_max_bandwidth := wf_Update MaxFilter bw current_round (b_max_bandwidth s2)\<rparr>
                  in if b_mode t = ST_INCREASE then UpdateMaxBw t else t
                else s2);
          s4 = (if is_round_update \<and> \<not> b_is_at_full_bandwidth s3 then CheckIfFullBandwidthReached s3 else s3);
          s5 = MaybeExitStartupOrDrain event_time rand s4;
          s6 = (if b_mode s5 = ST_INCREASE then UpdateGainCyclePhase event_time s5 else s5)
      in CalculatePacingRate s6)"

definition bbr_OnAck :: "quic_time \<Rightarrow> u64 \<Rightarrow> u64 \<Rightarrow> bbr_sender \<Rightarrow> bbr_sender option" where
  "bbr_OnAck event_time packet_number rand s =
     (if packet_number \<le> b_last_ack_seq s then Some s
      else
        let s1 = s\<lparr>b_sampler := lose_range (b_last_ack_seq s + 1) packet_number (b_sampler s)\<rparr>;
            s2 = UpdateRttAndInflight event_time packet_number (s1\<lparr>b_last_ack_seq := packet_number\<rparr>);
            current_round = b_round_trip_count s2;
            (is_round_update, s3) = UpdateRoundTripCounter (b_last_ack_seq s2) s2
        in case smp_OnPacketAcknowledged event_time packet_number is_round_update (b_sampler s3) of
             None \<Rightarrow> None
           | Some (bw, smp) \<Rightarrow>
               let s4 = s3\<lparr>b_sampler := smp\<rparr>
               in if current_round = 0 then CalculatePacingRate s4
                  else after_sample event_time packet_number current_round is_round_update bw rand s4)"

end
