(* ===== verification/Bbr_Invariants.thy ===== *)
theory Bbr_Invariants
  imports Bbr_Sender_V5
begin

text \<open>
  Invariants of the delay-based BBR sender: the accounting of bytes in flight against the map of
  sent packets, the agreement of the pacing gain with the mode, the order of the bandwidth
  estimates, the state of the sampler, and the range of the round-trip times, which makes every
  division defined. They hold in every state that the two entry points, OnPacketSent and OnAck,
  can reach.
\<close>

section \<open>The parts of the invariant\<close>

definition flight_inv :: "bbr_sender \<Rightarrow> bool" where
  "flight_inv s \<longleftrightarrow>
     pm_inv (b_sent_packets_map s) \<and>
     (\<forall>k\<in>fst ` set (b_sent_packets_map s). b_last_ack_seq s < k \<and> k \<le> b_last_sent_packet s) \<and>
     b_bytes_in_flight s = pm_sum pp_bytes (b_sent_packets_map s) \<and>
     (\<forall>(k, p)\<in>set (b_sent_packets_map s). time_ok (pp_sent_ts p)) \<and>
     b_last_ack_seq s \<le> b_last_sent_packet s \<and>
     b_current_round_trip_end s \<le> b_last_sent_packet s"

definition gain_inv :: "bbr_sender \<Rightarrow> bool" where
  "gain_inv s \<longleftrightarrow>
     b_high_gain s = kDefaultHighGain \<and> b_drain_gain s = (1, 1) \<and> b_cycle_current_offset s < kGainCycleLength \<and>
     b_pacing_gain s = (case b_mode s of ST_START \<Rightarrow> b_high_gain s | ST_DRAIN \<Rightarrow> b_drain_gain s
       | ST_INCREASE \<Rightarrow> kPacingGain ! b_cycle_current_offset s | ST_DECREASE \<Rightarrow> kDecreasePacingGain)"

definition filter_inv :: "bbr_sender \<Rightarrow> bool" where
  "filter_inv s \<longleftrightarrow>
     (let f = b_max_bandwidth s in
      GetSecondBest f \<le> GetBest f \<and> GetThirdBest f \<le> GetSecondBest f \<and> (\<forall>(x, t)\<in>wf_samples f. 0 \<le> x))"

definition delta_ok :: "quic_delta \<Rightarrow> bool" where
  "delta_ok d \<longleftrightarrow> - (2 ^ 63) < d \<and> d < 2 ^ 63"

definition rtt_inv :: "bbr_sender \<Rightarrow> bool" where
  "rtt_inv s \<longleftrightarrow> delta_ok (b_min_rtt s) \<and> delta_ok (b_min_rtt_record s) \<and> delta_ok (b_min_rtt_in_decrease s)"

definition smp_inv :: "bbr_sender \<Rightarrow> bool" where
  "smp_inv s \<longleftrightarrow> sampler_inv (b_sampler s) \<and>
     (\<forall>k\<in>fst ` set (packet_infos (b_sampler s)). b_last_ack_seq s < k \<and> k \<le> b_last_sent_packet s)"

definition bbr_inv :: "bbr_sender \<Rightarrow> bool" where
  "bbr_inv s \<longleftrightarrow> flight_inv s \<and> gain_inv s \<and> filter_inv s \<and> rtt_inv s \<and> smp_inv s"

lemma bbr_inv_init: "bbr_inv (MyBbrSenderV5 min_bps obs trace)"
  by (simp add: bbr_inv_def flight_inv_def gain_inv_def filter_inv_def rtt_inv_def smp_inv_def MyBbrSenderV5_def
      EnterStartUpMode_def WindowedFilter_def GetBest_def GetSecondBest_def GetThirdBest_def wf_samples_def
      delta_ok_def kQuicInfiniteTimeUs_def sampler_inv_init MySampler_def kGainCycleLength_def kPacingGain_def)
    (simp add: sampler_inv_def time_ok_def)

section \<open>Sending\<close>

lemma bbr_inv_OnPacketSent:
  assumes inv: "bbr_inv s" and t: "time_ok t" and b: "unat (total_bytes_sent (b_sampler s)) + unat bytes < 2 ^ 64"
  shows "bbr_inv (bbr_OnPacketSent t pn bytes s)"
proof (cases "pn \<le> b_last_sent_packet s")
  case True
  then show ?thesis using inv by (simp add: bbr_OnPacketSent_def)
next
  case False
  let ?s = "bbr_OnPacketSent t pn bytes s" and ?p = "\<lparr>pp_sent_ts = t, pp_bytes = bytes\<rparr>"
  have new: "b_last_sent_packet s < pn" "b_last_ack_seq s < pn" "b_current_round_trip_end s \<le> pn"
    using False inv by (auto simp: bbr_inv_def flight_inv_def)
  have keys: "pn \<notin> fst ` set (b_sent_packets_map s)" using inv False by (auto simp: bbr_inv_def flight_inv_def)
  have eff: "b_sent_packets_map ?s = pm_insert pn ?p (b_sent_packets_map s)" "b_last_sent_packet ?s = pn"
    "b_last_ack_seq ?s = b_last_ack_seq s" "b_current_round_trip_end ?s = b_current_round_trip_end s"
    "b_bytes_in_flight ?s = b_bytes_in_flight s + bytes"
    "b_sampler ?s = smp_OnPacketSent t pn bytes (b_bytes_in_flight s) (b_sampler s)"
    using False by (simp_all add: bbr_OnPacketSent_def AddPacketInfo_def)
  have fl: "flight_inv s" using inv by (simp add: bbr_inv_def)
  have "flight_inv ?s"
    unfolding flight_inv_def eff pm_keys_insert
  proof (intro conjI)
    show "pm_inv (pm_insert pn ?p (b_sent_packets_map s))" "b_last_ack_seq s \<le> pn" "b_current_round_trip_end s \<le> pn"
      using fl new by (simp_all add: flight_inv_def)
    show "\<forall>k\<in>insert pn (fst ` set (b_sent_packets_map s)). b_last_ack_seq s < k \<and> k \<le> pn"
      using fl new by (auto simp: flight_inv_def)
    show "b_bytes_in_flight s + bytes = pm_sum pp_bytes (pm_insert pn ?p (b_sent_packets_map s))"
      using fl pm_sum_insert [OF keys, of pp_bytes ?p] by (simp add: flight_inv_def)
    show "\<forall>(k, p)\<in>set (pm_insert pn ?p (b_sent_packets_map s)). time_ok (pp_sent_ts p)"
      using fl t pm_insert_values [of _ _ pn ?p "b_sent_packets_map s"] by (fastforce simp: flight_inv_def)
  qed
  moreover have "smp_inv ?s"
  proof -
    have "fst ` set (packet_infos (b_sampler ?s)) = insert pn (fst ` set (packet_infos (b_sampler s)))"
      by (simp add: eff smp_OnPacketSent_def Let_def)
    then show ?thesis using inv new sampler_inv_sent [OF _ t b]
      unfolding bbr_inv_def smp_inv_def eff by auto
  qed
  moreover have "gain_inv ?s" "filter_inv ?s" "rtt_inv ?s"
    using inv False
    by (simp_all add: bbr_OnPacketSent_def AddPacketInfo_def bbr_inv_def gain_inv_def filter_inv_def rtt_inv_def Let_def cong: bbr_mode.case_cong)
  ultimately show ?thesis by (simp add: bbr_inv_def)
qed

section \<open>The loops of an acknowledgement\<close>

lemma drop_acked_eq:
  "pm_inv m \<Longrightarrow> f = pm_sum pp_bytes m \<Longrightarrow>
   drop_acked pn m f = (filter (\<lambda>(k, _). pn < k) m, pm_sum pp_bytes (filter (\<lambda>(k, _). pn < k) m))"
proof (induction pn m f rule: drop_acked.induct)
  case (2 pn k p m f)
  have "filter (\<lambda>(k, _). pn < k) m = m" if "pn < k"
    using that "2.prems" by (auto intro!: filter_True dest: order.strict_trans)
  then show ?case using 2 by (auto simp: not_le)
qed simp

lemma pm_inv_filter: "pm_inv m \<Longrightarrow> pm_inv (filter P m)"
  by (simp add: pm_inv_def sorted_wrt_map sorted_wrt_filter)

lemma pm_erase_filter: "pm_inv m \<Longrightarrow> pm_erase k m = filter (\<lambda>(k', _). k' \<noteq> k) m"
proof (induction k m rule: pm_erase.induct)
  case (2 k k' v m)
  have "filter (\<lambda>(x, _). x \<noteq> k') m = m" using "2.prems" by (auto intro!: filter_True)
  then show ?case using 2 by auto
qed simp

lemma lose_range_eq:
  "pm_inv (packet_infos smp) \<Longrightarrow>
   lose_range i pn smp = smp\<lparr>packet_infos := filter (\<lambda>(k, _). \<not> (i \<le> k \<and> k < pn)) (packet_infos smp)\<rparr>"
proof (induction i pn smp rule: lose_range.induct)
  case (1 i pn smp)
  show ?case
  proof (cases "i < pn")
    case True
    then have u: "unat (i + 1) = unat i + 1" using unat_u64_less [of pn] by (simp add: word_less_nat_alt unat_word_ariths)
    have in_range: "(k \<noteq> i \<and> \<not> (i + 1 \<le> k \<and> k < pn)) \<longleftrightarrow> \<not> (i \<le> k \<and> k < pn)" for k
      using True u by (auto simp: word_le_nat_alt word_less_nat_alt word_unat_eq_iff)
    have "lose_range i pn smp = lose_range (i + 1) pn (smp_OnPacketLost i smp)"
      using True by (simp add: lose_range.simps [of i])
    also have "\<dots> = (smp_OnPacketLost i smp)\<lparr>packet_infos :=
        filter (\<lambda>(k, _). \<not> (i + 1 \<le> k \<and> k < pn)) (packet_infos (smp_OnPacketLost i smp))\<rparr>"
      using 1 True by (simp add: smp_OnPacketLost_def PacketInfoRemove_def)
    also have "\<dots> = smp\<lparr>packet_infos := filter (\<lambda>(k, _). k \<noteq> i \<and> \<not> (i + 1 \<le> k \<and> k < pn)) (packet_infos smp)\<rparr>"
    proof -
      have "filter (\<lambda>(k, _). \<not> (i + 1 \<le> k \<and> k < pn)) (filter (\<lambda>(k, _). k \<noteq> i) (packet_infos smp)) =
          filter (\<lambda>(k, _). k \<noteq> i \<and> \<not> (i + 1 \<le> k \<and> k < pn)) (packet_infos smp)"
        unfolding filter_filter by (rule filter_cong) auto
      then show ?thesis using "1.prems" by (simp add: smp_OnPacketLost_def PacketInfoRemove_def pm_erase_filter)
    qed
    finally show ?thesis by (simp only: in_range)
  next
    case False
    then have "filter (\<lambda>(k, _). \<not> (i \<le> k \<and> k < pn)) (packet_infos smp) = packet_infos smp"
      by (auto intro!: filter_True)
    then show ?thesis using False by (simp add: lose_range.simps [of i])
  qed
qed

lemma pm_total_filter_le: "pm_total f (filter P m) \<le> pm_total f m"
  by (induction m) auto

lemma sampler_inv_filter: "sampler_inv smp \<Longrightarrow> sampler_inv (smp\<lparr>packet_infos := filter P (packet_infos smp)\<rparr>)"
  using pm_total_filter_le [of "\<lambda>p. unat (ps_size p)" P "packet_infos smp"]
  by (auto simp: sampler_inv_def pm_inv_filter packet_state_ok_def)

lemma sampler_inv_lose_range: "sampler_inv smp \<Longrightarrow> sampler_inv (lose_range i pn smp)"
  using sampler_inv_filter [of smp] by (simp add: lose_range_eq sampler_inv_def)

section \<open>Round-trip times and bytes in flight\<close>

lemma rtt_frames [simp]:
  "b_sent_packets_map (UpdateMinRtt now rtt s) = b_sent_packets_map s"
  "b_bytes_in_flight (UpdateMinRtt now rtt s) = b_bytes_in_flight s"
  "b_sent_packets_map (UpdateSmoothRtt now rtt s) = b_sent_packets_map s"
  "b_bytes_in_flight (UpdateSmoothRtt now rtt s) = b_bytes_in_flight s"
  by (simp_all add: UpdateMinRtt_def UpdateSmoothRtt_def Let_def)

text \<open>The fields that the round-trip-time bookkeeping does not write.\<close>

definition bbr_core :: "bbr_sender \<Rightarrow> (dyadic \<times> dyadic \<times> nat \<times> dyadic \<times> bbr_mode \<times> bandwidth windowed_filter \<times> my_sampler \<times> bandwidth)
    \<times> (u64 \<times> u64 \<times> u64 \<times> u64) \<times> bool \<times> u64 \<times> u64 \<times> u64 \<times> bandwidth" where
  "bbr_core s = ((b_high_gain s, b_drain_gain s, b_cycle_current_offset s, b_pacing_gain s, b_mode s, b_max_bandwidth s,
     b_sampler s, b_min_bw s), (b_last_ack_seq s, b_last_sent_packet s, b_current_round_trip_end s, b_round_trip_count s),
     b_is_at_full_bandwidth s, b_bdp s, b_num_startup_rtts s, b_rounds_without_bandwidth_gain s, b_bandwidth_at_last_round s)"

lemma bbr_core_rtt:
  "bbr_core (UpdateMinRtt now rtt s) = bbr_core s" "bbr_core (UpdateSmoothRtt now rtt s) = bbr_core s"
  "bbr_core (s\<lparr>b_min_rtt_in_decrease := a, b_min_rtt_timestamp_in_decrease := b\<rparr>) = bbr_core s"
  "bbr_core (s\<lparr>b_sent_packets_map := m, b_bytes_in_flight := f\<rparr>) = bbr_core s"
  by (simp_all add: UpdateMinRtt_def UpdateSmoothRtt_def bbr_core_def Let_def)

lemma UpdateRttAndInflight_core: "bbr_core (UpdateRttAndInflight now pn s) = bbr_core s"
  by (simp add: UpdateRttAndInflight_def Let_def bbr_core_rtt split: option.splits prod.splits)

lemma bbr_core_parts:
  assumes "bbr_core s = bbr_core s'"
  shows "gain_inv s = gain_inv s'" "filter_inv s = filter_inv s'" "smp_inv s = smp_inv s'"
    "b_last_ack_seq s = b_last_ack_seq s'" "b_last_sent_packet s = b_last_sent_packet s'"
    "b_current_round_trip_end s = b_current_round_trip_end s'" "b_sampler s = b_sampler s'" "b_mode s = b_mode s'"
    "b_round_trip_count s = b_round_trip_count s'" "b_is_at_full_bandwidth s = b_is_at_full_bandwidth s'"
    "b_min_bw s = b_min_bw s'" "b_max_bandwidth s = b_max_bandwidth s'" "b_bdp s = b_bdp s'"
    "b_num_startup_rtts s = b_num_startup_rtts s'" "b_rounds_without_bandwidth_gain s = b_rounds_without_bandwidth_gain s'"
    "b_bandwidth_at_last_round s = b_bandwidth_at_last_round s'"
  using assms by (simp_all add: bbr_core_def gain_inv_def filter_inv_def smp_inv_def cong: bbr_mode.case_cong)

lemmas UpdateRttAndInflight_parts = bbr_core_parts [OF UpdateRttAndInflight_core]

lemma UpdateRttAndInflight_map:
  assumes "pm_inv (b_sent_packets_map s)" "b_bytes_in_flight s = pm_sum pp_bytes (b_sent_packets_map s)"
  shows "b_sent_packets_map (UpdateRttAndInflight now pn s) = filter (\<lambda>(k, _). pn < k) (b_sent_packets_map s)"
    and "b_bytes_in_flight (UpdateRttAndInflight now pn s) = pm_sum pp_bytes (filter (\<lambda>(k, _). pn < k) (b_sent_packets_map s))"
  using drop_acked_eq [OF assms(1) assms(2), of pn]
  by (auto simp: UpdateRttAndInflight_def Let_def split: option.splits)

lemma UpdateMinRtt_rtt: "delta_ok rtt \<Longrightarrow> rtt_inv s \<Longrightarrow> rtt_inv (UpdateMinRtt now rtt s)"
  by (simp add: UpdateMinRtt_def rtt_inv_def Let_def)

lemma UpdateSmoothRtt_rtt: "rtt_inv (UpdateSmoothRtt now rtt s) = rtt_inv s"
  by (simp add: UpdateSmoothRtt_def rtt_inv_def Let_def)

lemma UpdateRttAndInflight_rtt:
  assumes "rtt_inv s" "time_ok now" "\<forall>(k, p)\<in>set (b_sent_packets_map s). time_ok (pp_sent_ts p)"
  shows "rtt_inv (UpdateRttAndInflight now pn s)"
proof -
  have fin: "rtt_inv (t\<lparr>b_sent_packets_map := m, b_bytes_in_flight := f\<rparr>) = rtt_inv t" for t m f by (simp add: rtt_inv_def)
  show ?thesis
  proof (cases "pm_find pn (b_sent_packets_map s)")
    case None
    then show ?thesis using assms(1) by (simp add: UpdateRttAndInflight_def fin split: prod.splits)
  next
    case (Some p)
    then have "time_ok (pp_sent_ts p)" using assms(3) pm_find_in by fastforce
    then have d: "delta_ok (now - pp_sent_ts p)" using assms(2) by (simp add: delta_ok_def time_ok_def)
    then have "rtt_inv (UpdateMinRtt now (now - pp_sent_ts p) s)" using assms(1) by (rule UpdateMinRtt_rtt)
    then show ?thesis using Some d
      by (simp add: UpdateRttAndInflight_def fin UpdateSmoothRtt_rtt Let_def split: prod.splits) (simp add: rtt_inv_def)
  qed
qed

section \<open>The mode machine\<close>

text \<open>The bookkeeping that mode changes and rate computations leave alone.\<close>

definition bbr_books :: "bbr_sender \<Rightarrow> per_packet packet_map \<times> u64 \<times> u64 \<times> u64 \<times> u64 \<times> u64 \<times> my_sampler \<times> bandwidth" where
  "bbr_books s = (b_sent_packets_map s, b_bytes_in_flight s, b_last_ack_seq s, b_last_sent_packet s,
     b_current_round_trip_end s, b_round_trip_count s, b_sampler s, b_min_bw s)"

lemma bbr_books_parts:
  assumes "bbr_books s = bbr_books s'"
  shows "flight_inv s = flight_inv s'" "smp_inv s = smp_inv s'"
  using assms by (simp_all add: bbr_books_def flight_inv_def smp_inv_def)

lemma books_steps [simp]:
  "bbr_books (EnterIncreaseMode now rnd s) = bbr_books s"
  "bbr_books (EnterDecrease ex r s) = bbr_books s"
  "bbr_books (snd (CheckIfCongestion pn s)) = bbr_books s"
  "bbr_books (UpdateMaxBw s) = bbr_books s"
  "bbr_books (CheckIfFullBandwidthReached s) = bbr_books s"
  "bbr_books (UpdateGainCyclePhase now s) = bbr_books s"
  "bbr_books (report_rate lr s) = bbr_books s"
  "bbr_books (s\<lparr>b_exit_probe_rtt_at := t\<rparr>) = bbr_books s"
  "bbr_books (s\<lparr>b_mode := mo, b_pacing_gain := g\<rparr>) = bbr_books s"
  "bbr_books (s\<lparr>b_max_bandwidth := f\<rparr>) = bbr_books s"
  "bbr_books (s\<lparr>b_reference_rate := bw\<rparr>) = bbr_books s"
  "bbr_books (s\<lparr>b_pacing_rate := x\<rparr>) = bbr_books s"
  by (simp_all add: bbr_books_def EnterIncreaseMode_def EnterDecrease_def CheckIfCongestion_def UpdateMaxBw_def
      CheckIfFullBandwidthReached_def UpdateGainCyclePhase_def report_rate_def Let_def)

lemma books_ExitDecrease [simp]: "bbr_books (ExitDecrease now rnd s) = bbr_books s"
  by (simp add: ExitDecrease_def Let_def) (simp add: bbr_books_def)

lemma books_modes [simp]:
  "bbr_books (MaybeExitStartupOrDrain now rnd s) = bbr_books s"
  "bbr_books (MaybeEnterOrExitDecrease now ex reason r rnd s) = bbr_books s"
  by (simp_all add: MaybeExitStartupOrDrain_def MaybeEnterOrExitDecrease_def Let_def)

text \<open>The parts of the invariant that they do touch.\<close>

definition modes_inv :: "bbr_sender \<Rightarrow> bool" where
  "modes_inv s \<longleftrightarrow> gain_inv s \<and> filter_inv s \<and> rtt_inv s"

lemma bbr_inv_split: "bbr_inv s \<longleftrightarrow> flight_inv s \<and> smp_inv s \<and> modes_inv s"
  by (auto simp: bbr_inv_def modes_inv_def)

lemma gain_offset:
  fixes rnd :: u64
  defines "r \<equiv> unat (rnd mod word_of_nat (kGainCycleLength - 1))"
  shows "(if r \<ge> 1 then r + 1 else r) < kGainCycleLength"
proof -
  have "r < 7" by (simp add: r_def kGainCycleLength_def kPacingGain_def unat_mod)
  then show ?thesis by (simp add: kGainCycleLength_def kPacingGain_def)
qed

lemma EnterIncreaseMode_obtains:
  obtains r where "r < kGainCycleLength" "EnterIncreaseMode now rnd s = s\<lparr>b_mode := ST_INCREASE, b_cycle_current_offset := r,
    b_last_cycle_start := now, b_pacing_gain := kPacingGain ! r\<rparr>"
  using that [OF gain_offset [of rnd]] unfolding EnterIncreaseMode_def Let_def by blast

lemma modes_EnterIncreaseMode: "modes_inv s \<Longrightarrow> modes_inv (EnterIncreaseMode now rnd s)"
  by (rule EnterIncreaseMode_obtains [of now rnd s]) (simp add: modes_inv_def gain_inv_def filter_inv_def rtt_inv_def)

lemma kGainCycleLength_pos [simp]: "0 < kGainCycleLength"
  by (simp add: kGainCycleLength_def kPacingGain_def)

lemma delta_ok_infinite [simp]: "delta_ok kQuicInfiniteTimeUs"
  by (simp add: delta_ok_def kQuicInfiniteTimeUs_def)

lemma modes_EnterDecrease: "modes_inv s \<Longrightarrow> modes_inv (EnterDecrease ex r s)"
  by (simp add: modes_inv_def gain_inv_def filter_inv_def rtt_inv_def EnterDecrease_def Let_def)

lemma modes_ExitDecrease: "modes_inv s \<Longrightarrow> modes_inv (ExitDecrease now rnd s)"
  unfolding ExitDecrease_def Let_def
  by (rule modes_EnterIncreaseMode)
    (auto simp: modes_inv_def gain_inv_def filter_inv_def rtt_inv_def cong: bbr_mode.case_cong)

lemma modes_frames:
  "modes_inv (s\<lparr>b_exit_probe_rtt_at := t\<rparr>) = modes_inv s"
  "modes_inv (snd (CheckIfCongestion pn s)) = modes_inv s"
  "modes_inv (UpdateMaxBw s) = modes_inv s"
  "modes_inv (CheckIfFullBandwidthReached s) = modes_inv s"
  "modes_inv (report_rate lr s) = modes_inv s"
  "modes_inv (s\<lparr>b_reference_rate := bw\<rparr>) = modes_inv s"
  "modes_inv (s\<lparr>b_pacing_rate := x\<rparr>) = modes_inv s"
  by (simp_all add: modes_inv_def gain_inv_def filter_inv_def rtt_inv_def CheckIfCongestion_def UpdateMaxBw_def
      CheckIfFullBandwidthReached_def report_rate_def Let_def cong: bbr_mode.case_cong)

lemma modes_MaybeEnterOrExitDecrease: "modes_inv s \<Longrightarrow> modes_inv (MaybeEnterOrExitDecrease now ex reason r rnd s)"
  unfolding MaybeEnterOrExitDecrease_def Let_def
  by (simp add: modes_frames modes_EnterDecrease modes_ExitDecrease)

lemma modes_drain: "modes_inv s \<Longrightarrow> modes_inv (s\<lparr>b_mode := ST_DRAIN, b_pacing_gain := b_drain_gain s\<rparr>)"
  by (simp add: modes_inv_def gain_inv_def filter_inv_def rtt_inv_def)

lemma modes_MaybeExitStartupOrDrain: "modes_inv s \<Longrightarrow> modes_inv (MaybeExitStartupOrDrain now rnd s)"
  by (simp add: MaybeExitStartupOrDrain_def Let_def modes_EnterIncreaseMode modes_drain)

lemma modes_UpdateGainCyclePhase: "b_mode s = ST_INCREASE \<Longrightarrow> modes_inv s \<Longrightarrow> modes_inv (UpdateGainCyclePhase now s)"
  by (simp add: UpdateGainCyclePhase_def modes_inv_def gain_inv_def filter_inv_def rtt_inv_def Let_def)

lemma filter_update:
  assumes "filter_inv s" "0 \<le> bw"
  shows "filter_inv (s\<lparr>b_max_bandwidth := wf_Update MaxFilter bw t (b_max_bandwidth s)\<rparr>)"
proof -
  let ?f = "b_max_bandwidth s"
  have o: "MaxFilter (fst (estimate0 ?f)) (fst (estimate1 ?f))" "MaxFilter (fst (estimate1 ?f)) (fst (estimate2 ?f))"
    using assms(1) by (simp_all add: filter_inv_def MaxFilter_def GetBest_def GetSecondBest_def GetThirdBest_def Let_def)
  have "\<forall>(x, t)\<in>wf_samples (wf_Update MaxFilter bw t ?f). 0 \<le> x"
    using wf_Update_samples [of MaxFilter bw t ?f] assms by (fastforce simp: filter_inv_def Let_def)
  then show ?thesis using max_filter.update_ordered [OF o, of bw t]
    by (simp add: filter_inv_def MaxFilter_def GetBest_def GetSecondBest_def GetThirdBest_def Let_def)
qed

lemma modes_update: "modes_inv s \<Longrightarrow> 0 \<le> bw \<Longrightarrow> modes_inv (s\<lparr>b_max_bandwidth := wf_Update MaxFilter bw t (b_max_bandwidth s)\<rparr>)"
  using filter_update [of s bw t] by (simp add: modes_inv_def gain_inv_def rtt_inv_def cong: bbr_mode.case_cong)

section \<open>The pacing rate\<close>

lemma to_u64_nonzero:
  assumes "delta_ok d" "d \<noteq> 0"
  shows "to_u64 d \<noteq> 0"
proof (cases "0 < d")
  case True
  then have "uint (to_u64 d) = d" using assms(1) by (intro uint_to_u64) (simp_all add: delta_ok_def)
  then show ?thesis using assms(2) by auto
next
  case False
  have "uint (to_u64 (- d)) = - d" using False assms(1) by (intro uint_to_u64) (simp_all add: delta_ok_def)
  then have "to_u64 (- d) \<noteq> 0" using assms(2) by auto
  then show ?thesis by (simp add: to_u64_def)
qed

lemma GetMinRtt_ok: "rtt_inv s \<Longrightarrow> delta_ok (GetMinRtt s) \<and> GetMinRtt s \<noteq> 0"
  by (simp add: GetMinRtt_def rtt_inv_def delta_FromMilliseconds_def delta_ok_def)

lemma GetMinRtt_rates [simp]:
  "GetMinRtt (s\<lparr>b_reference_rate := y\<rparr>) = GetMinRtt s" "GetMinRtt (s\<lparr>b_pacing_rate := x\<rparr>) = GetMinRtt s"
  by (simp_all add: GetMinRtt_def)

definition raw_rate :: "bbr_sender \<Rightarrow> bandwidth option" where
  "raw_rate s =
     (let r = bw_scale (b_pacing_gain s) (BandwidthEstimate s)
      in if r = 0 then bw_FromBytesAndTimeDelta (b_initial_congestion_window s) (GetMinRtt s) else Some r)"

definition floored :: "bbr_sender \<Rightarrow> bandwidth \<Rightarrow> bool" where
  "floored s rate \<longleftrightarrow> b_mode s = ST_INCREASE \<and> dyadic_is_one (b_pacing_gain s) \<and> rate < b_min_bw s"

lemma rate_update_order:
  "s\<lparr>b_pacing_rate := x, b_reference_rate := y\<rparr> = s\<lparr>b_reference_rate := y, b_pacing_rate := x\<rparr>"
  by (cases s) simp

lemma CalculatePacingRate_eq:
  "CalculatePacingRate s = (case raw_rate s of None \<Rightarrow> None
     | Some rate \<Rightarrow> Some (report_rate (b_pacing_rate s)
         (s\<lparr>b_reference_rate := if floored s rate then b_min_bw s else BandwidthEstimate s,
            b_pacing_rate := if floored s rate then b_min_bw s else rate\<rparr>)))"
proof (cases "raw_rate s")
  case None
  then show ?thesis by (auto simp: CalculatePacingRate_def raw_rate_def Let_def split: if_splits)
next
  case (Some rate)
  show ?thesis
  proof (cases "bw_scale (b_pacing_gain s) (BandwidthEstimate s) = 0")
    case True
    then have "bw_FromBytesAndTimeDelta (b_initial_congestion_window s) (GetMinRtt s) = Some rate"
      using Some by (simp add: raw_rate_def)
    then show ?thesis using Some True by (simp add: CalculatePacingRate_def Let_def floored_def rate_update_order)
  next
    case False
    then have "rate = bw_scale (b_pacing_gain s) (BandwidthEstimate s)" using Some by (simp add: raw_rate_def)
    then show ?thesis using Some False by (simp add: CalculatePacingRate_def Let_def floored_def rate_update_order)
  qed
qed

lemma CalculatePacingRate_defined:
  assumes "rtt_inv s"
  obtains s' where "CalculatePacingRate s = Some s'"
proof -
  have "to_u64 (GetMinRtt s) \<noteq> 0" using GetMinRtt_ok [OF assms] to_u64_nonzero by blast
  then have "raw_rate s \<noteq> None" by (simp add: raw_rate_def bw_FromBytesAndTimeDelta_def Let_def)
  then show ?thesis using that by (auto simp: CalculatePacingRate_eq)
qed

lemma CalculatePacingRate_inv:
  assumes "CalculatePacingRate s = Some s'"
  shows "bbr_books s' = bbr_books s" "modes_inv s' = modes_inv s"
  using assms by (auto simp: CalculatePacingRate_eq modes_frames split: option.splits)

section \<open>Acknowledgements\<close>

lemma after_sample_inv:
  assumes m: "modes_inv s" and bw: "0 \<le> bw"
  obtains s' where "after_sample t pn r upd bw rnd s = Some s'" "modes_inv s'" "bbr_books s' = bbr_books s"
proof -
  define ex where "ex = (t > b_min_rtt_timestamp s + kMinRttExpiry)"
  obtain reason s1 where c: "(if b_mode s = ST_INCREASE then CheckIfCongestion pn s else (cc_none, s)) = (reason, s1)"
    by fastforce
  have 1: "modes_inv s1" "bbr_books s1 = bbr_books s"
    using c m modes_frames(2) [of pn s] books_steps(3) [of pn s]
    by (cases "CheckIfCongestion pn s"; simp split: if_splits)+
  define s2 where "s2 = MaybeEnterOrExitDecrease t ex reason r rnd s1"
  have 2: "modes_inv s2" "bbr_books s2 = bbr_books s" using 1 by (simp_all add: s2_def modes_MaybeEnterOrExitDecrease)
  define s3 where "s3 = (if upd then
                  let t = s2\<lparr>b_max_bandwidth := wf_Update MaxFilter bw r (b_max_bandwidth s2)\<rparr>
                  in if b_mode t = ST_INCREASE then UpdateMaxBw t else t
                else s2)"
  have 3: "modes_inv s3" "bbr_books s3 = bbr_books s" using 2 bw by (simp_all add: s3_def Let_def modes_frames modes_update)
  define s4 where "s4 = (if upd \<and> \<not> b_is_at_full_bandwidth s3 then CheckIfFullBandwidthReached s3 else s3)"
  have 4: "modes_inv s4" "bbr_books s4 = bbr_books s" using 3 by (simp_all add: s4_def modes_frames)
  define s5 where "s5 = MaybeExitStartupOrDrain t rnd s4"
  have 5: "modes_inv s5" "bbr_books s5 = bbr_books s" using 4 by (simp_all add: s5_def modes_MaybeExitStartupOrDrain)
  define s6 where "s6 = (if b_mode s5 = ST_INCREASE then UpdateGainCyclePhase t s5 else s5)"
  have 6: "modes_inv s6" "bbr_books s6 = bbr_books s" using 5 by (simp_all add: s6_def modes_UpdateGainCyclePhase)
  have "after_sample t pn r upd bw rnd s = CalculatePacingRate s6"
    unfolding after_sample_def c Let_def s6_def s5_def s4_def s3_def s2_def ex_def by simp
  moreover obtain s' where "CalculatePacingRate s6 = Some s'"
    using CalculatePacingRate_defined 6(1) by (auto simp: modes_inv_def)
  ultimately show ?thesis using that CalculatePacingRate_inv 6 by metis
qed

lemma UpdateRoundTripCounter_inv:
  assumes "UpdateRoundTripCounter n s = (upd, s')"
  shows "gain_inv s' = gain_inv s" "filter_inv s' = filter_inv s" "rtt_inv s' = rtt_inv s"
    "b_sent_packets_map s' = b_sent_packets_map s" "b_bytes_in_flight s' = b_bytes_in_flight s"
    "b_last_ack_seq s' = b_last_ack_seq s" "b_last_sent_packet s' = b_last_sent_packet s" "b_sampler s' = b_sampler s"
    "b_current_round_trip_end s \<le> b_last_sent_packet s \<Longrightarrow> b_current_round_trip_end s' \<le> b_last_sent_packet s'"
  using assms by (auto simp: UpdateRoundTripCounter_def gain_inv_def filter_inv_def rtt_inv_def
      split: if_splits cong: bbr_mode.case_cong)

lemma books_fields:
  assumes "bbr_books s = bbr_books s'"
  shows "b_sent_packets_map s = b_sent_packets_map s'" "b_bytes_in_flight s = b_bytes_in_flight s'"
    "b_last_ack_seq s = b_last_ack_seq s'" "b_last_sent_packet s = b_last_sent_packet s'" "b_sampler s = b_sampler s'"
    "b_min_bw s = b_min_bw s'"
  using assms by (simp_all add: bbr_books_def)

text \<open>
  An acknowledgement of a sent packet completes, keeps the invariant, and leaves exactly the packets
  above it in flight.
\<close>

lemma bbr_OnAck_inv:
  assumes inv: "bbr_inv s" and t: "time_ok t" and pn: "b_last_ack_seq s < pn" "pn \<le> b_last_sent_packet s"
  obtains s' where "bbr_OnAck t pn rnd s = Some s'" "bbr_inv s'" "b_last_ack_seq s' = pn"
    "b_last_sent_packet s' = b_last_sent_packet s" "b_min_bw s' = b_min_bw s"
    "b_sent_packets_map s' = filter (\<lambda>(k, _). pn < k) (b_sent_packets_map s)"
    "total_bytes_sent (b_sampler s') = total_bytes_sent (b_sampler s)"
proof -
  let ?map = "filter (\<lambda>(k, _). pn < k) (b_sent_packets_map s)"
  have fl: "flight_inv s" and si: "smp_inv s" and mo: "modes_inv s" using inv by (simp_all add: bbr_inv_split)
  define smp1 where "smp1 = lose_range (b_last_ack_seq s + 1) pn (b_sampler s)"
  define s1 where "s1 = s\<lparr>b_sampler := smp1, b_last_ack_seq := pn\<rparr>"
  define s2 where "s2 = UpdateRttAndInflight t pn s1"
  obtain upd s3 where s3: "UpdateRoundTripCounter (b_last_ack_seq s2) s2 = (upd, s3)" by fastforce
  have fl1: "pm_inv (b_sent_packets_map s1)" "b_bytes_in_flight s1 = pm_sum pp_bytes (b_sent_packets_map s1)"
    "\<forall>(k, p)\<in>set (b_sent_packets_map s1). time_ok (pp_sent_ts p)"
    using fl by (simp_all add: s1_def flight_inv_def)
  note core = UpdateRttAndInflight_parts [of t pn s1, folded s2_def]
  have map2: "b_sent_packets_map s2 = ?map" "b_bytes_in_flight s2 = pm_sum pp_bytes ?map"
    using UpdateRttAndInflight_map [OF fl1(1,2)] by (simp_all add: s2_def s1_def)
  have "modes_inv s1" using mo by (simp add: s1_def modes_inv_def gain_inv_def filter_inv_def rtt_inv_def cong: bbr_mode.case_cong)
  then have modes2: "modes_inv s2"
    using core UpdateRttAndInflight_rtt [OF _ t fl1(3)] by (simp add: modes_inv_def s2_def)
  note r3 = UpdateRoundTripCounter_inv [OF s3]
  have modes3: "modes_inv s3" using modes2 r3 by (simp add: modes_inv_def)
  have seq: "b_last_ack_seq s3 = pn" "b_last_sent_packet s3 = b_last_sent_packet s" "b_sampler s3 = smp1"
    using r3 core by (simp_all add: s1_def)
  have fl3: "flight_inv s3"
    using fl pn r3 core map2 pm_inv_filter [of "b_sent_packets_map s"]
    by (auto simp: flight_inv_def s1_def)
  have smp1: "sampler_inv smp1" "packet_infos smp1 = filter (\<lambda>(k, _). \<not> (b_last_ack_seq s + 1 \<le> k \<and> k < pn)) (packet_infos (b_sampler s))"
    using si sampler_inv_lose_range lose_range_eq by (auto simp: smp1_def smp_inv_def sampler_inv_def)
  obtain bw smp where smp: "smp_OnPacketAcknowledged t pn upd smp1 = Some (bw, smp)" "sampler_inv smp" "0 \<le> bw"
    "packet_infos smp = pm_erase pn (packet_infos smp1)" "total_bytes_sent smp = total_bytes_sent smp1"
    using sampler_acknowledged [OF smp1(1) t] by metis
  have "unat (b_last_ack_seq s + 1) = unat (b_last_ack_seq s) + 1"
    using pn(1) unat_u64_less [of pn] by (simp add: word_less_nat_alt unat_word_ariths)
  then have ge: "b_last_ack_seq s + 1 \<le> k" if "b_last_ack_seq s < k" for k
    using that by (simp add: word_less_nat_alt word_le_nat_alt)
  define s4 where "s4 = s3\<lparr>b_sampler := smp\<rparr>"
  have "pm_inv (packet_infos smp1)" using smp1(1) by (simp add: sampler_inv_def)
  then have keys: "\<forall>k\<in>fst ` set (packet_infos smp). pn < k \<and> k \<le> b_last_sent_packet s"
    using si ge by (fastforce simp: smp_inv_def smp(4) pm_erase_filter smp1(2) not_le not_less)
  have 4: "flight_inv s4" "smp_inv s4" "modes_inv s4"
    using fl3 modes3 smp(2) keys seq
    by (auto simp: s4_def flight_inv_def smp_inv_def modes_inv_def gain_inv_def filter_inv_def rtt_inv_def cong: bbr_mode.case_cong)
  have step: "bbr_OnAck t pn rnd s =
     (if b_round_trip_count s2 = 0 then CalculatePacingRate s4 else after_sample t pn (b_round_trip_count s2) upd bw rnd s4)"
    using pn(1) smp(1) s3 seq(3)
    by (simp add: bbr_OnAck_def Let_def s2_def s1_def smp1_def s4_def not_le [symmetric])
  have "\<exists>s'. bbr_OnAck t pn rnd s = Some s' \<and> modes_inv s' \<and> bbr_books s' = bbr_books s4"
  proof (cases "b_round_trip_count s2 = 0")
    case True
    obtain s' where "CalculatePacingRate s4 = Some s'"
      using CalculatePacingRate_defined 4(3) by (auto simp: modes_inv_def)
    then show ?thesis using step True CalculatePacingRate_inv 4(3) by auto
  next
    case False
    then show ?thesis using step after_sample_inv [OF 4(3) smp(3)] by metis
  qed
  then obtain s' where s': "bbr_OnAck t pn rnd s = Some s'" "modes_inv s'" "bbr_books s' = bbr_books s4" by blast
  have inv': "bbr_inv s'" using s'(2) bbr_books_parts [OF s'(3)] 4 by (simp add: bbr_inv_split)
  have "b_min_bw s4 = b_min_bw s"
    using s3 core(11) by (auto simp: s4_def s1_def UpdateRoundTripCounter_def split: if_splits)
  moreover have "total_bytes_sent smp = total_bytes_sent (b_sampler s)"
    using smp(5) si lose_range_eq by (simp add: smp1_def smp_inv_def sampler_inv_def)
  ultimately show ?thesis using that [OF s'(1) inv'] books_fields [OF s'(3)] seq map2(1) r3(4)
    by (simp add: s4_def)
qed

lemma bbr_OnAck_stale: "pn \<le> b_last_ack_seq s \<Longrightarrow> bbr_OnAck t pn rnd s = Some s"
  by (simp add: bbr_OnAck_def)

section \<open>Reachable states\<close>

text \<open>
  The sender is driven by sends of packets and by acknowledgements of packets it has sent, at
  non-negative times; the bytes sent over a connection fit a 64-bit counter.
\<close>

inductive bbr_reachable :: "bbr_sender \<Rightarrow> bool" where
  init: "bbr_reachable (MyBbrSenderV5 min_bps has_observer has_trace)"
| sent: "bbr_reachable s \<Longrightarrow> time_ok t \<Longrightarrow> unat (total_bytes_sent (b_sampler s)) + unat bytes < 2 ^ 64
     \<Longrightarrow> bbr_reachable (bbr_OnPacketSent t pn bytes s)"
| acked: "bbr_reachable s \<Longrightarrow> time_ok t \<Longrightarrow> pn \<le> b_last_sent_packet s \<Longrightarrow> bbr_OnAck t pn rnd s = Some s'
     \<Longrightarrow> bbr_reachable s'"

lemma bbr_reachable_inv: "bbr_reachable s \<Longrightarrow> bbr_inv s"
proof (induction rule: bbr_reachable.induct)
  case (init min_bps has_observer has_trace)
  show ?case by (rule bbr_inv_init)
next
  case (sent s t bytes pn)
  then show ?case by (intro bbr_inv_OnPacketSent)
next
  case (acked s t pn rnd s')
  show ?case
  proof (cases "pn \<le> b_last_ack_seq s")
    case True
    then show ?thesis using acked by (simp add: bbr_OnAck_stale)
  next
    case False
    then show ?thesis using acked by (metis bbr_OnAck_inv not_le option.inject)
  qed
qed

end
