(* ===== verification/Bbr_Properties.thy ===== *)
theory Bbr_Properties
  imports Bbr_Invariants
begin

text \<open>
  Properties of the delay-based BBR sender: runs of the two entry points refine a simple account of
  the packets in flight, the mode changes only along the edges of the state machine, and the pacing
  rate and gain are those of the mode.
\<close>

section \<open>Runs and their abstract account\<close>

datatype bbr_op = OpSent quic_time u64 u64 | OpAck quic_time u64 u64

fun bbr_step :: "bbr_op \<Rightarrow> bbr_sender \<Rightarrow> bbr_sender option" where
  "bbr_step (OpSent t pn bytes) s = Some (bbr_OnPacketSent t pn bytes s)"
| "bbr_step (OpAck t pn rnd) s = bbr_OnAck t pn rnd s"

fun bbr_run :: "bbr_op list \<Rightarrow> bbr_sender \<Rightarrow> bbr_sender option" where
  "bbr_run [] s = Some s"
| "bbr_run (op # ops) s = (case bbr_step op s of None \<Rightarrow> None | Some s' \<Rightarrow> bbr_run ops s')"

text \<open>
  The abstract account: the largest packet sent, the largest acknowledged, the number and size of
  every packet in flight, and the bytes sent in all. Acknowledgements are cumulative.
\<close>

record flight_account =
  fa_sent :: u64
  fa_acked :: u64
  fa_flying :: "(u64 \<times> u64) list"
  fa_total :: nat

definition fa_init :: flight_account where
  "fa_init = \<lparr>fa_sent = 0, fa_acked = 0, fa_flying = [], fa_total = 0\<rparr>"

fun fa_step :: "bbr_op \<Rightarrow> flight_account \<Rightarrow> flight_account" where
  "fa_step (OpSent t pn bytes) a =
     (if pn \<le> fa_sent a then a
      else a\<lparr>fa_sent := pn, fa_flying := fa_flying a @ [(pn, bytes)], fa_total := fa_total a + unat bytes\<rparr>)"
| "fa_step (OpAck t pn rnd) a =
     (if pn \<le> fa_acked a then a
      else a\<lparr>fa_acked := pn, fa_flying := filter (\<lambda>(k, _). pn < k) (fa_flying a)\<rparr>)"

text \<open>What a caller must respect: only sent packets are acknowledged, and the byte counter does not overflow.\<close>

fun fa_ok :: "bbr_op \<Rightarrow> flight_account \<Rightarrow> bool" where
  "fa_ok (OpSent t pn bytes) a \<longleftrightarrow> time_ok t \<and> fa_total a + unat bytes < 2 ^ 64"
| "fa_ok (OpAck t pn rnd) a \<longleftrightarrow> time_ok t \<and> pn \<le> fa_sent a"

fun fa_run_ok :: "bbr_op list \<Rightarrow> flight_account \<Rightarrow> bool" where
  "fa_run_ok [] a = True"
| "fa_run_ok (op # ops) a = (fa_ok op a \<and> fa_run_ok ops (fa_step op a))"

definition flying :: "per_packet packet_map \<Rightarrow> (u64 \<times> u64) list" where
  "flying m = map (\<lambda>(k, p). (k, pp_bytes p)) m"

lemma flying_filter: "flying (filter (\<lambda>(k, _). pn < k) m) = filter (\<lambda>(k, _). pn < k) (flying m)"
  by (induction m) (auto simp: flying_def)

lemma flying_snoc: "flying (m @ [(k, p)]) = flying m @ [(k, pp_bytes p)]"
  by (simp add: flying_def)

lemma flying_total: "pm_total (\<lambda>p. unat (pp_bytes p)) m = sum_list (map (\<lambda>p. unat (snd p)) (flying m))"
  by (induction m) (auto simp: flying_def)

definition flight_sim :: "flight_account \<Rightarrow> bbr_sender \<Rightarrow> bool" where
  "flight_sim a s \<longleftrightarrow> bbr_inv s \<and> b_last_sent_packet s = fa_sent a \<and> b_last_ack_seq s = fa_acked a \<and>
     flying (b_sent_packets_map s) = fa_flying a \<and>
     unat (total_bytes_sent (b_sampler s)) = fa_total a \<and>
     sum_list (map (\<lambda>p. unat (snd p)) (fa_flying a)) \<le> fa_total a"

lemma flight_sim_init: "flight_sim fa_init (MyBbrSenderV5 min_bps obs trace)"
  by (simp add: flight_sim_def fa_init_def bbr_inv_init)
    (simp add: MyBbrSenderV5_def EnterStartUpMode_def MySampler_def flying_def)

lemma flight_sim_step:
  assumes sim: "flight_sim a s" and ok: "fa_ok op a"
  obtains s' where "bbr_step op s = Some s'" "flight_sim (fa_step op a) s'"
proof (cases op)
  case (OpSent t pn bytes)
  let ?s = "bbr_OnPacketSent t pn bytes s"
  show ?thesis
  proof (cases "pn \<le> fa_sent a")
    case True
    then show ?thesis using that [of s] sim by (simp add: OpSent bbr_OnPacketSent_def flight_sim_def)
  next
    case False
    have inv: "bbr_inv s" and tot: "unat (total_bytes_sent (b_sampler s)) + unat bytes < 2 ^ 64"
      and t: "time_ok t" and new: "\<not> pn \<le> b_last_sent_packet s" using sim ok False by (simp_all add: OpSent flight_sim_def)
    have "bbr_inv ?s" by (rule bbr_inv_OnPacketSent [OF inv t tot])
    moreover have "b_sent_packets_map ?s = b_sent_packets_map s @ [(pn, \<lparr>pp_sent_ts = t, pp_bytes = bytes\<rparr>)]"
    proof -
      have "pm_inv (b_sent_packets_map s)" "\<forall>x\<in>fst ` set (b_sent_packets_map s). x < pn"
        using inv new by (auto simp: bbr_inv_def flight_inv_def)
      from pm_insert_last [OF this] show ?thesis using new by (simp add: bbr_OnPacketSent_def AddPacketInfo_def)
    qed
    moreover have "total_bytes_sent (b_sampler ?s) = total_bytes_sent (b_sampler s) + bytes"
      using new by (simp add: bbr_OnPacketSent_def AddPacketInfo_def smp_OnPacketSent_def Let_def)
    moreover have "b_last_sent_packet ?s = pn" "b_last_ack_seq ?s = b_last_ack_seq s"
      using new by (simp_all add: bbr_OnPacketSent_def AddPacketInfo_def)
    ultimately have "flight_sim (fa_step op a) ?s"
      using sim False unat_add_small [OF tot] by (simp add: OpSent flight_sim_def flying_snoc)
    then show ?thesis using that by (simp add: OpSent)
  qed
next
  case (OpAck t pn rnd)
  show ?thesis
  proof (cases "pn \<le> fa_acked a")
    case True
    then show ?thesis using that [of s] sim by (simp add: OpAck bbr_OnAck_stale flight_sim_def)
  next
    case False
    have pre: "bbr_inv s" "time_ok t" "b_last_ack_seq s < pn" "pn \<le> b_last_sent_packet s"
      using sim ok False by (simp_all add: OpAck flight_sim_def)
    obtain s' where s': "bbr_OnAck t pn rnd s = Some s'" "bbr_inv s'" "b_last_ack_seq s' = pn"
      "b_last_sent_packet s' = b_last_sent_packet s" "b_sent_packets_map s' = filter (\<lambda>(k, _). pn < k) (b_sent_packets_map s)"
      "total_bytes_sent (b_sampler s') = total_bytes_sent (b_sampler s)"
      using bbr_OnAck_inv [OF pre, of rnd] by metis
    have "sum_list (map (\<lambda>p. unat (snd p)) (filter P xs)) \<le> sum_list (map (\<lambda>p. unat (snd p)) xs)" for P and xs :: "(u64 \<times> u64) list"
      by (induction xs) auto
    moreover have "sum_list (map (\<lambda>p. unat (snd p)) (fa_flying a)) \<le> fa_total a" using sim by (simp add: flight_sim_def)
    ultimately have "sum_list (map (\<lambda>p. unat (snd p)) (filter (\<lambda>(k, _). pn < k) (fa_flying a))) \<le> fa_total a"
      by (rule order.trans)
    then have "flight_sim (fa_step op a) s'" using sim s' False by (simp add: OpAck flight_sim_def flying_filter)
    then show ?thesis using that s'(1) by (simp add: OpAck)
  qed
qed

lemma flight_sim_run:
  "flight_sim a s \<Longrightarrow> fa_run_ok ops a \<Longrightarrow> \<exists>s'. bbr_run ops s = Some s' \<and> flight_sim (fold fa_step ops a) s'"
proof (induction ops arbitrary: a s)
  case (Cons op ops)
  obtain s1 where "bbr_step op s = Some s1" "flight_sim (fa_step op a) s1"
    using flight_sim_step [of a s op] Cons.prems by auto
  then show ?case using Cons.IH Cons.prems(2) by simp
qed simp

lemma pm_sum_small:
  "pm_total (\<lambda>v. unat (f v)) m < 2 ^ 64 \<Longrightarrow> unat (pm_sum f m :: u64) = pm_total (\<lambda>v. unat (f v)) m"
proof (induction m)
  case (Cons p m)
  obtain k v where p: "p = (k, v)" by (cases p)
  have "unat (f v) + unat (pm_sum f m) < 2 ^ 64" "unat (pm_sum f m) = pm_total (\<lambda>v. unat (f v)) m"
    using Cons by (simp_all add: p)
  then show ?case using unat_add_small [of "f v" "pm_sum f m"] by (simp add: p)
qed simp

section \<open>Properties\<close>

text \<open>
  C16. Every run of sends and acknowledgements that a caller may issue completes, with no division by
  zero, and refines the abstract account: the sender holds exactly the packets sent above the
  largest acknowledged one, and its count of bytes in flight is the sum of their sizes, without
  wrap-around.
\<close>

theorem bbr_run_refines:
  assumes "fa_run_ok ops fa_init"
  shows "\<exists>s. bbr_run ops (MyBbrSenderV5 min_bps obs trace) = Some s \<and>
     (let a = fold fa_step ops fa_init in
      b_last_sent_packet s = fa_sent a \<and> b_last_ack_seq s = fa_acked a \<and>
      flying (b_sent_packets_map s) = fa_flying a \<and>
      unat (b_bytes_in_flight s) = sum_list (map (\<lambda>p. unat (snd p)) (fa_flying a)))"
proof -
  let ?a = "fold fa_step ops fa_init"
  obtain s where s: "bbr_run ops (MyBbrSenderV5 min_bps obs trace) = Some s" "flight_sim ?a s"
    using flight_sim_run [OF flight_sim_init assms] by blast
  have tot: "pm_total (\<lambda>p. unat (pp_bytes p)) (b_sent_packets_map s) = sum_list (map (\<lambda>p. unat (snd p)) (fa_flying ?a))"
    using s(2) by (simp add: flight_sim_def flying_total)
  have "fa_total ?a < 2 ^ 64"
    using s(2) unat_u64_less [of "total_bytes_sent (b_sampler s)"] by (simp add: flight_sim_def)
  then have "pm_total (\<lambda>p. unat (pp_bytes p)) (b_sent_packets_map s) < 2 ^ 64"
    unfolding tot using s(2) by (simp add: flight_sim_def)
  from pm_sum_small [OF this] show ?thesis
    using s tot by (auto simp: flight_sim_def bbr_inv_def flight_inv_def Let_def)
qed

theorem bbr_run_refines_witness:
  "\<exists>s. bbr_run [OpSent 1000 1 1200, OpSent 2000 2 800, OpSent 2500 3 700, OpAck 9000 1 5] (MyBbrSenderV5 500000 False False) = Some s \<and>
     flying (b_sent_packets_map s) = [(2, 800), (3, 700)] \<and> unat (b_bytes_in_flight s) = 1500"
proof -
  let ?ops = "[OpSent 1000 1 1200, OpSent 2000 2 800, OpSent 2500 3 700, OpAck 9000 1 5]"
  have ok: "fa_run_ok ?ops fa_init" by (simp add: fa_init_def time_ok_def)
  have "fold fa_step ?ops fa_init = \<lparr>fa_sent = 3, fa_acked = 1, fa_flying = [(2, 800), (3, 700)], fa_total = 2700\<rparr>"
    by (simp add: fa_init_def word_le_nat_alt word_less_nat_alt)
  then show ?thesis using bbr_run_refines [OF ok, of 500000 False False]
    by (simp del: bbr_run.simps bbr_step.simps fold.simps fold_simps) blast
qed

section \<open>The stages of an acknowledgement\<close>

text \<open>
  What reaches the mode machine: the state after the round-trip, in-flight and sampler updates
  differs from the one before only in the parts those updates own.
\<close>

definition bbr_machine :: "bbr_sender \<Rightarrow> bbr_mode \<times> dyadic \<times> bandwidth windowed_filter \<times> bandwidth \<times> bool \<times> u64 \<times> u64 \<times> u64 \<times> bandwidth" where
  "bbr_machine s = (b_mode s, b_pacing_gain s, b_max_bandwidth s, b_min_bw s, b_is_at_full_bandwidth s, b_bdp s,
     b_num_startup_rtts s, b_rounds_without_bandwidth_gain s, b_bandwidth_at_last_round s)"

lemma bbr_machine_core: "bbr_core s = bbr_core s' \<Longrightarrow> bbr_machine s = bbr_machine s'"
  by (simp add: bbr_core_def bbr_machine_def)

lemma bbr_machine_fields:
  assumes "bbr_machine s = bbr_machine s'"
  shows "b_mode s = b_mode s'" "b_max_bandwidth s = b_max_bandwidth s'" "b_min_bw s = b_min_bw s'"
    "b_is_at_full_bandwidth s = b_is_at_full_bandwidth s'" "b_bdp s = b_bdp s'"
    "b_num_startup_rtts s = b_num_startup_rtts s'" "b_rounds_without_bandwidth_gain s = b_rounds_without_bandwidth_gain s'"
    "b_bandwidth_at_last_round s = b_bandwidth_at_last_round s'" "b_pacing_gain s = b_pacing_gain s'"
  using assms by (simp_all add: bbr_machine_def)

lemma UpdateRoundTripCounter_machine:
  "bbr_machine (snd (UpdateRoundTripCounter n s)) = bbr_machine s" "fst (UpdateRoundTripCounter n s) \<longleftrightarrow> b_current_round_trip_end s < n"
  "b_bytes_in_flight (snd (UpdateRoundTripCounter n s)) = b_bytes_in_flight s"
  by (simp_all add: UpdateRoundTripCounter_def bbr_machine_def)

lemma UpdateRttAndInflight_flight:
  "b_bytes_in_flight (UpdateRttAndInflight t pn s) = snd (drop_acked pn (b_sent_packets_map s) (b_bytes_in_flight s))"
  by (auto simp: UpdateRttAndInflight_def Let_def split: option.splits prod.splits)

lemma bbr_OnAck_stages:
  assumes ack: "bbr_OnAck t pn rnd s = Some s'" and new: "b_last_ack_seq s < pn"
  obtains s4 upd bw where "bbr_machine s4 = bbr_machine s" "upd \<longleftrightarrow> b_current_round_trip_end s < pn"
    "b_bytes_in_flight s4 = snd (drop_acked pn (b_sent_packets_map s) (b_bytes_in_flight s))"
    "(if b_round_trip_count s = 0 then CalculatePacingRate s4
      else after_sample t pn (b_round_trip_count s) upd bw rnd s4) = Some s'"
proof -
  define s1 where "s1 = s\<lparr>b_sampler := lose_range (b_last_ack_seq s + 1) pn (b_sampler s), b_last_ack_seq := pn\<rparr>"
  define s2 where "s2 = UpdateRttAndInflight t pn s1"
  define s3 where "s3 = snd (UpdateRoundTripCounter pn s2)"
  define upd where "upd = fst (UpdateRoundTripCounter pn s2)"
  have core: "bbr_core s2 = bbr_core s1" by (simp add: s2_def UpdateRttAndInflight_core)
  have m3: "bbr_machine s3 = bbr_machine s"
    using bbr_machine_core [OF core] by (simp add: s3_def UpdateRoundTripCounter_machine) (simp add: s1_def bbr_machine_def)
  have u: "upd \<longleftrightarrow> b_current_round_trip_end s < pn"
    using bbr_core_parts(6) [OF core] by (simp add: upd_def UpdateRoundTripCounter_machine) (simp add: s1_def)
  have rt: "b_round_trip_count s2 = b_round_trip_count s" using bbr_core_parts(9) [OF core] by (simp add: s1_def)
  have la: "b_last_ack_seq s2 = pn" using bbr_core_parts(4) [OF core] by (simp add: s1_def)
  have fl: "b_bytes_in_flight s3 = snd (drop_acked pn (b_sent_packets_map s) (b_bytes_in_flight s))"
    using UpdateRttAndInflight_flight [of t pn s1] by (simp add: s3_def UpdateRoundTripCounter_machine s2_def) (simp add: s1_def)
  have "bbr_OnAck t pn rnd s = (let (upd, s3) = UpdateRoundTripCounter (b_last_ack_seq s2) s2 in
      case smp_OnPacketAcknowledged t pn upd (b_sampler s3) of None \<Rightarrow> None
     | Some (bw, smp) \<Rightarrow> if b_round_trip_count s2 = 0 then CalculatePacingRate (s3\<lparr>b_sampler := smp\<rparr>)
         else after_sample t pn (b_round_trip_count s2) upd bw rnd (s3\<lparr>b_sampler := smp\<rparr>))"
    using new unfolding bbr_OnAck_def Let_def s2_def s1_def by (simp add: not_le [symmetric])
  then have eq: "bbr_OnAck t pn rnd s = (case smp_OnPacketAcknowledged t pn upd (b_sampler s3) of None \<Rightarrow> None
     | Some (bw, smp) \<Rightarrow> if b_round_trip_count s = 0 then CalculatePacingRate (s3\<lparr>b_sampler := smp\<rparr>)
         else after_sample t pn (b_round_trip_count s) upd bw rnd (s3\<lparr>b_sampler := smp\<rparr>))"
    unfolding rt la Let_def case_prod_unfold upd_def s3_def .
  then obtain bw smp where smp: "smp_OnPacketAcknowledged t pn upd (b_sampler s3) = Some (bw, smp)"
    using ack by (auto split: option.splits)
  show ?thesis
    using that [of "s3\<lparr>b_sampler := smp\<rparr>" upd bw] m3 u fl ack eq smp by (simp add: bbr_machine_def)
qed

lemma CheckIfCongestion_machine:
  "bbr_machine (snd (CheckIfCongestion pn s)) = bbr_machine s"
  "b_bytes_in_flight (snd (CheckIfCongestion pn s)) = b_bytes_in_flight s"
  by (simp_all add: CheckIfCongestion_def bbr_machine_def Let_def)

definition decrease_stage :: "quic_time \<Rightarrow> u64 \<Rightarrow> u64 \<Rightarrow> u64 \<Rightarrow> bbr_sender \<Rightarrow> bbr_sender" where
  "decrease_stage t pn r rnd s =
     (let (reason, s1) = (if b_mode s = ST_INCREASE then CheckIfCongestion pn s else (cc_none, s))
      in MaybeEnterOrExitDecrease t (t > b_min_rtt_timestamp s + kMinRttExpiry) reason r rnd s1)"

definition sample_stage :: "u64 \<Rightarrow> bool \<Rightarrow> bandwidth \<Rightarrow> bbr_sender \<Rightarrow> bbr_sender" where
  "sample_stage r upd bw s =
     (if upd then let t = s\<lparr>b_max_bandwidth := wf_Update MaxFilter bw r (b_max_bandwidth s)\<rparr>
        in if b_mode t = ST_INCREASE then UpdateMaxBw t else t
      else s)"

definition growth_stage :: "bool \<Rightarrow> bbr_sender \<Rightarrow> bbr_sender" where
  "growth_stage upd s = (if upd \<and> \<not> b_is_at_full_bandwidth s then CheckIfFullBandwidthReached s else s)"

definition cycle_stage :: "quic_time \<Rightarrow> bbr_sender \<Rightarrow> bbr_sender" where
  "cycle_stage t s = (if b_mode s = ST_INCREASE then UpdateGainCyclePhase t s else s)"

lemma after_sample_stages:
  "after_sample t pn r upd bw rnd s =
     CalculatePacingRate (cycle_stage t (MaybeExitStartupOrDrain t rnd (growth_stage upd
       (sample_stage r upd bw (decrease_stage t pn r rnd s)))))"
  by (simp add: after_sample_def cycle_stage_def growth_stage_def sample_stage_def decrease_stage_def Let_def
      case_prod_unfold)

lemma EnterIncreaseMode_mode [simp]: "b_mode (EnterIncreaseMode now rnd s) = ST_INCREASE"
  by (simp add: EnterIncreaseMode_def Let_def)

lemma ExitDecrease_mode [simp]: "b_mode (ExitDecrease now rnd s) = ST_INCREASE"
  by (simp add: ExitDecrease_def Let_def)

lemma EnterDecrease_mode [simp]: "b_mode (EnterDecrease ex r s) = ST_DECREASE"
  by (simp add: EnterDecrease_def Let_def)

lemma MaybeEnterOrExitDecrease_mode:
  "b_mode (MaybeEnterOrExitDecrease now ex reason r rnd s) \<in> {b_mode s, ST_INCREASE, ST_DECREASE}"
  by (simp add: MaybeEnterOrExitDecrease_def Let_def)

lemma MaybeEnterOrExitDecrease_drained:
  "b_mode s = ST_DECREASE \<Longrightarrow> b_bytes_in_flight s \<le> b_bdp s \<Longrightarrow>
   b_mode (MaybeEnterOrExitDecrease now ex reason r rnd s) = ST_INCREASE"
  by (simp add: MaybeEnterOrExitDecrease_def Let_def)

lemma MaybeEnterOrExitDecrease_idle:
  "b_mode s \<noteq> ST_DECREASE \<Longrightarrow> b_mode (MaybeEnterOrExitDecrease now ex reason r rnd s) = b_mode s \<Longrightarrow> b_mode s \<noteq> ST_INCREASE \<Longrightarrow>
   MaybeEnterOrExitDecrease now ex reason r rnd s = s"
  by (simp add: MaybeEnterOrExitDecrease_def Let_def split: if_splits)

lemma decrease_stage_mode: "b_mode (decrease_stage t pn r rnd s) \<in> {b_mode s, ST_INCREASE, ST_DECREASE}"
proof (cases "b_mode s = ST_INCREASE")
  case True
  then show ?thesis
    using MaybeEnterOrExitDecrease_mode [of t "t > b_min_rtt_timestamp s + kMinRttExpiry" "fst (CheckIfCongestion pn s)" r rnd
        "snd (CheckIfCongestion pn s)"] bbr_machine_fields(1) [OF CheckIfCongestion_machine(1), of pn s]
    by (simp add: decrease_stage_def case_prod_unfold Let_def)
next
  case False
  then show ?thesis
    using MaybeEnterOrExitDecrease_mode [of t "t > b_min_rtt_timestamp s + kMinRttExpiry" cc_none r rnd s]
    by (simp add: decrease_stage_def)
qed

lemma decrease_stage_drained:
  "b_mode s = ST_DECREASE \<Longrightarrow> b_bytes_in_flight s \<le> b_bdp s \<Longrightarrow> b_mode (decrease_stage t pn r rnd s) = ST_INCREASE"
  by (simp add: decrease_stage_def MaybeEnterOrExitDecrease_drained)

lemma decrease_stage_idle:
  "b_mode s = ST_START \<Longrightarrow> b_mode (decrease_stage t pn r rnd s) = ST_START \<Longrightarrow> decrease_stage t pn r rnd s = s"
  by (simp add: decrease_stage_def MaybeEnterOrExitDecrease_idle)

lemma stage_modes:
  "b_mode (sample_stage r upd bw s) = b_mode s" "b_mode (growth_stage upd s) = b_mode s" "b_mode (cycle_stage t s) = b_mode s"
  by (simp_all add: sample_stage_def growth_stage_def cycle_stage_def UpdateMaxBw_def CheckIfFullBandwidthReached_def
      UpdateGainCyclePhase_def Let_def)

lemma MaybeExitStartupOrDrain_mode:
  "b_mode (MaybeExitStartupOrDrain t rnd s) =
     (if b_mode s = ST_START \<and> b_is_at_full_bandwidth s \<or> b_mode s = ST_DRAIN
      then if b_bytes_in_flight s \<le> GetTargetCongestionWindow (1, 0) s then ST_INCREASE else ST_DRAIN
      else b_mode s)"
proof -
  have "GetTargetCongestionWindow (1, 0) (s\<lparr>b_mode := m, b_pacing_gain := g\<rparr>) = GetTargetCongestionWindow (1, 0) s" for m g
    by (simp add: GetTargetCongestionWindow_def BandwidthEstimate_def GetMinRtt_def Let_def)
  then show ?thesis by (simp add: MaybeExitStartupOrDrain_def Let_def)
qed

lemma CalculatePacingRate_keeps:
  assumes "CalculatePacingRate s = Some s'"
  shows "b_mode s' = b_mode s" "b_max_bandwidth s' = b_max_bandwidth s" "b_pacing_gain s' = b_pacing_gain s" "b_min_bw s' = b_min_bw s"
  using assms by (auto simp: CalculatePacingRate_eq report_rate_def split: option.splits)

lemma CalculatePacingRate_floor:
  assumes "CalculatePacingRate s = Some s'" "b_mode s' = ST_INCREASE" "dyadic_is_one (b_pacing_gain s')"
  shows "b_min_bw s' \<le> b_pacing_rate s'"
  using assms by (auto simp: CalculatePacingRate_eq report_rate_def floored_def split: option.splits if_splits)

lemma sample_stage_keeps:
  "b_is_at_full_bandwidth (sample_stage r upd bw s) = b_is_at_full_bandwidth s"
  "b_num_startup_rtts (sample_stage r upd bw s) = b_num_startup_rtts s"
  "b_rounds_without_bandwidth_gain (sample_stage r upd bw s) = b_rounds_without_bandwidth_gain s"
  "b_bandwidth_at_last_round (sample_stage r upd bw s) = b_bandwidth_at_last_round s"
  by (simp_all add: sample_stage_def UpdateMaxBw_def Let_def)

lemma growth_stage_keeps: "b_max_bandwidth (growth_stage upd s) = b_max_bandwidth s"
  by (simp add: growth_stage_def CheckIfFullBandwidthReached_def Let_def)

lemma exit_stage_keeps:
  "b_max_bandwidth (MaybeExitStartupOrDrain t rnd s) = b_max_bandwidth s" "b_max_bandwidth (cycle_stage t s) = b_max_bandwidth s"
  by (simp_all add: MaybeExitStartupOrDrain_def EnterIncreaseMode_def cycle_stage_def UpdateGainCyclePhase_def Let_def)

lemma growth_stage_full:
  assumes "upd" "b_num_startup_rtts s \<le> b_rounds_without_bandwidth_gain s + 1"
    "BandwidthEstimate s < bw_scale kStartupGrowthTarget (b_bandwidth_at_last_round s)"
  shows "b_is_at_full_bandwidth (growth_stage upd s)"
  using assms by (simp add: growth_stage_def CheckIfFullBandwidthReached_def Let_def)

section \<open>Properties of the mode machine\<close>

text \<open>The edges of the mode machine.\<close>

fun mode_next :: "bbr_mode \<Rightarrow> bbr_mode list" where
  "mode_next ST_START = [ST_START, ST_DRAIN, ST_INCREASE, ST_DECREASE]"
| "mode_next ST_DRAIN = [ST_DRAIN, ST_INCREASE, ST_DECREASE]"
| "mode_next ST_INCREASE = [ST_INCREASE, ST_DECREASE]"
| "mode_next ST_DECREASE = [ST_DECREASE, ST_INCREASE]"

lemma mode_next_iff:
  "m' \<in> set (mode_next m) \<longleftrightarrow> (m' = ST_START \<longrightarrow> m = ST_START) \<and> (m' = ST_DRAIN \<longrightarrow> m \<in> {ST_START, ST_DRAIN})"
  by (cases m; cases m'; simp)

text \<open>
  C18. The mode changes only along the edges of the machine: start-up is never entered again once it
  is left, and drain is only entered from start-up.
\<close>

theorem bbr_mode_edges:
  assumes "bbr_OnAck t pn rnd s = Some s'"
  shows "b_mode s' \<in> set (mode_next (b_mode s))"
proof (cases "b_last_ack_seq s < pn")
  case False
  then show ?thesis unfolding mode_next_iff using assms bbr_OnAck_stale [of pn s t rnd] by auto
next
  case True
  obtain s4 upd bw where m: "bbr_machine s4 = bbr_machine s" and
    st: "(if b_round_trip_count s = 0 then CalculatePacingRate s4 else after_sample t pn (b_round_trip_count s) upd bw rnd s4) = Some s'"
    by (rule bbr_OnAck_stages [OF assms True])
  note [simp] = bbr_machine_fields(1) [OF m]
  show ?thesis
  proof (cases "b_round_trip_count s = 0")
    case True
    then show ?thesis unfolding mode_next_iff using st CalculatePacingRate_keeps(1) [of s4 s'] by simp
  next
    case False
    then show ?thesis unfolding mode_next_iff
      using st CalculatePacingRate_keeps(1) decrease_stage_mode [of t pn "b_round_trip_count s" rnd s4]
      by (auto simp: after_sample_stages stage_modes MaybeExitStartupOrDrain_mode split: if_splits)
  qed
qed

text \<open>
  C19. Leaving start-up: once the first round trip is over, an acknowledgement that ends the third
  round trip in a row without growth either raises the bandwidth estimate to 1.25 times its last
  growth, or ends the start-up mode. It holds in every state that satisfies the invariant, and the
  acknowledgement always completes there.
\<close>

theorem bbr_startup_exit:
  assumes "bbr_inv s" "time_ok t" "b_last_ack_seq s < pn" "pn \<le> b_last_sent_packet s" "b_current_round_trip_end s < pn"
    "b_round_trip_count s \<noteq> 0" "b_num_startup_rtts s \<le> b_rounds_without_bandwidth_gain s + 1"
  shows "\<exists>s'. bbr_OnAck t pn rnd s = Some s' \<and>
    (bw_scale kStartupGrowthTarget (b_bandwidth_at_last_round s) \<le> BandwidthEstimate s' \<or> b_mode s' \<noteq> ST_START)"
proof -
  obtain s' where s': "bbr_OnAck t pn rnd s = Some s'" using bbr_OnAck_inv [OF assms(1-4), of rnd] by metis
  have False if start: "b_mode s' = ST_START"
    and slow: "BandwidthEstimate s' < bw_scale kStartupGrowthTarget (b_bandwidth_at_last_round s)"
  proof -
    obtain s4 upd bw where m: "bbr_machine s4 = bbr_machine s" and upd: upd and
      st: "after_sample t pn (b_round_trip_count s) upd bw rnd s4 = Some s'"
      using bbr_OnAck_stages [OF s' assms(3)] assms(5,6) by metis
    let ?d = "decrease_stage t pn (b_round_trip_count s) rnd s4"
    let ?b = "sample_stage (b_round_trip_count s) upd bw ?d"
    let ?g = "growth_stage upd ?b"
    have c: "CalculatePacingRate (cycle_stage t (MaybeExitStartupOrDrain t rnd ?g)) = Some s'"
      using st by (simp add: after_sample_stages)
    have "b_mode (MaybeExitStartupOrDrain t rnd ?g) = ST_START" using start CalculatePacingRate_keeps(1) [OF c] by (simp add: stage_modes)
    then have g: "b_mode ?g = ST_START" "\<not> b_is_at_full_bandwidth ?g"
      by (simp_all add: MaybeExitStartupOrDrain_mode split: if_splits)
    then have "b_mode ?d = ST_START" by (simp add: stage_modes)
    moreover from this have "b_mode s4 = ST_START" using decrease_stage_mode [of t pn "b_round_trip_count s" rnd s4] by auto
    ultimately have d: "?d = s4" by (rule decrease_stage_idle [rotated])
    have "BandwidthEstimate ?b = BandwidthEstimate s'"
      using CalculatePacingRate_keeps(2) [OF c] by (simp add: BandwidthEstimate_def exit_stage_keeps growth_stage_keeps)
    then have "b_is_at_full_bandwidth ?g"
      using assms(7) slow upd bbr_machine_fields [OF m] by (intro growth_stage_full) (simp_all add: sample_stage_keeps d)
    then show False using g(2) by simp
  qed
  then show ?thesis using s' by fastforce
qed

lemma decrease_drained:
  assumes "bbr_inv s" "time_ok t" "b_last_ack_seq s < pn" "pn \<le> b_last_sent_packet s"
    "b_mode s = ST_DECREASE" "b_round_trip_count s \<noteq> 0"
    "pm_sum pp_bytes (filter (\<lambda>(k, _). pn < k) (b_sent_packets_map s)) \<le> b_bdp s"
  obtains s' where "bbr_OnAck t pn rnd s = Some s'" "b_mode s' = ST_INCREASE"
proof -
  obtain s' where s': "bbr_OnAck t pn rnd s = Some s'"
    using bbr_OnAck_inv [OF assms(1-4), of rnd] by metis
  obtain s4 upd bw where m: "bbr_machine s4 = bbr_machine s" and
    fl: "b_bytes_in_flight s4 = snd (drop_acked pn (b_sent_packets_map s) (b_bytes_in_flight s))" and
    st: "after_sample t pn (b_round_trip_count s) upd bw rnd s4 = Some s'"
    using bbr_OnAck_stages [OF s'(1) assms(3)] assms(6) by metis
  have "b_bytes_in_flight s4 \<le> b_bdp s4"
    using fl drop_acked_eq [of "b_sent_packets_map s" "b_bytes_in_flight s" pn] assms(1,7) bbr_machine_fields(5) [OF m]
    by (simp add: bbr_inv_def flight_inv_def)
  then have "b_mode s' = ST_INCREASE"
    using st CalculatePacingRate_keeps(1) decrease_stage_drained [of s4] bbr_machine_fields(1) [OF m] assms(5)
    by (simp add: after_sample_stages stage_modes MaybeExitStartupOrDrain_mode)
  then show ?thesis using that s' by blast
qed

text \<open>
  C20. Leaving the decrease mode: an acknowledgement that brings the bytes in flight down to the
  bandwidth-delay product recorded on entry completes and returns the sender to the increase mode.
  It holds in every state that satisfies the invariant.
\<close>

theorem bbr_decrease_exit:
  assumes "bbr_inv s" "time_ok t" "b_last_ack_seq s < pn" "pn \<le> b_last_sent_packet s"
    "b_mode s = ST_DECREASE" "b_round_trip_count s \<noteq> 0"
    "pm_sum pp_bytes (filter (\<lambda>(k, _). pn < k) (b_sent_packets_map s)) \<le> b_bdp s"
  shows "\<exists>s'. bbr_OnAck t pn rnd s = Some s' \<and> b_mode s' = ST_INCREASE"
  using decrease_drained [OF assms, of rnd] by blast

text \<open>
  C21. The pacing rate never falls below the configured minimum bandwidth while the sender cruises,
  in the increase mode with a gain of one.
\<close>

theorem bbr_rate_floor:
  assumes "bbr_OnAck t pn rnd s = Some s'" "b_last_ack_seq s < pn" "b_mode s' = ST_INCREASE" "dyadic_is_one (b_pacing_gain s')"
  shows "b_min_bw s' \<le> b_pacing_rate s'"
proof -
  obtain s6 where "CalculatePacingRate s6 = Some s'"
    using bbr_OnAck_stages [OF assms(1,2)] by (metis after_sample_stages)
  then show ?thesis using CalculatePacingRate_floor assms(3,4) by blast
qed

text \<open>
  C17. In every reachable state the pacing gain is the one of the mode, at an offset inside the gain
  cycle; the three bandwidth estimates are ordered and non-negative; the packets in flight and the
  packets of the sampler all lie above the largest acknowledged number, so that neither map keeps
  entries of packets that were acknowledged or lost.
\<close>

theorem bbr_reachable_invariant:
  assumes "bbr_reachable s"
  shows "b_pacing_gain s = (case b_mode s of ST_START \<Rightarrow> kDefaultHighGain | ST_DRAIN \<Rightarrow> (1, 1)
           | ST_INCREASE \<Rightarrow> kPacingGain ! b_cycle_current_offset s | ST_DECREASE \<Rightarrow> kDecreasePacingGain) \<and>
    b_cycle_current_offset s < kGainCycleLength \<and>
    0 \<le> GetThirdBest (b_max_bandwidth s) \<and> GetThirdBest (b_max_bandwidth s) \<le> GetSecondBest (b_max_bandwidth s) \<and>
    GetSecondBest (b_max_bandwidth s) \<le> BandwidthEstimate s \<and>
    (\<forall>k\<in>fst ` set (b_sent_packets_map s) \<union> fst ` set (packet_infos (b_sampler s)).
       b_last_ack_seq s < k \<and> k \<le> b_last_sent_packet s)"
proof -
  note inv = bbr_reachable_inv [OF assms]
  have f: "filter_inv s" using inv by (simp add: bbr_inv_def)
  then have "0 \<le> GetThirdBest (b_max_bandwidth s)"
    by (auto simp: filter_inv_def wf_samples_def GetThirdBest_def Let_def case_prod_unfold)
  then show ?thesis using inv f
    by (auto simp: bbr_inv_def gain_inv_def filter_inv_def flight_inv_def smp_inv_def BandwidthEstimate_def Let_def
        split: bbr_mode.splits)
qed

lemma bbr_run_reachable:
  "bbr_reachable s \<Longrightarrow> flight_sim a s \<Longrightarrow> fa_run_ok ops a \<Longrightarrow> bbr_run ops s = Some s' \<Longrightarrow> bbr_reachable s'"
proof (induction ops arbitrary: a s)
  case (Cons op ops)
  obtain s1 where s1: "bbr_step op s = Some s1" "flight_sim (fa_step op a) s1"
    using flight_sim_step [of a s op] Cons.prems(2,3) by auto
  have "bbr_reachable s1"
    using s1(1) Cons.prems(1-3) bbr_reachable.sent [of s] bbr_reachable.acked [of s]
    by (cases op) (auto simp: flight_sim_def)
  then show ?case using Cons.IH [OF _ s1(2)] Cons.prems(3,4) s1(1) by simp
qed simp

text \<open>Sample states: in the decrease mode, at the end of start-up, and cruising.\<close>

definition sample_packets :: "per_packet packet_map" where
  "sample_packets = [(4, \<lparr>pp_sent_ts = 20000, pp_bytes = 1000\<rparr>), (5, \<lparr>pp_sent_ts = 21000, pp_bytes = 1000\<rparr>)]"

definition sample_bbr :: "u64 \<Rightarrow> bbr_sender" where
  "sample_bbr round = (MyBbrSenderV5 5000000 False False)\<lparr>b_last_sent_packet := 5, b_last_ack_seq := 3,
     b_current_round_trip_end := 3, b_round_trip_count := round, b_min_rtt := 5000, b_sent_packets_map := sample_packets,
     b_bytes_in_flight := 2000, b_bdp := 1000, b_rounds_without_bandwidth_gain := 2\<rparr>"

definition decrease_state :: bbr_sender where
  "decrease_state = (sample_bbr 3)\<lparr>b_mode := ST_DECREASE, b_pacing_gain := kDecreasePacingGain\<rparr>"

definition cruising_state :: bbr_sender where
  "cruising_state = (sample_bbr 0)\<lparr>b_mode := ST_INCREASE, b_pacing_gain := (1, 0), b_cycle_current_offset := 3,
     b_sent_packets_map := [], b_bytes_in_flight := 0, b_min_rtt := 0\<rparr>"

lemma sample_bbr_inv: "bbr_inv (sample_bbr round)"
proof -
  have init: "bbr_inv (MyBbrSenderV5 5000000 False False)" by (rule bbr_inv_init)
  let ?s = "sample_bbr round" and ?i = "MyBbrSenderV5 5000000 False False"
  have "flight_inv ?s"
    by (simp add: flight_inv_def sample_bbr_def sample_packets_def time_ok_def)
  moreover have "smp_inv ?s" using init
    by (simp add: bbr_inv_def smp_inv_def sample_bbr_def) (simp add: MyBbrSenderV5_def EnterStartUpMode_def MySampler_def)
  moreover have "modes_inv ?s" using init
    by (simp add: bbr_inv_split modes_inv_def gain_inv_def filter_inv_def rtt_inv_def sample_bbr_def delta_ok_def cong: bbr_mode.case_cong)
  ultimately show ?thesis by (simp add: bbr_inv_split)
qed

lemma decrease_state_inv: "bbr_inv decrease_state"
  using sample_bbr_inv [of 3]
  by (simp add: decrease_state_def bbr_inv_def flight_inv_def smp_inv_def gain_inv_def filter_inv_def rtt_inv_def)

theorem bbr_decrease_exit_witness:
  "\<exists>s'. bbr_OnAck 40000 4 5 decrease_state = Some s' \<and> b_mode s' = ST_INCREASE"
  using bbr_decrease_exit [OF decrease_state_inv, of 40000 4 5]
  by (simp add: time_ok_def decrease_state_def sample_bbr_def sample_packets_def)

theorem bbr_mode_edges_witness:
  "\<exists>s'. bbr_OnAck 40000 4 5 decrease_state = Some s' \<and> b_mode s' \<in> set (mode_next ST_DECREASE)"
proof -
  obtain s' where s': "bbr_OnAck 40000 4 5 decrease_state = Some s'"
    using decrease_drained [OF decrease_state_inv, of 40000 4 5]
    by (auto simp add: time_ok_def decrease_state_def sample_bbr_def sample_packets_def)
  then show ?thesis using bbr_mode_edges [OF s'] by (simp add: decrease_state_def)
qed

theorem bbr_startup_exit_witness:
  "b_mode (sample_bbr 3) = ST_START \<and> (\<exists>s'. bbr_OnAck 40000 4 5 (sample_bbr 3) = Some s' \<and>
    (bw_scale kStartupGrowthTarget (b_bandwidth_at_last_round (sample_bbr 3)) \<le> BandwidthEstimate s' \<or> b_mode s' \<noteq> ST_START))"
  using bbr_startup_exit [OF sample_bbr_inv [of 3], of 40000 4 5]
  by (simp add: time_ok_def sample_bbr_def) (simp add: MyBbrSenderV5_def EnterStartUpMode_def kRoundTripsWithoutGrowthBeforeExitingStartup_def)

theorem bbr_rate_floor_witness:
  "\<exists>s'. bbr_OnAck 40000 4 5 cruising_state = Some s' \<and> 5000000 \<le> b_pacing_rate s'"
proof -
  have "case bbr_OnAck 40000 4 5 cruising_state of None \<Rightarrow> False
    | Some s' \<Rightarrow> b_mode s' = ST_INCREASE \<and> b_pacing_gain s' = (1, 0) \<and> b_min_bw s' = 5000000" by code_simp
  then obtain s' where "bbr_OnAck 40000 4 5 cruising_state = Some s'"
    "b_mode s' = ST_INCREASE \<and> b_pacing_gain s' = (1, 0) \<and> b_min_bw s' = 5000000"
    by (auto split: option.splits)
  then show ?thesis using bbr_rate_floor [of 40000 4 5 cruising_state s']
    by (simp add: dyadic_is_one_def cruising_state_def sample_bbr_def)
qed

theorem bbr_reachable_invariant_witness:
  "\<exists>s. bbr_run [OpSent 1000 1 1200, OpSent 2000 2 800, OpAck 9000 1 5] (MyBbrSenderV5 500000 False False) = Some s \<and>
     (\<forall>k\<in>fst ` set (packet_infos (b_sampler s)). b_last_ack_seq s < k \<and> k \<le> b_last_sent_packet s)"
proof -
  let ?ops = "[OpSent 1000 1 1200, OpSent 2000 2 800, OpAck 9000 1 5]" and ?i = "MyBbrSenderV5 500000 False False"
  have ok: "fa_run_ok ?ops fa_init" by (simp add: fa_init_def time_ok_def)
  obtain s where s: "bbr_run ?ops ?i = Some s" using flight_sim_run [OF flight_sim_init ok] by blast
  have "bbr_reachable s" by (rule bbr_run_reachable [OF bbr_reachable.init flight_sim_init ok s])
  from s bbr_reachable_invariant [OF this] show ?thesis by blast
qed

section \<open>Reports of the pacing rate\<close>

definition bbr_reports :: "bbr_sender \<Rightarrow> bandwidth \<times> bbr_event list \<times> bool \<times> bool" where
  "bbr_reports s = (b_pacing_rate s, b_events s, b_has_observer s, b_has_trace s)"

lemma reports_rtt:
  "bbr_reports (UpdateMinRtt now rtt s) = bbr_reports s" "bbr_reports (UpdateSmoothRtt now rtt s) = bbr_reports s"
  "bbr_reports (s\<lparr>b_min_rtt_in_decrease := a, b_min_rtt_timestamp_in_decrease := b\<rparr>) = bbr_reports s"
  "bbr_reports (s\<lparr>b_sent_packets_map := m, b_bytes_in_flight := f\<rparr>) = bbr_reports s"
  by (simp_all add: UpdateMinRtt_def UpdateSmoothRtt_def bbr_reports_def Let_def)

lemma reports_UpdateRttAndInflight: "bbr_reports (UpdateRttAndInflight now pn s) = bbr_reports s"
  by (simp add: UpdateRttAndInflight_def Let_def reports_rtt split: option.splits prod.splits)

lemma reports_steps:
  "bbr_reports (EnterIncreaseMode now rnd s) = bbr_reports s"
  "bbr_reports (EnterDecrease ex r s) = bbr_reports s"
  "bbr_reports (snd (CheckIfCongestion pn s)) = bbr_reports s"
  "bbr_reports (UpdateMaxBw s) = bbr_reports s"
  "bbr_reports (CheckIfFullBandwidthReached s) = bbr_reports s"
  "bbr_reports (UpdateGainCyclePhase now s) = bbr_reports s"
  "bbr_reports (s\<lparr>b_exit_probe_rtt_at := t\<rparr>) = bbr_reports s"
  "bbr_reports (s\<lparr>b_mode := mo, b_pacing_gain := g\<rparr>) = bbr_reports s"
  "bbr_reports (s\<lparr>b_max_bandwidth := f\<rparr>) = bbr_reports s"
  "bbr_reports (snd (UpdateRoundTripCounter n s)) = bbr_reports s"
  by (simp_all add: bbr_reports_def EnterIncreaseMode_def EnterDecrease_def CheckIfCongestion_def UpdateMaxBw_def
      CheckIfFullBandwidthReached_def UpdateGainCyclePhase_def UpdateRoundTripCounter_def Let_def)

lemma reports_ExitDecrease: "bbr_reports (ExitDecrease now rnd s) = bbr_reports s"
  by (simp add: ExitDecrease_def Let_def reports_steps) (simp add: bbr_reports_def)

lemma reports_modes:
  "bbr_reports (MaybeExitStartupOrDrain now rnd s) = bbr_reports s"
  "bbr_reports (MaybeEnterOrExitDecrease now ex reason r rnd s) = bbr_reports s"
  by (simp_all add: MaybeExitStartupOrDrain_def MaybeEnterOrExitDecrease_def Let_def reports_steps reports_ExitDecrease)

lemma reports_stages:
  "bbr_reports (decrease_stage t pn r rnd s) = bbr_reports s" "bbr_reports (sample_stage r upd bw s) = bbr_reports s"
  "bbr_reports (growth_stage upd s) = bbr_reports s" "bbr_reports (cycle_stage t s) = bbr_reports s"
  by (simp_all add: decrease_stage_def sample_stage_def growth_stage_def cycle_stage_def case_prod_unfold Let_def
      reports_modes reports_steps)

lemma report_rate_effect:
  "b_pacing_rate (report_rate lr s) = b_pacing_rate s" "GetStateString (report_rate lr s) = GetStateString s"
  "b_events (report_rate lr s) = b_events s @ (if b_pacing_rate s = lr then []
     else (if b_has_trace s then [TraceState (to_u64 (bw_ToKBitsPerSecond (b_pacing_rate s) * 1000)) (GetStateString s)] else [])
        @ (if b_has_observer s then [OnBandwidthUpdate] else []))"
  by (simp_all add: report_rate_def GetStateString_def cong: bbr_mode.case_cong)

lemma CalculatePacingRate_reports:
  assumes "CalculatePacingRate s = Some s'"
  shows "b_events s' = b_events s @ (if b_pacing_rate s' = b_pacing_rate s then []
     else (if b_has_trace s then [TraceState (to_u64 (bw_ToKBitsPerSecond (b_pacing_rate s') * 1000)) (GetStateString s')] else [])
        @ (if b_has_observer s then [OnBandwidthUpdate] else []))"
proof -
  obtain x y where "s' = report_rate (b_pacing_rate s) (s\<lparr>b_reference_rate := x, b_pacing_rate := y\<rparr>)"
    using assms by (auto simp: CalculatePacingRate_eq split: option.splits)
  then show ?thesis by (simp add: report_rate_effect)
qed

lemma bbr_OnAck_calculates:
  assumes "bbr_OnAck t pn rnd s = Some s'" "b_last_ack_seq s < pn"
  obtains s6 where "CalculatePacingRate s6 = Some s'" "bbr_reports s6 = bbr_reports s"
proof -
  define s1 where "s1 = s\<lparr>b_sampler := lose_range (b_last_ack_seq s + 1) pn (b_sampler s), b_last_ack_seq := pn\<rparr>"
  define s2 where "s2 = UpdateRttAndInflight t pn s1"
  define s3 where "s3 = snd (UpdateRoundTripCounter (b_last_ack_seq s2) s2)"
  have r: "bbr_reports (s3\<lparr>b_sampler := smp\<rparr>) = bbr_reports s" for smp
  proof -
    have "bbr_reports s3 = bbr_reports s1" by (simp add: s3_def s2_def reports_steps reports_UpdateRttAndInflight)
    then show ?thesis by (simp add: s1_def bbr_reports_def)
  qed
  have "\<exists>smp upd bw r. CalculatePacingRate (s3\<lparr>b_sampler := smp\<rparr>) = Some s' \<or> after_sample t pn r upd bw rnd (s3\<lparr>b_sampler := smp\<rparr>) = Some s'"
    using assms unfolding bbr_OnAck_def Let_def s3_def s2_def s1_def case_prod_unfold
    by (auto split: option.splits if_splits)
  then show ?thesis using that r by (auto simp: after_sample_stages reports_stages reports_modes)
qed

text \<open>
  C22. An acknowledgement reports the pacing rate exactly when it changes: the trace gets the new rate
  in whole kilobits and the name of the new mode, the observer is notified after it, and each of them
  only when it is registered. An acknowledgement that is not newer than the last one reports nothing.
\<close>

theorem bbr_rate_reported:
  assumes "bbr_OnAck t pn rnd s = Some s'"
  shows "b_events s' = b_events s @ (if b_pacing_rate s' = b_pacing_rate s then []
     else (if b_has_trace s then [TraceState (to_u64 (bw_ToKBitsPerSecond (b_pacing_rate s') * 1000)) (GetStateString s')] else [])
        @ (if b_has_observer s then [OnBandwidthUpdate] else []))"
proof (cases "b_last_ack_seq s < pn")
  case True
  obtain s6 where "CalculatePacingRate s6 = Some s'" "bbr_reports s6 = bbr_reports s"
    using bbr_OnAck_calculates [OF assms True] .
  then show ?thesis using CalculatePacingRate_reports [of s6 s'] by (simp add: bbr_reports_def)
next
  case False
  then show ?thesis using assms bbr_OnAck_stale [of pn s t rnd] by simp
qed

theorem bbr_rate_reported_witness:
  "\<exists>s'. bbr_OnAck 40000 4 5 (cruising_state\<lparr>b_has_observer := True\<rparr>) = Some s' \<and> b_events s' = [OnBandwidthUpdate]"
proof -
  have "case bbr_OnAck 40000 4 5 (cruising_state\<lparr>b_has_observer := True\<rparr>) of None \<Rightarrow> False | Some s' \<Rightarrow> b_pacing_rate s' = 5000000"
    by code_simp
  then obtain s' where "bbr_OnAck 40000 4 5 (cruising_state\<lparr>b_has_observer := True\<rparr>) = Some s'" "b_pacing_rate s' = 5000000"
    by (auto split: option.splits)
  then show ?thesis using bbr_rate_reported [of 40000 4 5 "cruising_state\<lparr>b_has_observer := True\<rparr>" s']
    by (simp add: cruising_state_def sample_bbr_def MyBbrSenderV5_def EnterStartUpMode_def)
qed

end
