(* ===== verification/Pacing_Sender.thy ===== *)
theory Pacing_Sender
  imports Bbr_Sender_V5
begin

text \<open>
  MyPacingSender (my\_quic\_2/libquic/net/my\_pacing\_sender.cc): it spreads the packets of a
  CongestionController over time, at the controller's pacing rate or a configured maximum. The
  abstract class of my\_controller\_interface.h is the record \<open>congestion_controller\<close> of its virtual
  functions on a state of the controller's own; MyBbrSenderV5 is one. \<open>None\<close> in \<open>mp_sender\<close> is the
  null pointer, and the result \<open>None\<close> of an acknowledgement is that of the controller.
\<close>

section \<open>State and operations\<close>

record 'c congestion_controller =
  cc_OnAck :: "quic_time \<Rightarrow> u64 \<Rightarrow> u64 \<Rightarrow> 'c \<Rightarrow> 'c option"
  cc_OnPacketSent :: "quic_time \<Rightarrow> u64 \<Rightarrow> u64 \<Rightarrow> 'c \<Rightarrow> 'c"
  cc_PaceRate :: "'c \<Rightarrow> bandwidth"
  cc_GetReferenceRate :: "'c \<Rightarrow> bandwidth"
  cc_ShouldSendProbePacket :: "'c \<Rightarrow> bool"

definition bbr_controller :: "bbr_sender congestion_controller" where
  "bbr_controller = \<lparr>cc_OnAck = bbr_OnAck, cc_OnPacketSent = bbr_OnPacketSent, cc_PaceRate = PaceRate,
     cc_GetReferenceRate = GetReferenceRate, cc_ShouldSendProbePacket = ShouldSendProbePacket\<rparr>"

record 'c pacing_sender =
  mp_ideal_next_packet_send_time :: quic_time
  mp_alarm_granularity :: quic_delta
  mp_sender :: "'c option"
  mp_max_pacing_rate :: bandwidth

definition MyPacingSender :: "'c pacing_sender" where
  "MyPacingSender = \<lparr>mp_ideal_next_packet_send_time = 0, mp_alarm_granularity = delta_FromMilliseconds 1,
     mp_sender = None, mp_max_pacing_rate = 0\<rparr>"

definition set_sender :: "'c option \<Rightarrow> 'c pacing_sender \<Rightarrow> 'c pacing_sender" where
  "set_sender sender p = p\<lparr>mp_sender := sender\<rparr>"

definition set_max_pacing_rate :: "bandwidth \<Rightarrow> 'c pacing_sender \<Rightarrow> 'c pacing_sender" where
  "set_max_pacing_rate max_bandwidth p = p\<lparr>mp_max_pacing_rate := max_bandwidth\<rparr>"

definition capped_rate :: "bandwidth \<Rightarrow> bandwidth \<Rightarrow> bandwidth" where
  "capped_rate max_pacing_rate pacing_rate =
     (if max_pacing_rate \<noteq> 0 then if pacing_rate > max_pacing_rate then max_pacing_rate else pacing_rate else pacing_rate)"

definition mp_OnPacketSent :: "'c congestion_controller \<Rightarrow> quic_time \<Rightarrow> u64 \<Rightarrow> u64 \<Rightarrow> 'c pacing_sender \<Rightarrow> 'c pacing_sender" where
  "mp_OnPacketSent cc now packet_number bytes p =
     (case mp_sender p of None \<Rightarrow> p
      | Some sender \<Rightarrow>
          let sender = cc_OnPacketSent cc now packet_number bytes sender;
              pacing_rate = capped_rate (mp_max_pacing_rate p) (cc_PaceRate cc sender);
              delay = bw_TransferTime pacing_rate bytes
          in p\<lparr>mp_sender := Some sender,
               mp_ideal_next_packet_send_time := max (mp_ideal_next_packet_send_time p + delay) (now + delay)\<rparr>)"

definition mp_OnCongestionEvent ::
  "'c congestion_controller \<Rightarrow> quic_time \<Rightarrow> u64 \<Rightarrow> u64 \<Rightarrow> 'c pacing_sender \<Rightarrow> 'c pacing_sender option" where
  "mp_OnCongestionEvent cc now packet_number rand p =
     (case mp_sender p of None \<Rightarrow> Some p
      | Some sender \<Rightarrow> (case cc_OnAck cc now packet_number rand sender of
          None \<Rightarrow> None | Some sender \<Rightarrow> Some (p\<lparr>mp_sender := Some sender\<rparr>)))"

definition mp_TimeUntilSend :: "quic_time \<Rightarrow> 'c pacing_sender \<Rightarrow> quic_delta" where
  "mp_TimeUntilSend now p =
     (if mp_ideal_next_packet_send_time p > now + mp_alarm_granularity p then mp_ideal_next_packet_send_time p - now else 0)"

section \<open>Runs\<close>

text \<open>A packet is sent only when TimeUntilSend is zero; acknowledgements arrive at any time.\<close>

datatype pacing_op = Send quic_time u64 u64 | Ack quic_time u64 u64

fun paced_run :: "'c congestion_controller \<Rightarrow> pacing_op list \<Rightarrow> 'c pacing_sender \<Rightarrow> 'c pacing_sender option" where
  "paced_run cc [] p = Some p"
| "paced_run cc (Send t n b # ops) p = (if mp_TimeUntilSend t p = 0 then paced_run cc ops (mp_OnPacketSent cc t n b p) else None)"
| "paced_run cc (Ack t n r # ops) p = (case mp_OnCongestionEvent cc t n r p of None \<Rightarrow> None | Some p \<Rightarrow> paced_run cc ops p)"

text \<open>The rates at which the packets of a run are paced.\<close>

fun send_rates :: "'c congestion_controller \<Rightarrow> pacing_op list \<Rightarrow> 'c pacing_sender \<Rightarrow> bandwidth list" where
  "send_rates cc [] p = []"
| "send_rates cc (Send t n b # ops) p =
     (case mp_sender p of None \<Rightarrow> [] | Some c \<Rightarrow> [capped_rate (mp_max_pacing_rate p) (cc_PaceRate cc (cc_OnPacketSent cc t n b c))]) @
     send_rates cc ops (mp_OnPacketSent cc t n b p)"
| "send_rates cc (Ack t n r # ops) p = (case mp_OnCongestionEvent cc t n r p of None \<Rightarrow> [] | Some p \<Rightarrow> send_rates cc ops p)"

definition sent_bytes :: "pacing_op list \<Rightarrow> nat list" where
  "sent_bytes ops = concat (map (\<lambda>op. case op of Send t n b \<Rightarrow> [unat b] | Ack t n r \<Rightarrow> []) ops)"

lemma sent_bytes_simps [simp]:
  "sent_bytes [] = []" "sent_bytes (Send t n b # ops) = unat b # sent_bytes ops" "sent_bytes (Ack t n r # ops) = sent_bytes ops"
  by (simp_all add: sent_bytes_def)

lemma TransferTime_bound:
  assumes "0 < rate" "rate \<le> R" "R < 2 ^ 63" "unat b * 8000000 < 2 ^ 63"
  shows "int (unat b) * 8000000 \<le> R * (bw_TransferTime rate b + 1)"
proof -
  have 1: "unat (b * 8 * kNumMicrosPerSecond) = unat b * 8000000"
    using assms(4) by (simp add: kNumMicrosPerSecond_def unat_word_ariths)
  have 2: "unat (to_u64 rate) = nat rate" using assms(1-3) by (simp add: to_u64_def unat_eq_nat_uint uint_word_of_int)
  have q: "unat (b * 8 * kNumMicrosPerSecond div to_u64 rate) = unat b * 8000000 div nat rate" by (simp add: unat_div 1 2)
  moreover have "unat b * 8000000 div nat rate < 2 ^ 63" using assms(4) by (meson div_le_dividend le_less_trans)
  ultimately have "to_i64 (b * 8 * kNumMicrosPerSecond div to_u64 rate) = int (unat b * 8000000 div nat rate)"
    using to_i64_small [of "b * 8 * kNumMicrosPerSecond div to_u64 rate"] by presburger
  then have "bw_TransferTime rate b = int (unat b) * 8000000 div rate"
    using assms(1) by (simp add: bw_TransferTime_def zdiv_int)
  moreover have "int (unat b) * 8000000 \<le> rate * (int (unat b) * 8000000 div rate + 1)"
    using assms(1) by (smt (verit) mult.commute pos_mod_bound div_mult_mod_eq distrib_left mult_cancel_left1)
  moreover have "rate * (int (unat b) * 8000000 div rate + 1) \<le> R * (int (unat b) * 8000000 div rate + 1)"
    using assms(1,2) by (intro mult_right_mono) (simp_all add: pos_imp_zdiv_nonneg_iff add_nonneg_nonneg)
  ultimately show ?thesis by (metis order_trans)
qed

lemma mp_step:
  "mp_sender (mp_OnPacketSent cc t n b p) = None \<longleftrightarrow> mp_sender p = None"
  "mp_alarm_granularity (mp_OnPacketSent cc t n b p) = mp_alarm_granularity p"
  "mp_OnCongestionEvent cc t n r p = Some p' \<Longrightarrow> mp_sender p' = None \<longleftrightarrow> mp_sender p = None"
  "mp_OnCongestionEvent cc t n r p = Some p' \<Longrightarrow> mp_alarm_granularity p' = mp_alarm_granularity p"
  "mp_OnCongestionEvent cc t n r p = Some p' \<Longrightarrow> mp_ideal_next_packet_send_time p' = mp_ideal_next_packet_send_time p"
  by (auto simp: mp_OnPacketSent_def mp_OnCongestionEvent_def Let_def split: option.splits)

lemma run_ideal_time:
  assumes "paced_run cc ops p = Some p'" "mp_sender p \<noteq> None" "\<forall>r\<in>set (send_rates cc ops p). 0 < r \<and> r \<le> R"
    "R < 2 ^ 63" "\<forall>b\<in>set (sent_bytes ops). b * 8000000 < 2 ^ 63"
  shows "8000000 * int (sum_list (sent_bytes ops)) \<le>
      R * (mp_ideal_next_packet_send_time p' - mp_ideal_next_packet_send_time p + int (length (sent_bytes ops))) \<and>
    mp_sender p' \<noteq> None \<and> mp_alarm_granularity p' = mp_alarm_granularity p"
  using assms
proof (induction cc ops p rule: paced_run.induct)
  case (2 cc t n b ops p)
  let ?p = "mp_OnPacketSent cc t n b p"
  obtain c where c: "mp_sender p = Some c" using "2.prems"(2) by auto
  define rate where "rate = capped_rate (mp_max_pacing_rate p) (cc_PaceRate cc (cc_OnPacketSent cc t n b c))"
  have ok: "mp_TimeUntilSend t p = 0" "paced_run cc ops ?p = Some p'" using "2.prems"(1) by (auto split: if_splits)
  have rate: "0 < rate" "rate \<le> R" "\<forall>r\<in>set (send_rates cc ops ?p). 0 < r \<and> r \<le> R"
    using "2.prems"(3) by (simp_all add: c rate_def)
  have IH: "8000000 * int (sum_list (sent_bytes ops)) \<le>
      R * (mp_ideal_next_packet_send_time p' - mp_ideal_next_packet_send_time ?p + int (length (sent_bytes ops)))"
    "mp_sender p' \<noteq> None" "mp_alarm_granularity p' = mp_alarm_granularity ?p"
    using "2.IH" [OF ok] rate(3) "2.prems" by (simp_all add: mp_step)
  have "mp_ideal_next_packet_send_time p + bw_TransferTime rate b \<le> mp_ideal_next_packet_send_time ?p"
    by (simp add: mp_OnPacketSent_def c Let_def rate_def)
  then have "R * (bw_TransferTime rate b + 1) \<le> R * (mp_ideal_next_packet_send_time ?p - mp_ideal_next_packet_send_time p + 1)"
    using rate by (intro mult_left_mono) simp_all
  moreover have "int (unat b) * 8000000 \<le> R * (bw_TransferTime rate b + 1)"
    using "2.prems"(4,5) rate by (intro TransferTime_bound) simp_all
  ultimately show ?case using IH by (simp add: mp_step algebra_simps)
next
  case (3 cc t n r ops p)
  then obtain p1 where p1: "mp_OnCongestionEvent cc t n r p = Some p1" by (auto split: option.splits)
  then show ?case using "3.IH" [OF p1] "3.prems" mp_step(3-5) [OF p1] by simp
qed simp

text \<open>
  C40. Pacing: after a packet sent at time \<open>t\<close>, let any packets and acknowledgements follow, every packet
  sent only when TimeUntilSend is zero, and one more packet be allowed at time \<open>t'\<close>. If the pacing rates
  were positive and at most \<open>R\<close> bits per second, the bits sent before that packet are at most what
  \<open>R\<close> transfers in the time since \<open>t\<close>, the timer granularity of 1 ms and one microsecond of
  rounding per packet: the sender never exceeds its rate by more than that, however long it runs.
\<close>

theorem pacing_conforms:
  assumes run: "paced_run cc (Send t n b # ops) p = Some p'" and sender: "mp_sender p \<noteq> None" and allowed: "mp_TimeUntilSend t' p' = 0"
    and rates: "\<forall>r\<in>set (send_rates cc (Send t n b # ops) p). 0 < r \<and> r \<le> R" "R < 2 ^ 63"
    and small: "\<forall>b\<in>set (sent_bytes (Send t n b # ops)). b * 8000000 < 2 ^ 63" and granularity: "mp_alarm_granularity p = 1000"
  shows "8000000 * int (sum_list (sent_bytes (Send t n b # ops))) \<le>
    R * (t' - t + 1000 + int (length (sent_bytes (Send t n b # ops))))"
proof -
  let ?p = "mp_OnPacketSent cc t n b p"
  obtain c where c: "mp_sender p = Some c" using sender by auto
  define rate where "rate = capped_rate (mp_max_pacing_rate p) (cc_PaceRate cc (cc_OnPacketSent cc t n b c))"
  have ok: "paced_run cc ops ?p = Some p'" using run by (auto split: if_splits)
  have rate: "0 < rate" "rate \<le> R" "\<forall>r\<in>set (send_rates cc ops ?p). 0 < r \<and> r \<le> R"
    using rates(1) by (simp_all add: c rate_def)
  have rest: "8000000 * int (sum_list (sent_bytes ops)) \<le>
      R * (mp_ideal_next_packet_send_time p' - mp_ideal_next_packet_send_time ?p + int (length (sent_bytes ops)))"
    "mp_alarm_granularity p' = mp_alarm_granularity p"
    using run_ideal_time [OF ok _ rate(3) rates(2)] sender small by (simp_all add: mp_step)
  have "t + bw_TransferTime rate b \<le> mp_ideal_next_packet_send_time ?p" by (simp add: mp_OnPacketSent_def c Let_def rate_def)
  moreover have "mp_ideal_next_packet_send_time p' \<le> t' + 1000"
    using allowed rest(2) granularity by (auto simp: mp_TimeUntilSend_def split: if_splits)
  ultimately have "R * (mp_ideal_next_packet_send_time p' - mp_ideal_next_packet_send_time ?p + int (length (sent_bytes ops)) + (bw_TransferTime rate b + 1))
      \<le> R * (t' - t + 1000 + int (length (sent_bytes (Send t n b # ops))))"
    using rate by (intro mult_left_mono) simp_all
  moreover have "int (unat b) * 8000000 \<le> R * (bw_TransferTime rate b + 1)"
    using small rates(2) rate by (intro TransferTime_bound) simp_all
  ultimately show ?thesis using rest(1) by (simp add: distrib_left)
qed

definition sample_pacer :: "bbr_sender pacing_sender" where
  "sample_pacer = set_max_pacing_rate 1000000 (set_sender (Some (MyBbrSenderV5 1000000 False False)) MyPacingSender)"

definition sample_sends :: "pacing_op list" where
  "sample_sends = [Send 0 1 1000, Send 8000 2 1000]"

lemma sample_controller_rate:
  "cc_PaceRate bbr_controller (cc_OnPacketSent bbr_controller t n b s) = PaceRate s"
  by (simp add: bbr_controller_def bbr_OnPacketSent_def PaceRate_def AddPacketInfo_def Let_def)

lemma sample_pace_rate: "PaceRate (MyBbrSenderV5 1000000 False False) > 1000000"
  by (simp add: PaceRate_def MyBbrSenderV5_def EnterStartUpMode_def bw_FromBitsPerSecond_def mk_bandwidth_def to_i64_def kDefaultHighGain_def
      bw_scale_def float_of_int_def float_mul_def round_to_exact llround_def)

theorem pacing_conforms_witness:
  "\<exists>p'. paced_run bbr_controller sample_sends sample_pacer = Some p' \<and> mp_TimeUntilSend 15000 p' = 0 \<and>
    8000000 * int (sum_list (sent_bytes sample_sends)) \<le> 1000000 * (15000 - 0 + 1000 + int (length (sent_bytes sample_sends)))"
proof -
  define s where "s = MyBbrSenderV5 1000000 False False"
  define s1 where "s1 = bbr_OnPacketSent 0 1 1000 s"
  define s2 where "s2 = bbr_OnPacketSent 8000 2 1000 s1"
  have rates: "capped_rate 1000000 (PaceRate s1) = 1000000" "capped_rate 1000000 (PaceRate s2) = 1000000"
    using sample_pace_rate sample_controller_rate [of 0 1 1000 s] sample_controller_rate [of 8000 2 1000 s1]
    by (simp_all add: s1_def s2_def s_def bbr_controller_def capped_rate_def)
  have tt: "bw_TransferTime 1000000 1000 = 8000" by (simp add: bw_TransferTime_def to_u64_def to_i64_def kNumMicrosPerSecond_def)
  let ?p = "\<lambda>t c. \<lparr>mp_ideal_next_packet_send_time = t, mp_alarm_granularity = 1000, mp_sender = Some c, mp_max_pacing_rate = 1000000\<rparr>"
  have p: "sample_pacer = ?p 0 s"
    by (simp add: sample_pacer_def set_max_pacing_rate_def set_sender_def MyPacingSender_def delta_FromMilliseconds_def s_def)
  have step: "mp_OnPacketSent bbr_controller 0 1 1000 sample_pacer = ?p 8000 s1" "mp_OnPacketSent bbr_controller 8000 2 1000 (?p 8000 s1) = ?p 16000 s2"
    using rates by (simp_all add: mp_OnPacketSent_def p Let_def bbr_controller_def s1_def [symmetric] s2_def [symmetric] tt)
  have run: "paced_run bbr_controller sample_sends sample_pacer = Some (?p 16000 s2)"
    by (simp add: sample_sends_def step) (simp add: mp_TimeUntilSend_def p)
  have r: "\<forall>r\<in>set (send_rates bbr_controller sample_sends sample_pacer). 0 < r \<and> r \<le> 1000000"
    using rates by (simp add: sample_sends_def step) (simp add: p bbr_controller_def s1_def [symmetric] s2_def [symmetric])
  have ok: "mp_TimeUntilSend 15000 (?p 16000 s2) = 0" "mp_sender sample_pacer \<noteq> None" "mp_alarm_granularity sample_pacer = 1000"
    "\<forall>b\<in>set (sent_bytes sample_sends). b * 8000000 < 2 ^ 63"
    by (simp_all add: mp_TimeUntilSend_def p sample_sends_def)
  show ?thesis
    using pacing_conforms [OF run [unfolded sample_sends_def] ok(2,1) r [unfolded sample_sends_def] _ ok(4) [unfolded sample_sends_def] ok(3)]
      run ok(1) by (auto simp: sample_sends_def)
qed

end
