(* ===== verification/Received_Packet_Manager.thy ===== *)
theory Received_Packet_Manager
  imports Framer_Ack_Roundtrip
begin

text \<open>
  QuicReceivedPacketManager (core/quic\_received\_packet\_manager.cc): the packets a receiver has seen,
  kept as the ACK frame it will send next. \<open>rpm_inv\<close> says that the frame is one the framer can
  encode; \<open>received_packets\<close> is the interface the receiver relies on. The debug assertions of the
  source are not part of the operations; the counters of QuicConnectionStats that it updates are
  fields of the state.
\<close>

section \<open>State\<close>

record received_packet_manager =
  rpm_peer_least_packet_awaiting_ack :: u64
  rpm_ack_frame :: quic_ack_frame
  rpm_ack_frame_updated :: bool
  rpm_max_ack_ranges :: nat
  rpm_time_largest_observed :: quic_time
  rpm_save_timestamps :: bool
  rpm_packets_reordered :: u64
  rpm_max_sequence_reordering :: u64
  rpm_max_time_reordering_us :: int

definition kMaxPacketsAfterNewMissing :: u64 where "kMaxPacketsAfterNewMissing = 4"

definition QuicReceivedPacketManager :: received_packet_manager where
  "QuicReceivedPacketManager =
     \<lparr>rpm_peer_least_packet_awaiting_ack = 0, rpm_ack_frame = QuicAckFrame, rpm_ack_frame_updated = False,
      rpm_max_ack_ranges = 0, rpm_time_largest_observed = 0, rpm_save_timestamps = False,
      rpm_packets_reordered = 0, rpm_max_sequence_reordering = 0, rpm_max_time_reordering_us = 0\<rparr>"

section \<open>Operations\<close>

definition record_reordering :: "u64 \<Rightarrow> quic_time \<Rightarrow> received_packet_manager \<Rightarrow> received_packet_manager" where
  "record_reordering packet_number receipt_time m =
     (if LargestAcked (rpm_ack_frame m) > packet_number then
        m\<lparr>rpm_packets_reordered := rpm_packets_reordered m + 1,
          rpm_max_sequence_reordering := max (rpm_max_sequence_reordering m) (LargestAcked (rpm_ack_frame m) - packet_number),
          rpm_max_time_reordering_us := max (rpm_max_time_reordering_us m) (receipt_time - rpm_time_largest_observed m)\<rparr>
      else m)"

definition record_timestamp :: "u64 \<Rightarrow> quic_time \<Rightarrow> received_packet_manager \<Rightarrow> received_packet_manager" where
  "record_timestamp packet_number receipt_time m =
     (let times = af_received_packet_times (rpm_ack_frame m) in
      if \<not> rpm_save_timestamps m then m
      else if times \<noteq> [] \<and> snd (last times) > receipt_time then m
      else m\<lparr>rpm_ack_frame := (rpm_ack_frame m)\<lparr>af_received_packet_times := times @ [(packet_number, receipt_time)]\<rparr>\<rparr>)"

definition RecordPacketReceived :: "u64 \<Rightarrow> quic_time \<Rightarrow> received_packet_manager \<Rightarrow> received_packet_manager" where
  "RecordPacketReceived packet_number receipt_time m =
     (let m = (if \<not> rpm_ack_frame_updated m
               then m\<lparr>rpm_ack_frame := (rpm_ack_frame m)\<lparr>af_received_packet_times := []\<rparr>\<rparr> else m);
          m = m\<lparr>rpm_ack_frame_updated := True\<rparr>;
          m = record_reordering packet_number receipt_time m;
          m = (if packet_number > LargestAcked (rpm_ack_frame m)
               then m\<lparr>rpm_ack_frame := (rpm_ack_frame m)\<lparr>af_largest_acked := packet_number\<rparr>,
                      rpm_time_largest_observed := receipt_time\<rparr> else m);
          m = m\<lparr>rpm_ack_frame := (rpm_ack_frame m)\<lparr>af_packets := pnq_Add packet_number (af_packets (rpm_ack_frame m))\<rparr>\<rparr>
      in record_timestamp packet_number receipt_time m)"

definition rpm_IsMissing :: "u64 \<Rightarrow> received_packet_manager \<Rightarrow> bool" where
  "rpm_IsMissing packet_number m \<longleftrightarrow>
     packet_number < LargestAcked (rpm_ack_frame m) \<and> \<not> pnq_Contains packet_number (af_packets (rpm_ack_frame m))"

definition IsAwaitingPacket :: "quic_ack_frame \<Rightarrow> u64 \<Rightarrow> u64 \<Rightarrow> bool" where
  "IsAwaitingPacket ack_frame packet_number peer_least_packet_awaiting_ack \<longleftrightarrow>
     packet_number \<ge> peer_least_packet_awaiting_ack \<and> \<not> pnq_Contains packet_number (af_packets ack_frame)"

definition rpm_IsAwaitingPacket :: "u64 \<Rightarrow> received_packet_manager \<Rightarrow> bool" where
  "rpm_IsAwaitingPacket packet_number m =
     IsAwaitingPacket (rpm_ack_frame m) packet_number (rpm_peer_least_packet_awaiting_ack m)"

text \<open>The loop removes the smallest interval until at most the maximum number is left.\<close>

definition limit_intervals :: "nat \<Rightarrow> packet_number_queue \<Rightarrow> packet_number_queue" where
  "limit_intervals max_ack_ranges q =
     (if max_ack_ranges > 0 \<and> pnq_NumIntervals q > max_ack_ranges
      then (pnq_RemoveSmallestInterval ^^ (pnq_NumIntervals q - max_ack_ranges)) q else q)"

definition GetUpdatedAckFrame :: "quic_time \<Rightarrow> received_packet_manager \<Rightarrow> quic_ack_frame \<times> received_packet_manager" where
  "GetUpdatedAckFrame approximate_now m =
     (let frame = rpm_ack_frame m;
          frame = frame\<lparr>af_ack_delay_time :=
            (if rpm_time_largest_observed m = 0 then kQuicInfiniteTimeUs
             else if approximate_now < rpm_time_largest_observed m then 0
             else approximate_now - rpm_time_largest_observed m)\<rparr>;
          frame = frame\<lparr>af_packets := limit_intervals (rpm_max_ack_ranges m) (af_packets frame)\<rparr>;
          frame = frame\<lparr>af_received_packet_times :=
            filter (\<lambda>(packet_number, _). \<not> LargestAcked frame - packet_number \<ge> 255) (af_received_packet_times frame)\<rparr>
      in (frame, m\<lparr>rpm_ack_frame_updated := False, rpm_ack_frame := frame\<rparr>))"

definition DontWaitForPacketsBefore :: "u64 \<Rightarrow> received_packet_manager \<Rightarrow> received_packet_manager" where
  "DontWaitForPacketsBefore least_unacked m =
     (if least_unacked > rpm_peer_least_packet_awaiting_ack m then
        case pnq_RemoveUpTo least_unacked (af_packets (rpm_ack_frame m)) of
          (packets_updated, q) \<Rightarrow>
            m\<lparr>rpm_peer_least_packet_awaiting_ack := least_unacked,
              rpm_ack_frame := (rpm_ack_frame m)\<lparr>af_packets := q\<rparr>,
              rpm_ack_frame_updated := (if packets_updated then True else rpm_ack_frame_updated m)\<rparr>
      else m)"

definition HasMissingPackets :: "received_packet_manager \<Rightarrow> bool" where
  "HasMissingPackets m \<longleftrightarrow>
     (let q = af_packets (rpm_ack_frame m) in
      pnq_NumIntervals q > 1 \<or>
      (\<not> pnq_Empty q \<and> pnq_Min q > max 1 (rpm_peer_least_packet_awaiting_ack m)))"

definition HasNewMissingPackets :: "received_packet_manager \<Rightarrow> bool" where
  "HasNewMissingPackets m \<longleftrightarrow>
     HasMissingPackets m \<and> pnq_LastIntervalLength (af_packets (rpm_ack_frame m)) \<le> kMaxPacketsAfterNewMissing"

definition GetLargestObserved :: "received_packet_manager \<Rightarrow> u64" where
  "GetLargestObserved m = LargestAcked (rpm_ack_frame m)"

definition set_max_ack_ranges :: "nat \<Rightarrow> received_packet_manager \<Rightarrow> received_packet_manager" where
  "set_max_ack_ranges max_ack_ranges m = m\<lparr>rpm_max_ack_ranges := max_ack_ranges\<rparr>"

definition set_save_timestamps :: "bool \<Rightarrow> received_packet_manager \<Rightarrow> received_packet_manager" where
  "set_save_timestamps save_timestamps m = m\<lparr>rpm_save_timestamps := save_timestamps\<rparr>"

section \<open>Invariant\<close>

definition rpm_set :: "received_packet_manager \<Rightarrow> nat set" where
  "rpm_set m = pnq_set (af_packets (rpm_ack_frame m))"

definition rpm_inv :: "received_packet_manager \<Rightarrow> bool" where
  "rpm_inv m \<longleftrightarrow>
     (let q = af_packets (rpm_ack_frame m); largest = af_largest_acked (rpm_ack_frame m) in
      pnq_inv q \<and> (q \<noteq> [] \<longrightarrow> largest = pnq_Max q) \<and>
      (q = [] \<longrightarrow> largest = 0 \<or> largest < rpm_peer_least_packet_awaiting_ack m))"

lemma rpm_inv_init: "rpm_inv QuicReceivedPacketManager" "rpm_set QuicReceivedPacketManager = {}"
  by (simp_all add: rpm_inv_def rpm_set_def QuicReceivedPacketManager_def QuicAckFrame_def)

lemma record_simps [simp]:
  "rpm_ack_frame (record_reordering p t m) = rpm_ack_frame m"
  "rpm_peer_least_packet_awaiting_ack (record_reordering p t m) = rpm_peer_least_packet_awaiting_ack m"
  "rpm_ack_frame_updated (record_reordering p t m) = rpm_ack_frame_updated m"
  "rpm_max_ack_ranges (record_reordering p t m) = rpm_max_ack_ranges m"
  "af_packets (rpm_ack_frame (record_timestamp p t m)) = af_packets (rpm_ack_frame m)"
  "af_largest_acked (rpm_ack_frame (record_timestamp p t m)) = af_largest_acked (rpm_ack_frame m)"
  "rpm_peer_least_packet_awaiting_ack (record_timestamp p t m) = rpm_peer_least_packet_awaiting_ack m"
  "rpm_ack_frame_updated (record_timestamp p t m) = rpm_ack_frame_updated m"
  "rpm_max_ack_ranges (record_timestamp p t m) = rpm_max_ack_ranges m"
  by (simp_all add: record_reordering_def record_timestamp_def Let_def)

lemma RecordPacketReceived_simps [simp]:
  "af_packets (rpm_ack_frame (RecordPacketReceived p t m)) = pnq_Add p (af_packets (rpm_ack_frame m))"
  "af_largest_acked (rpm_ack_frame (RecordPacketReceived p t m)) = max p (af_largest_acked (rpm_ack_frame m))"
  "rpm_peer_least_packet_awaiting_ack (RecordPacketReceived p t m) = rpm_peer_least_packet_awaiting_ack m"
  "rpm_ack_frame_updated (RecordPacketReceived p t m)"
  "rpm_max_ack_ranges (RecordPacketReceived p t m) = rpm_max_ack_ranges m"
  by (auto simp: RecordPacketReceived_def Let_def LargestAcked_def max_def)

lemma pnq_Add_Max:
  assumes "pnq_inv q" "unat p < 2 ^ 64 - 1"
  shows "pnq_Max (pnq_Add p q) = (if q = [] then p else max p (pnq_Max q))"
proof -
  have a: "pnq_inv (pnq_Add p q)" "pnq_set (pnq_Add p q) = insert (unat p) (pnq_set q)"
    using pnq_Add_correct [OF assms] by simp_all
  then have ne: "pnq_Add p q \<noteq> []" by auto
  let ?m = "pnq_Max (pnq_Add p q)"
  have m: "unat ?m \<in> insert (unat p) (pnq_set q)" "\<forall>n\<in>insert (unat p) (pnq_set q). n \<le> unat ?m"
    using pnq_set_Max [OF ne a(1)] a(2) by simp_all
  show ?thesis
  proof (cases "q = []")
    case True
    then show ?thesis using m by (simp add: word_unat_eq_iff)
  next
    case False
    then have "unat (pnq_Max q) \<in> pnq_set q" "\<forall>n\<in>pnq_set q. n \<le> unat (pnq_Max q)" using pnq_set_Max [OF False assms(1)] by simp_all
    then have "unat ?m = max (unat p) (unat (pnq_Max q))" using m by (auto simp: max_def intro: antisym)
    then have "?m = max p (pnq_Max q)" by (auto simp: max_def word_le_nat_alt word_unat_eq_iff split: if_splits)
    then show ?thesis using False by simp
  qed
qed

lemma rpm_inv_record:
  assumes "rpm_inv m" "unat p < 2 ^ 64 - 1" "p \<ge> rpm_peer_least_packet_awaiting_ack m"
  shows "rpm_inv (RecordPacketReceived p t m)" "rpm_set (RecordPacketReceived p t m) = insert (unat p) (rpm_set m)"
proof -
  let ?q = "af_packets (rpm_ack_frame m)"
  have q: "pnq_inv ?q" using assms(1) by (simp add: rpm_inv_def Let_def)
  note add = pnq_Add_correct [OF q assms(2)]
  show "rpm_set (RecordPacketReceived p t m) = insert (unat p) (rpm_set m)" using add by (simp add: rpm_set_def)
  have ne: "pnq_Add p ?q \<noteq> []" using add by auto
  have "max p (af_largest_acked (rpm_ack_frame m)) = pnq_Max (pnq_Add p ?q)"
    using assms(1,3) pnq_Add_Max [OF q assms(2)] by (auto simp: rpm_inv_def Let_def max_def)
  then show "rpm_inv (RecordPacketReceived p t m)" using add ne by (simp add: rpm_inv_def Let_def)
qed

lemma rpm_inv_update:
  assumes "rpm_inv m" "rpm_max_ack_ranges m = 0"
  shows "rpm_inv (snd (GetUpdatedAckFrame t m))" "rpm_set (snd (GetUpdatedAckFrame t m)) = rpm_set m"
    "af_packets (fst (GetUpdatedAckFrame t m)) = af_packets (rpm_ack_frame m)"
    "af_largest_acked (fst (GetUpdatedAckFrame t m)) = af_largest_acked (rpm_ack_frame m)"
    "rpm_max_ack_ranges (snd (GetUpdatedAckFrame t m)) = 0"
    "rpm_peer_least_packet_awaiting_ack (snd (GetUpdatedAckFrame t m)) = rpm_peer_least_packet_awaiting_ack m"
  using assms by (simp_all add: rpm_inv_def rpm_set_def GetUpdatedAckFrame_def Let_def limit_intervals_def)

lemma pnq_empty_set: "pnq_inv q \<Longrightarrow> pnq_set q = {} \<longleftrightarrow> q = []"
  using pnq_set_Min [of q] by (cases "q = []") auto

lemma pnq_Max_unique:
  assumes "pnq_inv q" "unat x \<in> pnq_set q" "\<forall>n\<in>pnq_set q. n \<le> unat x"
  shows "pnq_Max q = x"
proof -
  have "q \<noteq> []" using assms by auto
  from pnq_set_Max [OF this assms(1)] assms(2,3) show ?thesis by (metis antisym word_unat_eq_iff)
qed

lemma rpm_inv_stop_waiting:
  assumes "rpm_inv m"
  shows "rpm_inv (DontWaitForPacketsBefore h m)"
    "rpm_set (DontWaitForPacketsBefore h m) =
       (if h > rpm_peer_least_packet_awaiting_ack m then rpm_set m - {..<unat h} else rpm_set m)"
proof -
  let ?q = "af_packets (rpm_ack_frame m)" and ?l = "af_largest_acked (rpm_ack_frame m)"
  have q: "pnq_inv ?q" using assms by (simp add: rpm_inv_def Let_def)
  obtain b q' where rm: "pnq_RemoveUpTo h ?q = (b, q')" by fastforce
  then have q': "pnq_inv q'" "pnq_set q' = pnq_set ?q - {..<unat h}" using pnq_RemoveUpTo_correct [OF q, of h] by simp_all
  show "rpm_set (DontWaitForPacketsBefore h m) =
       (if h > rpm_peer_least_packet_awaiting_ack m then rpm_set m - {..<unat h} else rpm_set m)"
    using rm q'(2) by (simp add: rpm_set_def DontWaitForPacketsBefore_def)
  have "?l = pnq_Max q'" if "q' \<noteq> []"
  proof -
    have "pnq_set q' \<noteq> {}" using that pnq_empty_set [OF q'(1)] by simp
    then obtain n where n: "n \<in> pnq_set ?q" "\<not> n < unat h" using q'(2) by auto
    then have ne: "?q \<noteq> []" by auto
    note mx = pnq_set_Max [OF ne q]
    have l: "?l = pnq_Max ?q" using assms ne by (simp add: rpm_inv_def Let_def)
    have "unat ?l \<in> pnq_set q'" "\<forall>n\<in>pnq_set q'. n \<le> unat ?l" using mx n q'(2) l by auto
    from pnq_Max_unique [OF q'(1) this] show ?thesis by simp
  qed
  moreover have "?l = 0 \<or> ?l < h" if e: "q' = []" "h > rpm_peer_least_packet_awaiting_ack m"
  proof (cases "?q = []")
    case True
    then show ?thesis using assms e(2) by (auto simp: rpm_inv_def Let_def)
  next
    case False
    then have "?l = pnq_Max ?q" using assms by (simp add: rpm_inv_def Let_def)
    then have "unat ?l \<in> pnq_set ?q" using pnq_set_Max [OF False q] by simp
    then show ?thesis using q'(2) e(1) by (auto simp: word_less_nat_alt)
  qed
  ultimately show "rpm_inv (DontWaitForPacketsBefore h m)"
    using assms rm q'(1) by (auto simp: rpm_inv_def DontWaitForPacketsBefore_def Let_def)
qed

section \<open>The interface of the received packets\<close>

text \<open>
  What a receiver may rely on: a recorded packet is acknowledged by the next frame, a frame
  acknowledges nothing else, and a packet below the peer's mark is forgotten.
\<close>

locale received_packets =
  fixes init :: 'm
    and receive :: "u64 \<Rightarrow> quic_time \<Rightarrow> 'm \<Rightarrow> 'm"
    and ack_of :: "quic_time \<Rightarrow> 'm \<Rightarrow> quic_ack_frame \<times> 'm"
    and valid :: "'m \<Rightarrow> bool"
    and mark :: "'m \<Rightarrow> u64"
    and content :: "'m \<Rightarrow> nat set"
  assumes init: "valid init" "mark init = 0" "content init = {}"
    and receive: "valid m \<Longrightarrow> unat p < 2 ^ 64 - 1 \<Longrightarrow> mark m \<le> p \<Longrightarrow>
      valid (receive p t m) \<and> mark (receive p t m) = mark m \<and> content (receive p t m) = insert (unat p) (content m)"
    and ack_of: "valid m \<Longrightarrow>
      valid (snd (ack_of t m)) \<and> mark (snd (ack_of t m)) = mark m \<and> content (snd (ack_of t m)) = content m \<and>
      pnq_inv (af_packets (fst (ack_of t m))) \<and> pnq_set (af_packets (fst (ack_of t m))) = content m \<and>
      (content m \<noteq> {} \<longrightarrow> af_largest_acked (fst (ack_of t m)) = pnq_Max (af_packets (fst (ack_of t m))))"
begin

text \<open>Receiving packets and sending frames, in any order.\<close>

primrec run :: "(u64 \<times> quic_time + quic_time) list \<Rightarrow> 'm \<Rightarrow> 'm" where
  "run [] m = m"
| "run (e # es) m = run es (case e of Inl (p, t) \<Rightarrow> receive p t m | Inr t \<Rightarrow> snd (ack_of t m))"

lemma run_content:
  assumes "valid m" "mark m = 0" "\<forall>p t. Inl (p, t) \<in> set es \<longrightarrow> unat p < 2 ^ 64 - 1"
  shows "valid (run es m) \<and> mark (run es m) = 0 \<and> content (run es m) = content m \<union> {unat p |p. \<exists>t. Inl (p, t) \<in> set es}"
  using assms
proof (induction es arbitrary: m)
  case (Cons e es)
  show ?case
  proof (cases e)
    case (Inl a)
    obtain p t where a: "a = (p, t)" by fastforce
    have "valid (receive p t m)" "mark (receive p t m) = 0" "content (receive p t m) = insert (unat p) (content m)"
      using receive [of m p t] Cons.prems Inl a by auto
    from Cons.IH [OF this(1,2)] this(3) Cons.prems Inl a show ?thesis by auto
  next
    case (Inr t)
    have "valid (snd (ack_of t m))" "mark (snd (ack_of t m)) = 0" "content (snd (ack_of t m)) = content m"
      using ack_of [of m t] Cons.prems by auto
    from Cons.IH [OF this(1,2)] this(3) Cons.prems Inr show ?thesis by auto
  qed
qed simp

lemma frame_exact:
  assumes "\<forall>p t. Inl (p, t) \<in> set es \<longrightarrow> unat p < 2 ^ 64 - 1"
  shows "pnq_set (af_packets (fst (ack_of now (run es init)))) = {unat p |p. \<exists>t. Inl (p, t) \<in> set es}"
  using run_content [OF init(1,2) assms] ack_of [of "run es init" now] init(3) by simp

end

definition rpm_valid :: "received_packet_manager \<Rightarrow> bool" where
  "rpm_valid m \<longleftrightarrow> rpm_inv m \<and> rpm_max_ack_ranges m = 0"

interpretation received: received_packets QuicReceivedPacketManager RecordPacketReceived GetUpdatedAckFrame rpm_valid
  rpm_peer_least_packet_awaiting_ack rpm_set
proof
  show "rpm_valid QuicReceivedPacketManager" "rpm_peer_least_packet_awaiting_ack QuicReceivedPacketManager = 0"
      "rpm_set QuicReceivedPacketManager = {}"
    by (simp_all add: rpm_valid_def rpm_inv_init) (simp_all add: QuicReceivedPacketManager_def)
next
  fix m p t
  assume "rpm_valid m" "unat p < 2 ^ 64 - 1" "rpm_peer_least_packet_awaiting_ack m \<le> p"
  then show "rpm_valid (RecordPacketReceived p t m) \<and>
      rpm_peer_least_packet_awaiting_ack (RecordPacketReceived p t m) = rpm_peer_least_packet_awaiting_ack m \<and>
      rpm_set (RecordPacketReceived p t m) = insert (unat p) (rpm_set m)"
    using rpm_inv_record [of m p t] by (simp add: rpm_valid_def)
next
  fix m t
  assume m: "rpm_valid m"
  then have "pnq_inv (af_packets (rpm_ack_frame m))" by (simp add: rpm_valid_def rpm_inv_def Let_def)
  moreover have "rpm_set m \<noteq> {} \<longrightarrow> af_largest_acked (rpm_ack_frame m) = pnq_Max (af_packets (rpm_ack_frame m))"
    using m by (auto simp: rpm_valid_def rpm_inv_def rpm_set_def Let_def)
  ultimately show "rpm_valid (snd (GetUpdatedAckFrame t m)) \<and>
      rpm_peer_least_packet_awaiting_ack (snd (GetUpdatedAckFrame t m)) = rpm_peer_least_packet_awaiting_ack m \<and>
      rpm_set (snd (GetUpdatedAckFrame t m)) = rpm_set m \<and>
      pnq_inv (af_packets (fst (GetUpdatedAckFrame t m))) \<and> pnq_set (af_packets (fst (GetUpdatedAckFrame t m))) = rpm_set m \<and>
      (rpm_set m \<noteq> {} \<longrightarrow> af_largest_acked (fst (GetUpdatedAckFrame t m)) = pnq_Max (af_packets (fst (GetUpdatedAckFrame t m))))"
    using rpm_inv_update [of m t] m by (simp add: rpm_valid_def rpm_set_def)
qed

section \<open>Well-formed frames\<close>

datatype rpm_op = Receive u64 quic_time | Update quic_time | StopWaiting u64 | MaxRanges nat | SaveTimestamps bool

text \<open>A packet is recorded only if it is awaited, as the assertion in RecordPacketReceived demands.\<close>

fun rpm_step :: "rpm_op \<Rightarrow> received_packet_manager \<Rightarrow> received_packet_manager option" where
  "rpm_step (Receive p t) m = (if rpm_IsAwaitingPacket p m \<and> unat p < 2 ^ 48 - 1 then Some (RecordPacketReceived p t m) else None)"
| "rpm_step (Update t) m = Some (snd (GetUpdatedAckFrame t m))"
| "rpm_step (StopWaiting h) m = Some (DontWaitForPacketsBefore h m)"
| "rpm_step (MaxRanges n) m = Some (set_max_ack_ranges n m)"
| "rpm_step (SaveTimestamps b) m = Some (set_save_timestamps b m)"

fun rpm_run :: "rpm_op list \<Rightarrow> received_packet_manager \<Rightarrow> received_packet_manager option" where
  "rpm_run [] m = Some m"
| "rpm_run (op # ops) m = (case rpm_step op m of None \<Rightarrow> None | Some m' \<Rightarrow> rpm_run ops m')"

definition rpm_typed :: "received_packet_manager \<Rightarrow> bool" where
  "rpm_typed m \<longleftrightarrow> rpm_inv m \<and> unat (af_largest_acked (rpm_ack_frame m)) < 2 ^ 48 - 1"

lemma limit_intervals_drop:
  "limit_intervals k q = (if k > 0 then drop (length q - k) q else q)"
proof -
  have "(pnq_RemoveSmallestInterval ^^ n) q = drop n q" for n
    by (induction n) (simp_all add: pnq_RemoveSmallestInterval_def drop_Suc tl_drop)
  then show ?thesis by (auto simp: limit_intervals_def pnq_NumIntervals_def)
qed

lemma limit_intervals_inv:
  assumes "pnq_inv q"
  shows "pnq_inv (limit_intervals k q)" "limit_intervals k q = [] \<longleftrightarrow> q = []" "q \<noteq> [] \<Longrightarrow> pnq_Max (limit_intervals k q) = pnq_Max q"
proof -
  show "pnq_inv (limit_intervals k q)"
    using assms append_take_drop_id [of "length q - k" q] pnq_inv_append [of "take (length q - k) q" "drop (length q - k) q"]
    by (simp add: limit_intervals_drop)
  show "limit_intervals k q = [] \<longleftrightarrow> q = []" by (cases q) (auto simp: limit_intervals_drop)
  show "q \<noteq> [] \<Longrightarrow> pnq_Max (limit_intervals k q) = pnq_Max q" by (auto simp: limit_intervals_drop pnq_Max_def last_drop)
qed

lemma rpm_update_fields:
  "rpm_ack_frame (snd (GetUpdatedAckFrame t m)) = fst (GetUpdatedAckFrame t m)"
  "af_packets (fst (GetUpdatedAckFrame t m)) = limit_intervals (rpm_max_ack_ranges m) (af_packets (rpm_ack_frame m))"
  "af_largest_acked (fst (GetUpdatedAckFrame t m)) = af_largest_acked (rpm_ack_frame m)"
  "rpm_peer_least_packet_awaiting_ack (snd (GetUpdatedAckFrame t m)) = rpm_peer_least_packet_awaiting_ack m"
  by (simp_all add: GetUpdatedAckFrame_def Let_def)

lemma rpm_typed_step: "rpm_typed m \<Longrightarrow> rpm_step op m = Some m' \<Longrightarrow> rpm_typed m'"
proof (induction op m rule: rpm_step.induct)
  case (1 p t m)
  then have "rpm_peer_least_packet_awaiting_ack m \<le> p" "unat p < 2 ^ 48 - 1" "m' = RecordPacketReceived p t m"
    by (auto simp: rpm_IsAwaitingPacket_def IsAwaitingPacket_def split: if_splits)
  then show ?case using 1 rpm_inv_record(1) [of m p t] by (auto simp: rpm_typed_def max_def)
next
  case (2 t m)
  then show ?case using limit_intervals_inv [of "af_packets (rpm_ack_frame m)" "rpm_max_ack_ranges m"]
    by (auto simp: rpm_typed_def rpm_inv_def Let_def rpm_update_fields)
next
  case (3 h m)
  have "af_largest_acked (rpm_ack_frame (DontWaitForPacketsBefore h m)) = af_largest_acked (rpm_ack_frame m)"
    by (simp add: DontWaitForPacketsBefore_def split: prod.splits)
  then show ?case using 3 rpm_inv_stop_waiting(1) [of m h] by (auto simp: rpm_typed_def)
qed (auto simp: rpm_typed_def rpm_inv_def set_max_ack_ranges_def set_save_timestamps_def)

lemma rpm_typed_run: "rpm_run ops m = Some m' \<Longrightarrow> rpm_typed m \<Longrightarrow> rpm_typed m'"
  by (induction ops arbitrary: m) (auto split: option.splits dest: rpm_typed_step)

text \<open>
  C38. Whatever packets are recorded while they are awaited, whatever frames are produced in between, and
  however stop-waiting marks, range limits and timestamps are set, a frame the manager produces is
  empty or one the framer can encode: its intervals are non-empty, ordered and separate, the
  largest acknowledged packet is the largest packet in them, and its number fits on the wire.
\<close>

theorem rpm_frames_wellformed:
  assumes "rpm_run ops QuicReceivedPacketManager = Some m" "af_packets (fst (GetUpdatedAckFrame t m)) \<noteq> []"
  shows "ack_wellformed QUIC_VERSION_43 (fst (GetUpdatedAckFrame t m))"
proof -
  have "rpm_typed QuicReceivedPacketManager"
    using rpm_inv_init by (simp add: rpm_typed_def) (simp add: QuicReceivedPacketManager_def QuicAckFrame_def)
  then have m: "rpm_inv m" "unat (af_largest_acked (rpm_ack_frame m)) < 2 ^ 48 - 1"
    using rpm_typed_run [OF assms(1)] by (simp_all add: rpm_typed_def)
  then show ?thesis using limit_intervals_inv [of "af_packets (rpm_ack_frame m)" "rpm_max_ack_ranges m"] assms(2)
    by (simp add: ack_wellformed_def rpm_update_fields rpm_inv_def Let_def QUIC_VERSION_41_def QUIC_VERSION_43_def)
qed

definition sample_recorded :: received_packet_manager where
  "sample_recorded = the (rpm_run [Receive 1 10, Receive 4 20, MaxRanges 1] QuicReceivedPacketManager)"

lemma sample_recorded_run:
  "rpm_run [Receive 1 10, Receive 4 20, MaxRanges 1] QuicReceivedPacketManager = Some sample_recorded"
  "af_packets (rpm_ack_frame sample_recorded) = [(1, 2), (4, 5)]" "rpm_max_ack_ranges sample_recorded = 1"
proof -
  define m1 where "m1 = RecordPacketReceived 1 10 QuicReceivedPacketManager"
  define m2 where "m2 = RecordPacketReceived 4 20 m1"
  have m1: "af_packets (rpm_ack_frame m1) = [(1, 2)]" "rpm_peer_least_packet_awaiting_ack m1 = 0"
    by (simp_all add: m1_def) (simp_all add: QuicReceivedPacketManager_def QuicAckFrame_def pnq_Add_def)
  have 0: "rpm_IsAwaitingPacket 1 QuicReceivedPacketManager"
    by (simp add: rpm_IsAwaitingPacket_def IsAwaitingPacket_def QuicReceivedPacketManager_def QuicAckFrame_def pnq_Contains_def)
  have 1: "rpm_IsAwaitingPacket 4 m1" by (simp add: rpm_IsAwaitingPacket_def IsAwaitingPacket_def m1 pnq_Contains_def)
  have run: "rpm_run [Receive 1 10, Receive 4 20, MaxRanges 1] QuicReceivedPacketManager = Some (set_max_ack_ranges 1 m2)"
    using 0 1 by (simp add: m1_def m2_def)
  then show "rpm_run [Receive 1 10, Receive 4 20, MaxRanges 1] QuicReceivedPacketManager = Some sample_recorded"
    by (simp only: sample_recorded_def option.sel)
  have s: "sample_recorded = set_max_ack_ranges 1 m2" by (simp only: sample_recorded_def run option.sel)
  show "af_packets (rpm_ack_frame sample_recorded) = [(1, 2), (4, 5)]" "rpm_max_ack_ranges sample_recorded = 1"
    by (simp_all add: s set_max_ack_ranges_def m2_def m1 pnq_Add_def)
qed

theorem rpm_frames_wellformed_witness:
  "af_packets (fst (GetUpdatedAckFrame 30 sample_recorded)) = [(4, 5)] \<and>
   ack_wellformed QUIC_VERSION_43 (fst (GetUpdatedAckFrame 30 sample_recorded))"
proof -
  have "af_packets (fst (GetUpdatedAckFrame 30 sample_recorded)) = [(4, 5)]"
    by (simp add: rpm_update_fields sample_recorded_run(2,3) limit_intervals_drop)
  then show ?thesis using rpm_frames_wellformed [OF sample_recorded_run(1), of 30] by simp
qed

text \<open>
  Without the check a late packet spoils the frame: the peer no longer waits for packets below 4, the
  retransmitted packet 2 arrives again, and the frame's only interval is not the one of its largest packet.
\<close>

lemma late_packet_malformed:
  assumes "af_packets (rpm_ack_frame m) = []" "af_largest_acked (rpm_ack_frame m) = 3" "rpm_max_ack_ranges m = 0"
  shows "\<not> ack_wellformed QUIC_VERSION_43 (fst (GetUpdatedAckFrame t (RecordPacketReceived 2 t m)))"
  using assms by (simp add: ack_wellformed_def rpm_update_fields limit_intervals_drop pnq_Add_def pnq_Max_def)

end
