(* ===== verification/Ns_Quic_Header.thy ===== *)
theory Ns_Quic_Header
  imports Framer_Packet Received_Packet_Manager
begin

text \<open>
  What both endpoints of the ns-3 experiment share: the short packet header of my\_quic\_header.cc
  (one byte of flags, then the sequence number in 1, 2, 4 or 6 bytes), the clock of ns\_quic\_time.cc
  and the addresses of the simulated network. The simulator's time is an argument, in milliseconds.
\<close>

section \<open>Header\<close>

definition GetMinSeqLength :: "u64 \<Rightarrow> nat" where
  "GetMinSeqLength packet_number =
     (if packet_number < push_bit (PACKET_1BYTE_PACKET_NUMBER * 8) 1 then PACKET_1BYTE_PACKET_NUMBER
      else if packet_number < push_bit (PACKET_2BYTE_PACKET_NUMBER * 8) 1 then PACKET_2BYTE_PACKET_NUMBER
      else if packet_number < push_bit (PACKET_4BYTE_PACKET_NUMBER * 8) 1 then PACKET_4BYTE_PACKET_NUMBER
      else PACKET_6BYTE_PACKET_NUMBER)"

definition header_ReadSequenceNumberLength :: "u8 \<Rightarrow> nat" where
  "header_ReadSequenceNumberLength flags =
     (let f = flags AND PACKET_FLAGS_8BYTE_PACKET in
      if f = PACKET_FLAGS_8BYTE_PACKET then PACKET_6BYTE_PACKET_NUMBER
      else if f = PACKET_FLAGS_4BYTE_PACKET then PACKET_4BYTE_PACKET_NUMBER
      else if f = PACKET_FLAGS_2BYTE_PACKET then PACKET_2BYTE_PACKET_NUMBER
      else if f = PACKET_FLAGS_1BYTE_PACKET then PACKET_1BYTE_PACKET_NUMBER
      else PACKET_6BYTE_PACKET_NUMBER)"

definition header_GetPacketNumberFlags :: "nat \<Rightarrow> u8" where
  "header_GetPacketNumberFlags seq_len =
     (if seq_len = PACKET_1BYTE_PACKET_NUMBER then PACKET_FLAGS_1BYTE_PACKET
      else if seq_len = PACKET_2BYTE_PACKET_NUMBER then PACKET_FLAGS_2BYTE_PACKET
      else if seq_len = PACKET_4BYTE_PACKET_NUMBER then PACKET_FLAGS_4BYTE_PACKET
      else if seq_len = PACKET_6BYTE_PACKET_NUMBER \<or> seq_len = PACKET_8BYTE_PACKET_NUMBER then PACKET_FLAGS_8BYTE_PACKET
      else PACKET_FLAGS_8BYTE_PACKET)"

definition kMaxBufferSize :: nat where "kMaxBufferSize = 1500"

text \<open>The results of the two writes and of the reads are ignored; a failed read leaves the initial value.\<close>

definition write_header :: "u64 \<Rightarrow> nat \<Rightarrow> quic_data_writer \<Rightarrow> quic_data_writer" where
  "write_header seq seq_len w =
     (let public_flags = 0 OR push_bit kPublicHeaderSequenceNumberShift (header_GetPacketNumberFlags seq_len)
      in snd (WriteBytesToUInt64 seq_len seq (snd (WriteBytes [public_flags] w))))"

definition read_or :: "'a \<Rightarrow> 'a read_op \<Rightarrow> quic_data_reader \<Rightarrow> 'a \<times> quic_data_reader" where
  "read_or x f r = (case f r of (None, r') \<Rightarrow> (x, r') | (Some y, r') \<Rightarrow> (y, r'))"

definition read_header :: "quic_data_reader \<Rightarrow> nat \<times> u64 \<times> quic_data_reader" where
  "read_header r =
     (case read_or [0] (ReadBytes 1) r of (flags, r1) \<Rightarrow>
        let seq_len = header_ReadSequenceNumberLength (drop_bit kPublicHeaderSequenceNumberShift (hd flags))
        in case read_or 0 (ReadBytesToUInt64 seq_len) r1 of (seq, r2) \<Rightarrow> (seq_len, seq, r2))"

section \<open>Time and addresses\<close>

definition NsQuicClock_Now :: "int \<Rightarrow> quic_time" where
  "NsQuicClock_Now ms = 0 + delta_FromMilliseconds ms"

definition NsQuicClock_ApproximateNow :: "int \<Rightarrow> quic_time" where
  "NsQuicClock_ApproximateNow ms = NsQuicClock_Now ms"

definition NsQuicClock_WallNow :: "int \<Rightarrow> int" where
  "NsQuicClock_WallNow ms = ms * 1000"

definition Ns3QuicTime_Now :: "int \<Rightarrow> quic_time" where
  "Ns3QuicTime_Now ms = 0 + delta_FromMilliseconds (uint (word_of_int ms :: u32))"

definition Ns3QuicTime_GetMilliSeconds :: "int \<Rightarrow> u32" where
  "Ns3QuicTime_GetMilliSeconds ms = word_of_int (delta_ToMilliseconds (Ns3QuicTime_Now ms - 0))"

type_synonym inet_address = "u32 \<times> u16"

definition PROTOCOL_QUIC_CRYPTO :: nat where "PROTOCOL_QUIC_CRYPTO = 1"

definition ns_versions :: "parsed_quic_version list" where
  "ns_versions = [\<lparr>pv_handshake_protocol = PROTOCOL_QUIC_CRYPTO, pv_transport_version = QUIC_VERSION_43\<rparr>]"

definition STREAM_FRAME_code :: u8 where "STREAM_FRAME_code = 8"
definition STOP_WAITING_FRAME_code :: u8 where "STOP_WAITING_FRAME_code = 6"

lemma frame_codes: "STREAM_FRAME_code = frame_type_code (STREAM_FRAME f)"
  "STOP_WAITING_FRAME_code = frame_type_code (STOP_WAITING_FRAME g)"
  by (simp_all add: STREAM_FRAME_code_def STOP_WAITING_FRAME_code_def)

section \<open>The header is read back\<close>

definition ns_header_bytes :: "u64 \<Rightarrow> u8 list" where
  "ns_header_bytes seq =
     (push_bit 4 (header_GetPacketNumberFlags (GetMinSeqLength seq))) # uint_bytes NETWORK_BYTE_ORDER (GetMinSeqLength seq) (unat seq)"

lemma GetMinSeqLength_cases: "GetMinSeqLength seq \<in> {1, 2, 4, 6}"
  by (simp add: GetMinSeqLength_def packet_length_defs)

lemma length_ns_header_bytes [simp]: "length (ns_header_bytes seq) = 1 + GetMinSeqLength seq"
  by (simp add: ns_header_bytes_def)

lemma GetMinSeqLength_bound:
  assumes "unat seq < 2 ^ 48"
  shows "unat seq < 256 ^ GetMinSeqLength seq"
  using assms by (auto simp: GetMinSeqLength_def packet_length_defs push_bit_eq_mult word_less_nat_alt)

lemma header_flags_roundtrip:
  "len \<in> {1, 2, 4, 6} \<Longrightarrow> header_ReadSequenceNumberLength (drop_bit 4 (push_bit 4 (header_GetPacketNumberFlags len))) = len"
  by (auto simp: header_ReadSequenceNumberLength_def header_GetPacketNumberFlags_def Let_def packet_length_defs packet_flag_defs)

lemma write_header_put:
  assumes "w_ok w" "w_endianness w = NETWORK_BYTE_ORDER" "1 + GetMinSeqLength seq \<le> w_room w"
  shows "write_header seq (GetMinSeqLength seq) w = w_put (ns_header_bytes seq) w"
proof -
  let ?len = "GetMinSeqLength seq" and ?f = "push_bit 4 (header_GetPacketNumberFlags (GetMinSeqLength seq)) :: u8"
  have len: "?len \<le> 8" using GetMinSeqLength_cases [of seq] by auto
  have 1: "WriteBytes [?f] w = (True, w_put [?f] w)" using assms by (intro appends_fits [OF appends_WriteBytes]) simp_all
  have 2: "WriteBytesToUInt64 ?len seq (w_put [?f] w) =
      (True, w_put (uint_bytes NETWORK_BYTE_ORDER ?len (unat seq)) (w_put [?f] w))"
    using assms len by (intro appends_fits [OF appends_WriteBytesToUInt64]) simp_all
  show ?thesis using 1 2 w_put_put [OF assms(1), of "[?f]" "uint_bytes NETWORK_BYTE_ORDER ?len (unat seq)"] assms(3)
    by (simp add: write_header_def kPublicHeaderSequenceNumberShift_def ns_header_bytes_def)
qed

lemma read_or_reads: "reads e f bs x \<Longrightarrow> r_endianness r = e \<Longrightarrow> r_rest r = bs @ rest \<Longrightarrow> read_or y f r = (x, r_skip (length bs) r)"
  by (simp add: read_or_def readsD)

lemma read_header_bytes:
  assumes "unat seq < 2 ^ 48" "r_endianness r = NETWORK_BYTE_ORDER" "r_rest r = ns_header_bytes seq @ rest"
  shows "read_header r = (GetMinSeqLength seq, seq, r_skip (1 + GetMinSeqLength seq) r)"
    "r_rest (r_skip (1 + GetMinSeqLength seq) r) = rest"
proof -
  let ?len = "GetMinSeqLength seq" and ?f = "push_bit 4 (header_GetPacketNumberFlags (GetMinSeqLength seq)) :: u8"
  have len: "?len \<le> 8" using GetMinSeqLength_cases [of seq] by auto
  have 1: "read_or [0] (ReadBytes 1) r = ([?f], r_skip 1 r)"
    using read_or_reads [OF reads_ReadBytes [of "[?f]" 1] assms(2)] assms(3) by (simp add: ns_header_bytes_def)
  have rest: "r_rest (r_skip 1 r) = uint_bytes NETWORK_BYTE_ORDER ?len (unat seq) @ rest"
    using r_rest_skip [of r "[?f]"] assms(3) by (simp add: ns_header_bytes_def)
  have 2: "read_or 0 (ReadBytesToUInt64 ?len) (r_skip 1 r) = (seq, r_skip ?len (r_skip 1 r))"
    using read_or_reads [OF reads_ReadBytesToUInt64_small [OF len GetMinSeqLength_bound [OF assms(1)]] _ rest] assms(2) by simp
  show "read_header r = (?len, seq, r_skip (1 + ?len) r)"
    unfolding read_header_def 1 prod.case Let_def kPublicHeaderSequenceNumberShift_def list.sel
      header_flags_roundtrip [OF GetMinSeqLength_cases] 2 by (simp add: r_skip_def)
  show "r_rest (r_skip (1 + ?len) r) = rest" using r_rest_skip [of r "ns_header_bytes seq" rest] assms(3) by simp
qed

end
