(* ===== verification/Ns_Quic_Receiver.thy ===== *)
theory Ns_Quic_Receiver
  imports Ns_Quic_Header
begin

text \<open>
  NsQuicReceiver (quic/model/ns\_quic\_receiver.cc): it records the packets that arrive, traces
  one-way delay, loss and rate, and sends an ACK at once for the first hundred packets, later for
  every tenth packet or when the alarm of 25 ms expires. Trace callbacks and packets handed to the
  socket are the list \<open>nr_events\<close>, oldest first; a callback that is not set is not called. The
  peer's address before the first packet and the operations of the QUIC library are arguments.
\<close>

section \<open>Alarm\<close>

record my_quic_alarm =
  m_deadline :: quic_time

definition MyQuicAlarm :: my_quic_alarm where "MyQuicAlarm = \<lparr>m_deadline = 0\<rparr>"

definition alarm_IsSet :: "my_quic_alarm \<Rightarrow> bool" where
  "alarm_IsSet a \<longleftrightarrow> m_deadline a > 0"

definition alarm_IsExpired :: "quic_time \<Rightarrow> my_quic_alarm \<Rightarrow> bool \<times> my_quic_alarm" where
  "alarm_IsExpired now_ms a =
     (if alarm_IsSet a then
        let ret = now_ms \<ge> m_deadline a in (ret, if ret then a\<lparr>m_deadline := 0\<rparr> else a)
      else (False, a))"

definition alarm_Update :: "quic_time \<Rightarrow> my_quic_alarm \<Rightarrow> my_quic_alarm" where
  "alarm_Update new_deadline_ms a = a\<lparr>m_deadline := new_deadline_ms\<rparr>"

section \<open>State\<close>

datatype recv_event =
    TraceLoss u32 u32
  | TraceOwd u32 u32
  | TraceRate u32
  | AckSent inet_address "u8 list"

record ns_receiver =
  nr_first :: bool
  nr_recv_packet_manager :: received_packet_manager
  nr_versions :: "parsed_quic_version list"
  nr_last_rate_ts :: quic_time
  nr_ack_sent :: bool
  nr_seq :: u64
  nr_base_seq :: u64
  nr_running :: bool
  nr_ack_alarm :: my_quic_alarm
  nr_received :: u64
  nr_recv_byte :: u64
  nr_num_packets_received_since_last_ack_sent :: u64
  nr_trace_loss_cb :: bool
  nr_trace_owd_cb :: bool
  nr_trace_rate_cb :: bool
  nr_owd :: u32
  nr_peer :: inet_address
  nr_bind_port :: u16
  nr_heart_timer :: "int option"
  nr_heart_beat_t :: int
  nr_events :: "recv_event list"

definition mMinReceivedBeforeAckDecimation :: u64 where "mMinReceivedBeforeAckDecimation = 100"
definition mMaxRetransmittablePacketsBeforeAck :: u64 where "mMaxRetransmittablePacketsBeforeAck = 10"
definition mMaxDelayedAckTimeMs :: int where "mMaxDelayedAckTimeMs = 25"
definition mMinRetransmissionTimeMs :: int where "mMinRetransmissionTimeMs = 200"

definition NsQuicReceiver :: "inet_address \<Rightarrow> u16 \<Rightarrow> ns_receiver" where
  "NsQuicReceiver peer port =
     \<lparr>nr_first = True, nr_recv_packet_manager = QuicReceivedPacketManager, nr_versions = ns_versions,
      nr_last_rate_ts = 0, nr_ack_sent = False, nr_seq = 1, nr_base_seq = 0, nr_running = True,
      nr_ack_alarm = MyQuicAlarm, nr_received = 0, nr_recv_byte = 0,
      nr_num_packets_received_since_last_ack_sent = 0, nr_trace_loss_cb = False, nr_trace_owd_cb = False,
      nr_trace_rate_cb = False, nr_owd = 0, nr_peer = peer, nr_bind_port = port, nr_heart_timer = None,
      nr_heart_beat_t = 1, nr_events = []\<rparr>"

definition nr_Bind :: "u16 \<Rightarrow> ns_receiver \<Rightarrow> ns_receiver" where
  "nr_Bind port s = s\<lparr>nr_bind_port := port\<rparr>"

definition nr_SetLossTraceFunc :: "ns_receiver \<Rightarrow> ns_receiver" where
  "nr_SetLossTraceFunc s = s\<lparr>nr_trace_loss_cb := True\<rparr>"

definition nr_SetOwdTraceFunc :: "ns_receiver \<Rightarrow> ns_receiver" where
  "nr_SetOwdTraceFunc s = s\<lparr>nr_trace_owd_cb := True\<rparr>"

definition nr_SetRateTraceFunc :: "ns_receiver \<Rightarrow> ns_receiver" where
  "nr_SetRateTraceFunc s = s\<lparr>nr_trace_rate_cb := True\<rparr>"

section \<open>Operations\<close>

definition nr_event :: "bool \<Rightarrow> recv_event \<Rightarrow> ns_receiver \<Rightarrow> ns_receiver" where
  "nr_event enabled e s = (if enabled then s\<lparr>nr_events := nr_events s @ [e]\<rparr> else s)"

definition nr_RecordLoss :: "u32 \<Rightarrow> ns_receiver \<Rightarrow> ns_receiver" where
  "nr_RecordLoss seq s = nr_event (nr_trace_loss_cb s) (TraceLoss seq (nr_owd s)) s"

definition nr_RecordOwd :: "u32 \<Rightarrow> u32 \<Rightarrow> ns_receiver \<Rightarrow> ns_receiver" where
  "nr_RecordOwd seq owd s = nr_event (nr_trace_owd_cb s) (TraceOwd seq owd) s"

definition nr_RecordRate :: "quic_time \<Rightarrow> ns_receiver \<Rightarrow> ns_receiver" where
  "nr_RecordRate now s =
     (if nr_last_rate_ts s = 0 then s\<lparr>nr_last_rate_ts := now + delta_FromMilliseconds 500\<rparr>
      else if now > nr_last_rate_ts s then
        let kbps = ucast (nr_recv_byte s * 8 div 500) :: u32;
            s = s\<lparr>nr_recv_byte := 0\<rparr>;
            s = nr_event (nr_trace_rate_cb s) (TraceRate kbps) s
        in s\<lparr>nr_last_rate_ts := now + delta_FromMilliseconds 500\<rparr>
      else s)"

definition nr_SendToNetwork :: "u8 list \<Rightarrow> ns_receiver \<Rightarrow> ns_receiver" where
  "nr_SendToNetwork p s = s\<lparr>nr_events := nr_events s @ [AckSent (nr_peer s) p]\<rparr>"

text \<open>The packet is the part of the buffer the two writers have filled.\<close>

definition ack_packet :: "framer_libs \<Rightarrow> parsed_quic_version list \<Rightarrow> quic_time \<Rightarrow> u64 \<Rightarrow> quic_ack_frame \<Rightarrow> u8 list" where
  "ack_packet libs versions approx seq ackframe =
     (let seq_len = GetMinSeqLength seq;
          header_len = 1 + seq_len;
          header_writer = write_header seq seq_len (QuicDataWriter header_len (replicate header_len 0) NETWORK_BYTE_ORDER);
          packet_length = kMaxBufferSize - header_len;
          writer = QuicDataWriter packet_length (replicate packet_length 0) NETWORK_BYTE_ORDER;
          fp = params_of libs (MyQuicFramer libs versions approx IS_CLIENT ());
          writer = snd (AppendAckFrameAndTypeByte (fp_version fp) (fp_incremental fp) (fp_write_at fp) (fp_creation_time fp)
                          ackframe writer)
      in take header_len (w_buffer header_writer) @ take (w_length writer) (w_buffer writer))"

definition nr_SendAck :: "framer_libs \<Rightarrow> int \<Rightarrow> ns_receiver \<Rightarrow> ns_receiver" where
  "nr_SendAck libs ms s =
     (let approx = NsQuicClock_Now ms in
      case GetUpdatedAckFrame approx (nr_recv_packet_manager s) of (ackframe, m) \<Rightarrow>
        let s = s\<lparr>nr_recv_packet_manager := m\<rparr>;
            s = nr_SendToNetwork (ack_packet libs (nr_versions s) approx (nr_seq s) ackframe) s
        in s\<lparr>nr_ack_sent := True, nr_num_packets_received_since_last_ack_sent := 0\<rparr>)"

definition nr_MaybeSendAck :: "framer_libs \<Rightarrow> int \<Rightarrow> ns_receiver \<Rightarrow> ns_receiver" where
  "nr_MaybeSendAck libs ms s =
     (if nr_received s < mMinReceivedBeforeAckDecimation then nr_SendAck libs ms s
      else if nr_num_packets_received_since_last_ack_sent s \<ge> mMaxRetransmittablePacketsBeforeAck then nr_SendAck libs ms s
      else if \<not> alarm_IsSet (nr_ack_alarm s) then
        let ack_delay = min mMaxDelayedAckTimeMs (trunc_div mMinRetransmissionTimeMs 2);
            next = NsQuicClock_Now ms + delta_FromMilliseconds ack_delay
        in s\<lparr>nr_ack_alarm := alarm_Update next (nr_ack_alarm s)\<rparr>
      else s)"

definition record_losses :: "u64 \<Rightarrow> ns_receiver \<Rightarrow> ns_receiver" where
  "record_losses seq s =
     (if seq \<ge> nr_base_seq s + 1
      then fold (\<lambda>i. nr_RecordLoss (word_of_nat i)) [unat (nr_base_seq s + 1)..<unat seq] s else s)"

definition note_arrival :: "int \<Rightarrow> u64 \<Rightarrow> u32 \<Rightarrow> ns_receiver \<Rightarrow> ns_receiver" where
  "note_arrival ms seq sent_ts s =
     (let now = NsQuicClock_Now ms;
          recv_ts = word_of_int (delta_ToMilliseconds (now - 0)) :: u32;
          s = s\<lparr>nr_owd := recv_ts - sent_ts\<rparr>;
          s = nr_RecordOwd (ucast seq) (nr_owd s) s
      in s\<lparr>nr_recv_packet_manager := RecordPacketReceived seq now (nr_recv_packet_manager s)\<rparr>)"

definition note_sequence :: "u64 \<Rightarrow> ns_receiver \<Rightarrow> ns_receiver" where
  "note_sequence seq s =
     (let s = record_losses seq s in if seq \<ge> nr_base_seq s + 1 then s\<lparr>nr_base_seq := seq\<rparr> else s)"

definition note_counts :: "nat \<Rightarrow> ns_receiver \<Rightarrow> ns_receiver" where
  "note_counts len s =
     s\<lparr>nr_num_packets_received_since_last_ack_sent := nr_num_packets_received_since_last_ack_sent s + 1,
       nr_received := nr_received s + 1, nr_recv_byte := nr_recv_byte s + word_of_nat len\<rparr>"

definition receive_stream :: "framer_libs \<Rightarrow> int \<Rightarrow> nat \<Rightarrow> u64 \<Rightarrow> u32 \<Rightarrow> ns_receiver \<Rightarrow> ns_receiver" where
  "receive_stream libs ms len seq sent_ts s =
     (let s = nr_RecordRate (NsQuicClock_Now ms) (note_counts len (note_sequence seq (note_arrival ms seq sent_ts s)))
      in if rpm_ack_frame_updated (nr_recv_packet_manager s) then nr_MaybeSendAck libs ms s else s)"

definition nr_OnIncomingData :: "framer_libs \<Rightarrow> int \<Rightarrow> u8 list \<Rightarrow> ns_receiver \<Rightarrow> ns_receiver" where
  "nr_OnIncomingData libs ms data s =
     (if \<not> nr_running s then s
      else
        case read_header (QuicDataReader data NETWORK_BYTE_ORDER) of (seq_len, seq, r) \<Rightarrow>
          (case read_or [0] (ReadBytes 1) r of (type, r) \<Rightarrow>
             let s = (if hd type = STREAM_FRAME_code then receive_stream libs ms (length data) seq (fst (read_or 0 ReadUInt32 r)) s else s) in
             if hd type = STOP_WAITING_FRAME_code then
               s\<lparr>nr_recv_packet_manager :=
                   DontWaitForPacketsBefore (fst (read_or 0 (ReadBytesToUInt64 seq_len) r)) (nr_recv_packet_manager s)\<rparr>
             else s))"

text \<open>The simulator runs the event of the timer, which is then expired; \<open>None\<close> is a timer with no pending event.\<close>

definition nr_HeartBeat :: "framer_libs \<Rightarrow> int \<Rightarrow> ns_receiver \<Rightarrow> ns_receiver" where
  "nr_HeartBeat libs ms s =
     (if \<not> nr_running s then s
      else if nr_heart_timer s = None then
        (case alarm_IsExpired (NsQuicClock_Now ms) (nr_ack_alarm s) of (expired, alarm) \<Rightarrow>
           let s = s\<lparr>nr_ack_alarm := alarm\<rparr>;
               s = (if expired then nr_SendAck libs ms s else s)
           in s\<lparr>nr_heart_timer := Some (ms + nr_heart_beat_t s)\<rparr>)
      else s)"

definition nr_timer_event :: "framer_libs \<Rightarrow> ns_receiver \<Rightarrow> ns_receiver" where
  "nr_timer_event libs s =
     (case nr_heart_timer s of None \<Rightarrow> s | Some ms \<Rightarrow> nr_HeartBeat libs ms (s\<lparr>nr_heart_timer := None\<rparr>))"

definition nr_StartApplication :: "int \<Rightarrow> ns_receiver \<Rightarrow> ns_receiver" where
  "nr_StartApplication ms s = s\<lparr>nr_heart_timer := Some ms\<rparr>"

definition nr_StopApplication :: "ns_receiver \<Rightarrow> ns_receiver" where
  "nr_StopApplication s =
     (let s = s\<lparr>nr_running := False, nr_heart_timer := None\<rparr>
      in nr_event (nr_trace_loss_cb s) (TraceLoss (ucast (nr_base_seq s)) 0) s)"

definition nr_RecvPacket :: "framer_libs \<Rightarrow> int \<Rightarrow> inet_address \<Rightarrow> u8 list \<Rightarrow> ns_receiver \<Rightarrow> ns_receiver" where
  "nr_RecvPacket libs ms remote packet s =
     nr_OnIncomingData libs ms packet (if nr_first s then s\<lparr>nr_peer := remote, nr_first := False\<rparr> else s)"

section \<open>What the operations keep\<close>

lemma nr_event_simps [simp]:
  "nr_recv_packet_manager (nr_event b e s) = nr_recv_packet_manager s" "nr_base_seq (nr_event b e s) = nr_base_seq s"
  "nr_running (nr_event b e s) = nr_running s" "nr_ack_alarm (nr_event b e s) = nr_ack_alarm s"
  "nr_received (nr_event b e s) = nr_received s" "nr_owd (nr_event b e s) = nr_owd s" "nr_seq (nr_event b e s) = nr_seq s"
  "nr_num_packets_received_since_last_ack_sent (nr_event b e s) = nr_num_packets_received_since_last_ack_sent s"
  "nr_trace_loss_cb (nr_event b e s) = nr_trace_loss_cb s" "nr_trace_owd_cb (nr_event b e s) = nr_trace_owd_cb s"
  "nr_trace_rate_cb (nr_event b e s) = nr_trace_rate_cb s" "nr_versions (nr_event b e s) = nr_versions s"
  "nr_peer (nr_event b e s) = nr_peer s" "nr_last_rate_ts (nr_event b e s) = nr_last_rate_ts s"
  "nr_recv_byte (nr_event b e s) = nr_recv_byte s" "nr_heart_timer (nr_event b e s) = nr_heart_timer s"
  "nr_heart_beat_t (nr_event b e s) = nr_heart_beat_t s"
  "nr_events (nr_event b e s) = nr_events s @ (if b then [e] else [])"
  by (simp_all add: nr_event_def)

text \<open>A whole reception, as one update of the fields the later proofs look at.\<close>

definition same_core :: "ns_receiver \<Rightarrow> ns_receiver \<Rightarrow> bool" where
  "same_core s s' \<longleftrightarrow>
     nr_recv_packet_manager s' = nr_recv_packet_manager s \<and> nr_base_seq s' = nr_base_seq s \<and> nr_running s' = nr_running s \<and>
     nr_ack_alarm s' = nr_ack_alarm s \<and> nr_received s' = nr_received s \<and> nr_owd s' = nr_owd s \<and> nr_seq s' = nr_seq s \<and>
     nr_num_packets_received_since_last_ack_sent s' = nr_num_packets_received_since_last_ack_sent s \<and>
     nr_trace_loss_cb s' = nr_trace_loss_cb s \<and> nr_trace_owd_cb s' = nr_trace_owd_cb s \<and> nr_versions s' = nr_versions s \<and>
     nr_peer s' = nr_peer s \<and> nr_heart_timer s' = nr_heart_timer s \<and> nr_heart_beat_t s' = nr_heart_beat_t s"

lemma same_core_refl [simp, intro]: "same_core s s"
  by (simp add: same_core_def)

lemma same_core_event [simp]: "same_core s (nr_event b e s)"
  by (simp add: same_core_def)

lemma same_core_trans: "same_core s t \<Longrightarrow> same_core t u \<Longrightarrow> same_core s u"
  by (simp add: same_core_def)

lemma record_losses_fold:
  "same_core s (fold (\<lambda>i. nr_RecordLoss (word_of_nat i)) is s) \<and>
   nr_events (fold (\<lambda>i. nr_RecordLoss (word_of_nat i)) is s) =
     nr_events s @ (if nr_trace_loss_cb s then map (\<lambda>i. TraceLoss (word_of_nat i) (nr_owd s)) is else [])"
proof (induction "is" arbitrary: s)
  case (Cons i "is")
  let ?s = "nr_RecordLoss (word_of_nat i) s"
  have "same_core s ?s" by (simp add: nr_RecordLoss_def)
  with Cons.IH [of ?s] same_core_trans [of s ?s] show ?case by (auto simp: nr_RecordLoss_def)
qed simp

lemma nr_RecordRate_core:
  "same_core s (nr_RecordRate now s) \<and> (\<exists>k. nr_events (nr_RecordRate now s) = nr_events s @ map TraceRate k)"
  by (auto simp: nr_RecordRate_def same_core_def Let_def intro: exI [of _ "[]"] exI [of _ "[_]"])

end
