(* ===== verification/Framer_Visitor.thy ===== *)
theory Framer_Visitor
  imports Framer_Dispatch
begin

text \<open>
  A visitor whose callbacks leave some part of its state alone: \<open>quiet_visitor\<close> is that contract, and
  ProcessFrameData then leaves the part alone on every input, whatever frames it carries and
  wherever it breaks off. The ns-3 sender is such a visitor for its sequence number and its packets.
\<close>

locale quiet_visitor =
  fixes vis :: "('v, 'y) frame_visitor_scheme"
    and part :: "'v \<Rightarrow> 'p"
  assumes quiet_start: "part (snd (OnAckFrameStart vis a d v)) = part v"
    and quiet_range: "part (snd (OnAckRange vis lo hi l v)) = part v"
    and quiet_error: "part (OnError vis e m v) = part v"
    and quiet_stream: "part (snd (OnStreamFrame vis sf v)) = part v"
    and quiet_ack: "part (snd (OnAckFrame vis af v)) = part v"
    and quiet_stop: "part (snd (OnStopWaitingFrame vis sw v)) = part v"
    and quiet_padding: "part (snd (OnPaddingFrame vis pf v)) = part v"
    and quiet_ping: "part (snd (OnPingFrame vis v)) = part v"
    and quiet_rst: "part (snd (OnRstStreamFrame vis rf v)) = part v"
    and quiet_close: "part (snd (OnConnectionCloseFrame vis cf v)) = part v"
    and quiet_goaway: "part (snd (OnGoAwayFrame vis gf v)) = part v"
    and quiet_window: "part (snd (OnWindowUpdateFrame vis wu v)) = part v"
    and quiet_blocked: "part (snd (OnBlockedFrame vis bf v)) = part v"
begin

definition ack_quiet :: "('v, 'a) ack_parse \<Rightarrow> bool" where
  "ack_quiet f \<longleftrightarrow> (\<forall>s r. part (as_visitor (fst (snd (f (s, r))))) = part (as_visitor s))"

definition step_quiet :: "('v, 'z) frame_step \<Rightarrow> bool" where
  "step_quiet f \<longleftrightarrow> (\<forall>s r. part (fr_visitor (fst (snd (f (s, r))))) = part (fr_visitor s))"

lemma step_quietD: "step_quiet f \<Longrightarrow> part (fr_visitor (fst (snd (f (s, r))))) = part (fr_visitor s)"
  by (simp add: step_quiet_def)

lemma ack_quiet_bind: "ack_quiet f \<Longrightarrow> (\<And>x. ack_quiet (g x)) \<Longrightarrow> ack_quiet (ack_bind f g)"
  unfolding ack_quiet_def ack_bind_def by (simp split: prod.splits sum.splits) (metis fst_conv snd_conv surj_pair)

lemma ack_quiet_pure: "ack_quiet (ack_return x)" "ack_quiet (ack_fail m)" "ack_quiet (ack_read m' f)"
  by (simp_all add: ack_quiet_def ack_return_def ack_fail_def ack_read_def split: prod.splits)

lemma ack_quiet_modify: "(\<And>s. as_visitor (h s) = as_visitor s) \<Longrightarrow> ack_quiet (ack_modify h)"
  by (simp add: ack_quiet_def ack_modify_def)

lemma ack_quiet_visit: "(\<And>v. part (snd (cb v)) = part v) \<Longrightarrow> ack_quiet (ack_visit cb)"
  unfolding ack_quiet_def ack_visit_def by (simp split: prod.splits) (metis snd_conv)

lemma ack_quiet_if: "ack_quiet f \<Longrightarrow> ack_quiet g \<Longrightarrow> ack_quiet (if b then f else g)"
  by simp

lemma ack_quiet_timestamp: "ack_quiet (\<lambda>st. add_timestamp t d (h st) st)"
  by (simp add: ack_quiet_def add_timestamp_def ack_modify_def)

lemmas ack_quiet_intros = ack_quiet_bind ack_quiet_pure ack_quiet_visit ack_quiet_if ack_quiet_timestamp quiet_start quiet_range

lemma ack_quiet_range: "ack_quiet (report_range vis inc lo hi l)"
  unfolding report_range_def by (intro ack_quiet_intros ack_quiet_modify) simp

lemma ack_quiet_blocks: "ack_quiet (process_ack_blocks vis inc len n first_received)"
proof (induction n arbitrary: first_received)
  case (Suc n)
  show ?case unfolding process_ack_blocks.simps Let_def by (intro ack_quiet_intros ack_quiet_range Suc)
qed (simp add: ack_quiet_pure)

lemma ack_quiet_timestamps: "ack_quiet (process_timestamp_deltas t n)"
proof (induction n)
  case (Suc n)
  show ?case unfolding process_timestamp_deltas.simps by (intro ack_quiet_intros Suc)
qed (simp add: ack_quiet_pure)

lemma ack_quiet_ProcessAckFrame: "ack_quiet (ProcessAckFrame version inc t vis ty)"
  unfolding ProcessAckFrame_def ProcessTimestampsInAckFrame_def Let_def
  by (intro ack_quiet_intros ack_quiet_blocks ack_quiet_timestamps ack_quiet_modify) simp_all

lemma step_quiet_fail: "step_quiet (fail_frame vis e m)"
  by (simp add: step_quiet_def fail_frame_def RaiseError_def quiet_error)

lemma step_quiet_visit: "(\<And>v. part (snd (cb v)) = part v) \<Longrightarrow> step_quiet (visit_frame cb)"
  unfolding step_quiet_def visit_frame_def by (simp split: prod.splits) (metis snd_conv)

lemma step_quiet_parse:
  assumes "\<And>x v. part (snd (cb x v)) = part v"
  shows "step_quiet (parse_frame vis e f cb)"
  unfolding step_quiet_def
proof (intro allI)
  fix s :: "('v, 'z) framer_scheme" and r
  obtain res r' where f: "f r = (res, r')" by fastforce
  have "step_quiet (fail_frame vis e m :: ('v, 'z) frame_step)" "step_quiet (visit_frame (cb x) :: ('v, 'z) frame_step)" for m x
    using step_quiet_fail step_quiet_visit assms by blast+
  then show "part (fr_visitor (fst (snd (parse_frame vis e f cb (s, r))))) = part (fr_visitor s)"
    by (cases res) (simp_all add: parse_frame_def f step_quiet_def)
qed

lemma step_quiet_padding:
  "step_quiet (\<lambda>(s, r). case ProcessPaddingFrame version r of (frame, r') \<Rightarrow> visit_frame (OnPaddingFrame vis frame) (s, r'))"
  using quiet_padding by (simp add: step_quiet_def visit_frame_def case_prod_unfold)

lemma step_quiet_if: "step_quiet f \<Longrightarrow> step_quiet g \<Longrightarrow> step_quiet (if b then f else g)"
  by simp

lemma step_quiet_ack: "step_quiet (process_ack fp vis ty)"
  unfolding step_quiet_def
proof (intro allI)
  fix s :: "('v, 'z) framer_scheme" and r
  let ?st = "\<lparr>as_visitor = fr_visitor s, as_frame = QuicAckFrame, as_last_timestamp = fr_last_timestamp s\<rparr>"
  obtain res st r' where f: "ProcessAckFrame (fp_version fp) (fp_incremental fp) (fp_creation_time fp) vis ty (?st, r) = (res, st, r')"
    by (metis prod_cases3)
  have "part (as_visitor st) = part (fr_visitor s)"
    using ack_quiet_ProcessAckFrame [of "fp_version fp" "fp_incremental fp" "fp_creation_time fp" ty] f
    unfolding ack_quiet_def by (metis ack_state.select_convs(1) fst_conv snd_conv)
  then show "part (fr_visitor (fst (snd (process_ack fp vis ty (s, r))))) = part (fr_visitor s)"
    unfolding process_ack_def prod.case f Let_def using quiet_ack
    by (cases res) (simp_all add: visit_frame_def fail_frame_def RaiseError_def quiet_error case_prod_unfold)
qed

lemma step_quiet_dispatch: "step_quiet (process_special fp vis ty)" "step_quiet (process_regular fp vis len pn ty)"
  unfolding process_special_def process_regular_def
  by (intro step_quiet_if step_quiet_fail step_quiet_parse step_quiet_padding step_quiet_ack step_quiet_visit
      quiet_stream quiet_rst quiet_close quiet_goaway quiet_window quiet_blocked quiet_stop quiet_ping)+

lemma process_frame_quiet: "part (fr_visitor (fst (snd (process_frame fp vis len pn (s, r))))) = part (fr_visitor s)"
proof -
  obtain bs r' where "ReadBytes 1 r = (bs, r')" by fastforce
  then show ?thesis
    by (cases bs) (simp_all add: process_frame_def Let_def step_quietD [OF step_quiet_fail] step_quietD [OF step_quiet_dispatch(1)]
        step_quietD [OF step_quiet_dispatch(2)])
qed

lemma process_frames_quiet: "part (fr_visitor (fst (snd (process_frames fp vis len pn s r)))) = part (fr_visitor s)"
proof (induction "BytesRemaining r" arbitrary: s r rule: less_induct)
  case less
  obtain out s1 r1 where st: "process_frame fp vis len pn (s, r) = (out, s1, r1)" by (metis prod_cases3)
  have q: "part (fr_visitor s1) = part (fr_visitor s)" using process_frame_quiet [of fp len pn s r] st by simp
  show ?case
  proof (cases "IsDoneReading r \<or> out \<noteq> Continue")
    case True
    then show ?thesis using st q by (cases out) (auto simp: process_frames.simps [of _ _ _ _ _ r])
  next
    case False
    then have "BytesRemaining r1 < BytesRemaining r" using st process_frame_advances by blast
    from less [OF this] False st q show ?thesis by (simp add: process_frames.simps [of _ _ _ _ _ r])
  qed
qed

lemma ProcessFrameData_quiet: "part (fr_visitor (fst (snd (ProcessFrameData fp vis len pn s r)))) = part (fr_visitor s)"
  using process_frames_quiet [of fp len pn s r] by (simp add: ProcessFrameData_def RaiseError_def quiet_error)

end

end
