(* ===== verification/Ns_Quic_Sender.thy ===== *)
theory Ns_Quic_Sender
  imports Ns_Quic_Receiver Framer_Payload Framer_Visitor
begin

text \<open>
  NsQuicSender (quic/model/ns\_quic\_sender.cc): every millisecond its heart beat retransmits what the
  sent packet manager has marked as lost, tells the receiver to stop waiting for old packets, and
  sends a new packet of 1000 bytes when the manager allows it. Acknowledgements arrive through the
  visitor callbacks of the framer. QuicSentPacketManager is a parameter: the record of the
  operations the sender calls, on a state of its own. The two reads beyond the datagram, one into a
  buffer of 1500 bytes and one with a length below zero, are the result \<open>None\<close>.
\<close>

section \<open>The sent packet manager\<close>

datatype transmission_type = NOT_RETRANSMISSION | LOSS_RETRANSMISSION

record serialized_packet =
  sp_packet_number :: u64
  sp_packet_number_length :: nat
  sp_encrypted_length :: u16
  sp_retransmittable_frames :: "quic_frame list"

record quic_pending_retransmission =
  qp_packet_number :: u64
  qp_retransmittable_frames :: "quic_frame list"

record 'm sent_packet_manager =
  spm_OnAckFrameStart :: "u64 \<Rightarrow> quic_delta \<Rightarrow> quic_time \<Rightarrow> 'm \<Rightarrow> 'm"
  spm_OnAckRange :: "u64 \<Rightarrow> u64 \<Rightarrow> 'm \<Rightarrow> 'm"
  spm_OnAckFrameEnd :: "quic_time \<Rightarrow> 'm \<Rightarrow> bool \<times> 'm"
  spm_GetLeastUnacked :: "'m \<Rightarrow> u64"
  spm_TimeUntilSend :: "quic_time \<Rightarrow> 'm \<Rightarrow> quic_delta \<times> 'm"
  spm_HasPendingRetransmissions :: "'m \<Rightarrow> bool"
  spm_NextPendingRetransmission :: "'m \<Rightarrow> quic_pending_retransmission \<times> 'm"
  spm_OnPacketSent :: "serialized_packet \<Rightarrow> u64 \<Rightarrow> quic_time \<Rightarrow> transmission_type \<Rightarrow> 'm \<Rightarrow> 'm"
  spm_BandwidthEstimate :: "'m \<Rightarrow> bandwidth"

section \<open>State\<close>

datatype send_event = SendRate u32 | PacketSent inet_address "u8 list"

record 'm ns_sender =
  ns_manager :: 'm
  ns_packet_versions :: "parsed_quic_version list"
  ns_time_of_last_received_packet :: quic_time
  ns_last_rate_ts :: quic_time
  ns_running :: bool
  ns_trace_rate_cb :: bool
  ns_peer :: inet_address
  ns_bind_port :: u16
  ns_seq :: u64
  ns_stop_waiting_count :: int
  ns_largest_acked :: u64
  ns_heart_timer :: "int option"
  ns_heart_beat_t :: int
  ns_events :: "send_event list"

definition kPaddingSize :: nat where "kPaddingSize = 1000"

definition NsQuicSender :: "'m \<Rightarrow> int \<Rightarrow> inet_address \<Rightarrow> u16 \<Rightarrow> 'm ns_sender" where
  "NsQuicSender manager ms peer port =
     \<lparr>ns_manager = manager, ns_packet_versions = ns_versions, ns_time_of_last_received_packet = NsQuicClock_ApproximateNow ms,
      ns_last_rate_ts = 0, ns_running = True, ns_trace_rate_cb = False, ns_peer = peer, ns_bind_port = port, ns_seq = 1,
      ns_stop_waiting_count = 0, ns_largest_acked = 1, ns_heart_timer = None, ns_heart_beat_t = 1, ns_events = []\<rparr>"

definition ns_Bind :: "u16 \<Rightarrow> 'm ns_sender \<Rightarrow> 'm ns_sender" where
  "ns_Bind port s = s\<lparr>ns_bind_port := port\<rparr>"

definition ns_ConfigurePeer :: "u32 \<Rightarrow> u16 \<Rightarrow> 'm ns_sender \<Rightarrow> 'm ns_sender" where
  "ns_ConfigurePeer addr port s = s\<lparr>ns_peer := (addr, port)\<rparr>"

definition ns_SetRateTraceFunc :: "'m ns_sender \<Rightarrow> 'm ns_sender" where
  "ns_SetRateTraceFunc s = s\<lparr>ns_trace_rate_cb := True\<rparr>"

section \<open>Sending\<close>

definition ns_SendToNetwork :: "u8 list \<Rightarrow> 'm ns_sender \<Rightarrow> 'm ns_sender" where
  "ns_SendToNetwork p s = s\<lparr>ns_events := ns_events s @ [PacketSent (ns_peer s) p]\<rparr>"

definition ns_RecordRate :: "'m sent_packet_manager \<Rightarrow> quic_time \<Rightarrow> 'm ns_sender \<Rightarrow> 'm ns_sender" where
  "ns_RecordRate spm now s =
     (if ns_last_rate_ts s = 0 then s\<lparr>ns_last_rate_ts := now + delta_FromMilliseconds 100\<rparr>
      else if now > ns_last_rate_ts s then
        let bw_kbps = word_of_int (bw_ToKBitsPerSecond (spm_BandwidthEstimate spm (ns_manager s))) :: u32;
            s = (if ns_trace_rate_cb s then s\<lparr>ns_events := ns_events s @ [SendRate bw_kbps]\<rparr> else s)
        in s\<lparr>ns_last_rate_ts := now + delta_FromMilliseconds 100\<rparr>
      else s)"

text \<open>The 1000 bytes both a new and a retransmitted packet have: the rest of the buffer stays zero.\<close>

definition fake_packet :: "quic_time \<Rightarrow> u64 \<Rightarrow> u8 list" where
  "fake_packet now seq =
     (let w = QuicDataWriter kPaddingSize (replicate kPaddingSize 0) NETWORK_BYTE_ORDER;
          w = write_header seq (GetMinSeqLength seq) w;
          w = snd (WriteBytes [STREAM_FRAME_code] w);
          ts = word_of_int (delta_ToMilliseconds (now - 0)) :: u32
      in w_buffer (snd (WriteUInt32 ts w)))"

definition packet_payload :: "u64 \<Rightarrow> u16" where
  "packet_payload seq = word_of_nat (kPaddingSize - (1 + GetMinSeqLength seq + 1))"

definition ns_OnPacketSent :: "'m sent_packet_manager \<Rightarrow> quic_time \<Rightarrow> u64 \<Rightarrow> nat \<Rightarrow> u16 \<Rightarrow> 'm ns_sender \<Rightarrow> 'm ns_sender" where
  "ns_OnPacketSent spm now packet_number packet_number_length encrypted_length s =
     (let stream = \<lparr>sf_stream_id = - 1, sf_fin = False, sf_offset = 0, sf_data = []\<rparr>;
          info = \<lparr>sp_packet_number = packet_number, sp_packet_number_length = packet_number_length,
                  sp_encrypted_length = encrypted_length, sp_retransmittable_frames = [STREAM_FRAME stream]\<rparr>
      in s\<lparr>ns_manager := spm_OnPacketSent spm info 0 now NOT_RETRANSMISSION (ns_manager s)\<rparr>)"

definition ns_SendFakePacket :: "'m sent_packet_manager \<Rightarrow> quic_time \<Rightarrow> 'm ns_sender \<Rightarrow> 'm ns_sender" where
  "ns_SendFakePacket spm now s =
     (let seq = ns_seq s;
          s = ns_SendToNetwork (fake_packet now seq) s;
          s = ns_OnPacketSent spm now seq (GetMinSeqLength seq) (packet_payload seq) s
      in s\<lparr>ns_seq := ns_seq s + 1\<rparr>)"

definition ns_OnRetransPacket ::
  "'m sent_packet_manager \<Rightarrow> quic_pending_retransmission \<Rightarrow> quic_time \<Rightarrow> 'm ns_sender \<Rightarrow> 'm ns_sender" where
  "ns_OnRetransPacket spm pending now s =
     (let seq = ns_seq s;
          s = ns_SendToNetwork (fake_packet now seq) s;
          info = \<lparr>sp_packet_number = seq, sp_packet_number_length = GetMinSeqLength seq,
                  sp_encrypted_length = packet_payload seq, sp_retransmittable_frames = qp_retransmittable_frames pending\<rparr>;
          s = s\<lparr>ns_manager := spm_OnPacketSent spm info (qp_packet_number pending) now LOSS_RETRANSMISSION (ns_manager s)\<rparr>
      in s\<lparr>ns_seq := ns_seq s + 1\<rparr>)"

text \<open>The loop goes on as long as the manager has lost packets and lets them be sent.\<close>

partial_function (option) ns_SendRetransmission ::
  "'m sent_packet_manager \<Rightarrow> quic_time \<Rightarrow> 'm ns_sender \<Rightarrow> 'm ns_sender option" where
  "ns_SendRetransmission spm now s =
     (let delta = fst (spm_TimeUntilSend spm now (ns_manager s));
          m = snd (spm_TimeUntilSend spm now (ns_manager s));
          s1 = s\<lparr>ns_manager := m\<rparr>
      in if delta = 0 \<and> spm_HasPendingRetransmissions spm m then
           ns_SendRetransmission spm now
             (ns_OnRetransPacket spm (fst (spm_NextPendingRetransmission spm m)) now
                (s1\<lparr>ns_manager := snd (spm_NextPendingRetransmission spm m)\<rparr>))
         else Some s1)"

definition stop_waiting_packet :: "u64 \<Rightarrow> u64 \<Rightarrow> u8 list" where
  "stop_waiting_packet seq unack_seq =
     (let seq_len = GetMinSeqLength seq;
          w = QuicDataWriter kMaxBufferSize (replicate kMaxBufferSize 0) NETWORK_BYTE_ORDER;
          w = write_header seq seq_len w;
          w = snd (WriteBytes [STOP_WAITING_FRAME_code] w);
          w = snd (WriteBytesToUInt64 seq_len unack_seq w)
      in take (w_length w) (w_buffer w))"

definition ns_SendStopWaitingFrame :: "'m sent_packet_manager \<Rightarrow> 'm ns_sender \<Rightarrow> 'm ns_sender" where
  "ns_SendStopWaitingFrame spm s =
     (let s = s\<lparr>ns_stop_waiting_count := 0\<rparr>
      in ns_SendToNetwork (stop_waiting_packet (ns_seq s) (spm_GetLeastUnacked spm (ns_manager s))) s)"

definition ns_HeartBeat :: "'m sent_packet_manager \<Rightarrow> int \<Rightarrow> 'm ns_sender \<Rightarrow> 'm ns_sender option" where
  "ns_HeartBeat spm ms s =
     (if \<not> ns_running s then Some s
      else if ns_heart_timer s = None then
        let quic_now = NsQuicClock_Now ms in
        case ns_SendRetransmission spm quic_now (ns_RecordRate spm quic_now s) of
          None \<Rightarrow> None
        | Some s \<Rightarrow>
            let s = (if ns_stop_waiting_count s > 2 then ns_SendStopWaitingFrame spm s else s) in
            case spm_TimeUntilSend spm quic_now (ns_manager s) of (delta, m) \<Rightarrow>
              let s = s\<lparr>ns_manager := m\<rparr>;
                  s = (if delta = 0 then ns_SendFakePacket spm quic_now s else s)
              in Some (s\<lparr>ns_heart_timer := Some (ms + ns_heart_beat_t s)\<rparr>)
      else Some s)"

definition ns_timer_event :: "'m sent_packet_manager \<Rightarrow> 'm ns_sender \<Rightarrow> 'm ns_sender option" where
  "ns_timer_event spm s =
     (case ns_heart_timer s of None \<Rightarrow> Some s | Some ms \<Rightarrow> ns_HeartBeat spm ms (s\<lparr>ns_heart_timer := None\<rparr>))"

definition ns_StartApplication :: "int \<Rightarrow> 'm ns_sender \<Rightarrow> 'm ns_sender" where
  "ns_StartApplication ms s = s\<lparr>ns_heart_timer := Some ms\<rparr>"

definition ns_StopApplication :: "'m ns_sender \<Rightarrow> 'm ns_sender" where
  "ns_StopApplication s = s\<lparr>ns_running := False, ns_heart_timer := None\<rparr>"

section \<open>Receiving\<close>

definition ns_PostProcessAfterAckFrame :: "bool \<Rightarrow> bool \<Rightarrow> 'm ns_sender \<Rightarrow> 'm ns_sender" where
  "ns_PostProcessAfterAckFrame send_stop_waiting acked_new_packet s =
     (if send_stop_waiting then s\<lparr>ns_stop_waiting_count := ns_stop_waiting_count s + 1\<rparr>
      else s\<lparr>ns_stop_waiting_count := 0\<rparr>)"

definition ns_OnAckFrameStart :: "'m sent_packet_manager \<Rightarrow> u64 \<Rightarrow> quic_delta \<Rightarrow> 'm ns_sender \<Rightarrow> bool \<times> 'm ns_sender" where
  "ns_OnAckFrameStart spm largest_acked ack_delay_time s =
     (let s = s\<lparr>ns_manager := spm_OnAckFrameStart spm largest_acked ack_delay_time
                  (ns_time_of_last_received_packet s) (ns_manager s)\<rparr>
      in (True, if largest_acked \<ge> ns_largest_acked s then s\<lparr>ns_largest_acked := largest_acked\<rparr> else s))"

definition ns_OnAckRange :: "'m sent_packet_manager \<Rightarrow> u64 \<Rightarrow> u64 \<Rightarrow> bool \<Rightarrow> 'm ns_sender \<Rightarrow> bool \<times> 'm ns_sender" where
  "ns_OnAckRange spm start end last_range s =
     (let s = s\<lparr>ns_manager := spm_OnAckRange spm start end (ns_manager s)\<rparr>
      in if \<not> last_range then (True, s)
         else
           case spm_OnAckFrameEnd spm (ns_time_of_last_received_packet s) (ns_manager s) of (acked_new_packet, m) \<Rightarrow>
             let s = s\<lparr>ns_manager := m\<rparr>
             in (True, ns_PostProcessAfterAckFrame (spm_GetLeastUnacked spm (ns_manager s) > start) acked_new_packet s))"

text \<open>AbstractQuicFramerVisitor accepts every frame and does nothing; the sender overrides the ACK callbacks.\<close>

definition ns_visitor :: "'m sent_packet_manager \<Rightarrow> 'm ns_sender frame_visitor" where
  "ns_visitor spm =
     \<lparr>OnAckFrameStart = ns_OnAckFrameStart spm, OnAckRange = ns_OnAckRange spm, OnError = (\<lambda>_ _ s. s),
      OnStreamFrame = (\<lambda>_ s. (True, s)), OnAckFrame = (\<lambda>_ s. (False, s)), OnStopWaitingFrame = (\<lambda>_ s. (True, s)),
      OnPaddingFrame = (\<lambda>_ s. (True, s)), OnPingFrame = (\<lambda>s. (True, s)), OnRstStreamFrame = (\<lambda>_ s. (True, s)),
      OnConnectionCloseFrame = (\<lambda>_ s. (True, s)), OnGoAwayFrame = (\<lambda>_ s. (True, s)),
      OnWindowUpdateFrame = (\<lambda>_ s. (True, s)), OnBlockedFrame = (\<lambda>_ s. (True, s))\<rparr>"

definition ns_OnIncomingData ::
  "'m sent_packet_manager \<Rightarrow> framer_libs \<Rightarrow> int \<Rightarrow> u8 list \<Rightarrow> 'm ns_sender \<Rightarrow> 'm ns_sender option" where
  "ns_OnIncomingData spm libs ms data s =
     (if \<not> ns_running s then Some s
      else
        let now = NsQuicClock_Now ms;
            s = s\<lparr>ns_time_of_last_received_packet := now\<rparr>
        in if length data > kMaxBufferSize then None
           else
             case read_header (QuicDataReader data NETWORK_BYTE_ORDER) of (seq_len, seq, _) \<Rightarrow>
               let header_len = 1 + seq_len in
               if length data < header_len then None
               else
                 let reader = QuicDataReader (drop header_len data) NETWORK_BYTE_ORDER;
                     framer = MyQuicFramer libs (ns_packet_versions s) now IS_CLIENT s;
                     quic_header = QuicPacketHeader libs
                 in case ProcessFrameData (params_of libs framer) (ns_visitor spm) (ph_packet_number_length quic_header)
                           (ph_packet_number quic_header) framer reader of
                      (_, framer, _) \<Rightarrow> Some (fr_visitor framer))"

definition ns_RecvPacket ::
  "'m sent_packet_manager \<Rightarrow> framer_libs \<Rightarrow> int \<Rightarrow> u8 list \<Rightarrow> 'm ns_sender \<Rightarrow> 'm ns_sender option" where
  "ns_RecvPacket spm libs ms packet s = ns_OnIncomingData spm libs ms packet s"

section \<open>The sender as a visitor\<close>

definition sender_part :: "'m ns_sender \<Rightarrow> u64 \<times> send_event list" where
  "sender_part s = (ns_seq s, ns_events s)"

lemma sender_part_update [simp]:
  "sender_part (s\<lparr>ns_manager := m\<rparr>) = sender_part s" "sender_part (s\<lparr>ns_time_of_last_received_packet := t\<rparr>) = sender_part s"
  "sender_part (s\<lparr>ns_stop_waiting_count := n\<rparr>) = sender_part s" "sender_part (s\<lparr>ns_largest_acked := a\<rparr>) = sender_part s"
  by (simp_all add: sender_part_def)

interpretation sender_visitor: quiet_visitor "ns_visitor spm" sender_part for spm
  by unfold_locales
    (simp_all add: ns_visitor_def ns_OnAckFrameStart_def ns_OnAckRange_def ns_PostProcessAfterAckFrame_def Let_def case_prod_beta)

text \<open>Nothing that arrives makes the sender send or skip a number.\<close>

lemma OnIncomingData_quiet:
  assumes "ns_OnIncomingData spm libs ms data s = Some s'"
  shows "sender_part s' = sender_part s"
proof (cases "ns_running s")
  case False
  then show ?thesis using assms by (simp add: ns_OnIncomingData_def)
next
  case True
  define s1 where "s1 = s\<lparr>ns_time_of_last_received_packet := NsQuicClock_Now ms\<rparr>"
  define framer where "framer = MyQuicFramer libs (ns_packet_versions s1) (NsQuicClock_Now ms) IS_CLIENT s1"
  obtain fp len pn r where "s' = fr_visitor (fst (snd (ProcessFrameData fp (ns_visitor spm) len pn framer r)))"
    using assms True unfolding ns_OnIncomingData_def Let_def s1_def [symmetric] framer_def [symmetric] case_prod_beta
    by (auto split: if_splits)
  then have "sender_part s' = sender_part (fr_visitor framer)" by (simp only: sender_visitor.ProcessFrameData_quiet)
  then show ?thesis by (simp add: framer_def MyQuicFramer_def s1_def)
qed

end
