(* ===== verification/Ns_Properties.thy ===== *)
theory Ns_Properties
  imports Ns_Quic_Sender Packet_Properties
begin

text \<open>
  The sender and the receiver of the simulation put together: the data packet of one is read by the
  other, the losses and delays traced are those of the packets on the way, an acknowledgement is
  delayed by at most 25 ms, reports exactly what has arrived, and packet numbers are consecutive.
\<close>

section \<open>A data packet on the wire\<close>

definition ns_timestamp :: "int \<Rightarrow> u32" where
  "ns_timestamp ms = word_of_int ms"

lemma clock_milliseconds: "delta_ToMilliseconds (NsQuicClock_Now ms) = ms"
proof -
  have "trunc_div (ms * 1000) 1000 = ms"
  proof (cases "ms \<ge> 0")
    case False
    then show ?thesis using trunc_div_neg_num [of "- ms * 1000" 1000] by (simp add: trunc_div_nonneg)
  qed (simp add: trunc_div_nonneg)
  then show ?thesis by (simp add: NsQuicClock_Now_def delta_ToMilliseconds_def delta_FromMilliseconds_def)
qed

lemma clock_timestamp: "word_of_int (delta_ToMilliseconds (NsQuicClock_Now ms - 0)) = ns_timestamp ms"
  by (simp add: ns_timestamp_def clock_milliseconds)

definition data_bytes :: "u64 \<Rightarrow> u32 \<Rightarrow> u8 list" where
  "data_bytes seq ts = ns_header_bytes seq @ STREAM_FRAME_code # uint_bytes NETWORK_BYTE_ORDER 4 (unat ts)"

lemma w_buffer_put_zeros:
  "length bs \<le> n \<Longrightarrow> w_buffer (w_put bs (QuicDataWriter n (replicate n 0) e)) = bs @ replicate (n - length bs) 0"
  by (simp add: w_put_def QuicDataWriter_def overwrite_def)

lemma fake_packet_bytes:
  "fake_packet (NsQuicClock_Now ms) seq =
     data_bytes seq (ns_timestamp ms) @ replicate (kPaddingSize - length (data_bytes seq (ns_timestamp ms))) 0"
proof -
  let ?ts = "uint_bytes NETWORK_BYTE_ORDER 4 (unat (ns_timestamp ms))"
  have len: "GetMinSeqLength seq \<le> 6" using GetMinSeqLength_cases [of seq] by auto
  define w where "w = QuicDataWriter kPaddingSize (replicate kPaddingSize 0) NETWORK_BYTE_ORDER"
  have w: "w_ok w" "w_endianness w = NETWORK_BYTE_ORDER" "w_room w = 1000" by (simp_all add: w_def kPaddingSize_def)
  have 1: "write_header seq (GetMinSeqLength seq) w = w_put (ns_header_bytes seq) w"
    using w len by (intro write_header_put) simp_all
  have 2: "WriteBytes [STREAM_FRAME_code] (w_put (ns_header_bytes seq) w) = (True, w_put (ns_header_bytes seq @ [STREAM_FRAME_code]) w)"
    using w len appends_fits [OF appends_WriteBytes, of "w_put (ns_header_bytes seq) w" NETWORK_BYTE_ORDER "[STREAM_FRAME_code]"]
      w_put_put [OF w(1), of "ns_header_bytes seq" "[STREAM_FRAME_code]"] by simp
  have 3: "WriteUInt32 (ns_timestamp ms) (w_put (ns_header_bytes seq @ [STREAM_FRAME_code]) w) = (True, w_put (data_bytes seq (ns_timestamp ms)) w)"
    using w len appends_fits [OF appends_WriteUInt32, of "w_put (ns_header_bytes seq @ [STREAM_FRAME_code]) w" NETWORK_BYTE_ORDER "ns_timestamp ms"]
      w_put_put [OF w(1), of "ns_header_bytes seq @ [STREAM_FRAME_code]" ?ts] by (simp add: data_bytes_def)
  have "fake_packet (NsQuicClock_Now ms) seq = w_buffer (w_put (data_bytes seq (ns_timestamp ms)) w)"
    unfolding fake_packet_def Let_def clock_timestamp w_def [symmetric] by (simp add: 1 2 3)
  also have "\<dots> = data_bytes seq (ns_timestamp ms) @ replicate (kPaddingSize - length (data_bytes seq (ns_timestamp ms))) 0"
    unfolding w_def using len by (intro w_buffer_put_zeros) (simp add: data_bytes_def kPaddingSize_def)
  finally show ?thesis .
qed

lemma length_fake_packet [simp]: "length (fake_packet (NsQuicClock_Now ms) seq) = 1000"
  using GetMinSeqLength_cases [of seq] by (auto simp: fake_packet_bytes data_bytes_def kPaddingSize_def)

lemma code_facts: "STREAM_FRAME_code \<noteq> STOP_WAITING_FRAME_code"
  by (simp add: STREAM_FRAME_code_def STOP_WAITING_FRAME_code_def)

lemma receive_fake_packet:
  assumes "nr_running s" "unat seq < 2 ^ 48"
  shows "nr_OnIncomingData libs ms' (fake_packet (NsQuicClock_Now ms) seq) s = receive_stream libs ms' 1000 seq (ns_timestamp ms) s"
proof -
  let ?p = "fake_packet (NsQuicClock_Now ms) seq"
  define r where "r = QuicDataReader ?p NETWORK_BYTE_ORDER"
  define r1 where "r1 = r_skip (1 + GetMinSeqLength seq) r"
  obtain zs where p: "?p = ns_header_bytes seq @ STREAM_FRAME_code # uint_bytes NETWORK_BYTE_ORDER 4 (unat (ns_timestamp ms)) @ zs"
    using fake_packet_bytes [of ms seq] by (auto simp: data_bytes_def)
  have r: "r_endianness r = NETWORK_BYTE_ORDER" "r_rest r = ?p" by (simp_all add: r_def QuicDataReader_def r_rest_def)
  note hd = read_header_bytes [OF assms(2) r(1) r(2) [unfolded p], folded r1_def]
  have e1: "r_endianness r1 = NETWORK_BYTE_ORDER" using r by (simp add: r1_def)
  have 1: "read_or [0] (ReadBytes 1) r1 = ([STREAM_FRAME_code], r_skip 1 r1)"
    using read_or_reads [OF reads_ReadBytes [of "[STREAM_FRAME_code]" 1] e1] hd(2) by simp
  have "r_rest (r_skip 1 r1) = uint_bytes NETWORK_BYTE_ORDER 4 (unat (ns_timestamp ms)) @ zs"
    using r_rest_skip [of r1 "[STREAM_FRAME_code]"] hd(2) by simp
  then have 2: "fst (read_or 0 ReadUInt32 (r_skip 1 r1)) = ns_timestamp ms"
    using read_or_reads [OF reads_ReadUInt32] e1 by simp
  show ?thesis unfolding nr_OnIncomingData_def r_def [symmetric] hd(1) prod.case 1 list.sel Let_def 2
    using assms(1) code_facts by simp
qed

section \<open>What a reception does\<close>

lemma nr_SendAck_simps [simp]:
  "nr_base_seq (nr_SendAck libs ms s) = nr_base_seq s" "nr_running (nr_SendAck libs ms s) = nr_running s"
  "nr_received (nr_SendAck libs ms s) = nr_received s" "nr_owd (nr_SendAck libs ms s) = nr_owd s"
  "nr_seq (nr_SendAck libs ms s) = nr_seq s" "nr_versions (nr_SendAck libs ms s) = nr_versions s"
  "nr_trace_loss_cb (nr_SendAck libs ms s) = nr_trace_loss_cb s" "nr_trace_owd_cb (nr_SendAck libs ms s) = nr_trace_owd_cb s"
  "nr_peer (nr_SendAck libs ms s) = nr_peer s" "nr_ack_alarm (nr_SendAck libs ms s) = nr_ack_alarm s"
  "nr_heart_timer (nr_SendAck libs ms s) = nr_heart_timer s" "nr_heart_beat_t (nr_SendAck libs ms s) = nr_heart_beat_t s"
  "nr_num_packets_received_since_last_ack_sent (nr_SendAck libs ms s) = 0"
  "nr_recv_packet_manager (nr_SendAck libs ms s) = snd (GetUpdatedAckFrame (NsQuicClock_Now ms) (nr_recv_packet_manager s))"
  "nr_events (nr_SendAck libs ms s) = nr_events s @ [AckSent (nr_peer s)
     (ack_packet libs (nr_versions s) (NsQuicClock_Now ms) (nr_seq s) (fst (GetUpdatedAckFrame (NsQuicClock_Now ms) (nr_recv_packet_manager s))))]"
  by (simp_all add: nr_SendAck_def nr_SendToNetwork_def Let_def case_prod_beta)

text \<open>The state just before the receiver decides whether to acknowledge.\<close>

definition noted :: "int \<Rightarrow> nat \<Rightarrow> u64 \<Rightarrow> u32 \<Rightarrow> ns_receiver \<Rightarrow> ns_receiver" where
  "noted ms len seq sent_ts s = nr_RecordRate (NsQuicClock_Now ms) (note_counts len (note_sequence seq (note_arrival ms seq sent_ts s)))"

definition gap :: "u64 \<Rightarrow> u64 \<Rightarrow> nat list" where
  "gap base seq = (if seq \<ge> base + 1 then [unat (base + 1)..<unat seq] else [])"

lemma record_losses_core:
  "same_core s (record_losses seq s) \<and> nr_events (record_losses seq s) =
     nr_events s @ (if nr_trace_loss_cb s then map (\<lambda>i. TraceLoss (word_of_nat i) (nr_owd s)) (gap (nr_base_seq s) seq) else [])"
  using record_losses_fold [of s "[unat (nr_base_seq s + 1)..<unat seq]"] by (simp add: record_losses_def gap_def)

lemma noted_fields:
  fixes s :: ns_receiver and ms :: int and len :: nat and seq :: u64 and ts :: u32 and libs :: framer_libs
  defines "s' \<equiv> noted ms len seq ts s" and "owd \<equiv> ns_timestamp ms - ts"
  shows "nr_recv_packet_manager s' = RecordPacketReceived seq (NsQuicClock_Now ms) (nr_recv_packet_manager s)"
    "nr_base_seq s' = (if seq \<ge> nr_base_seq s + 1 then seq else nr_base_seq s)" "nr_running s' = nr_running s"
    "nr_ack_alarm s' = nr_ack_alarm s" "nr_received s' = nr_received s + 1" "nr_owd s' = owd" "nr_seq s' = nr_seq s"
    "nr_num_packets_received_since_last_ack_sent s' = nr_num_packets_received_since_last_ack_sent s + 1"
    "nr_trace_loss_cb s' = nr_trace_loss_cb s" "nr_trace_owd_cb s' = nr_trace_owd_cb s" "nr_versions s' = nr_versions s"
    "nr_peer s' = nr_peer s" "nr_heart_timer s' = nr_heart_timer s" "nr_heart_beat_t s' = nr_heart_beat_t s"
    "\<exists>k. nr_events s' = nr_events s @ (if nr_trace_owd_cb s then [TraceOwd (ucast seq) owd] else []) @
       (if nr_trace_loss_cb s then map (\<lambda>i. TraceLoss (word_of_nat i) owd) (gap (nr_base_seq s) seq) else []) @ map TraceRate k"
proof -
  define s1 where "s1 = note_arrival ms seq ts s"
  define s2 where "s2 = record_losses seq s1"
  define s4 where "s4 = note_counts len (note_sequence seq s1)"
  have s': "s' = nr_RecordRate (NsQuicClock_Now ms) s4" by (simp add: s'_def noted_def s1_def s4_def)
  have s1: "s1 = (nr_event (nr_trace_owd_cb s) (TraceOwd (ucast seq) owd) (s\<lparr>nr_owd := owd\<rparr>))
    \<lparr>nr_recv_packet_manager := RecordPacketReceived seq (NsQuicClock_Now ms) (nr_recv_packet_manager s)\<rparr>"
    unfolding s1_def note_arrival_def Let_def clock_timestamp owd_def nr_RecordOwd_def by simp
  have s4: "s4 = note_counts len (if seq \<ge> nr_base_seq s2 + 1 then s2\<lparr>nr_base_seq := seq\<rparr> else s2)"
    by (simp add: s4_def note_sequence_def s2_def Let_def)
  have c2: "same_core s1 s2" "nr_events s2 = nr_events s1 @
      (if nr_trace_loss_cb s1 then map (\<lambda>i. TraceLoss (word_of_nat i) (nr_owd s1)) (gap (nr_base_seq s1) seq) else [])"
    using record_losses_core [of s1 seq] by (simp_all add: s2_def)
  have c4: "same_core s4 s'" "\<exists>k. nr_events s' = nr_events s4 @ map TraceRate k"
    using nr_RecordRate_core [of s4 "NsQuicClock_Now ms"] by (simp_all add: s')
  note defs = s1 s4 note_counts_def
  show "nr_recv_packet_manager s' = RecordPacketReceived seq (NsQuicClock_Now ms) (nr_recv_packet_manager s)"
    "nr_base_seq s' = (if seq \<ge> nr_base_seq s + 1 then seq else nr_base_seq s)" "nr_running s' = nr_running s"
    "nr_ack_alarm s' = nr_ack_alarm s" "nr_received s' = nr_received s + 1" "nr_owd s' = owd" "nr_seq s' = nr_seq s"
    "nr_num_packets_received_since_last_ack_sent s' = nr_num_packets_received_since_last_ack_sent s + 1"
    "nr_trace_loss_cb s' = nr_trace_loss_cb s" "nr_trace_owd_cb s' = nr_trace_owd_cb s" "nr_versions s' = nr_versions s"
    "nr_peer s' = nr_peer s" "nr_heart_timer s' = nr_heart_timer s" "nr_heart_beat_t s' = nr_heart_beat_t s"
    using c2(1) c4(1) by (simp_all add: same_core_def defs)
  obtain k where "nr_events s' = nr_events s4 @ map TraceRate k" using c4(2) by blast
  then show "\<exists>k. nr_events s' = nr_events s @ (if nr_trace_owd_cb s then [TraceOwd (ucast seq) owd] else []) @
       (if nr_trace_loss_cb s then map (\<lambda>i. TraceLoss (word_of_nat i) owd) (gap (nr_base_seq s) seq) else []) @ map TraceRate k"
    using c2 by (intro exI [of _ k]) (simp add: same_core_def defs)
qed

lemma receive_stream_noted: "receive_stream libs ms len seq ts s = nr_MaybeSendAck libs ms (noted ms len seq ts s)"
  unfolding receive_stream_def noted_def [symmetric] Let_def by (simp add: noted_fields(1))

lemma MaybeSendAck_eq:
  "nr_MaybeSendAck libs ms s =
     (if nr_received s < 100 \<or> nr_num_packets_received_since_last_ack_sent s \<ge> 10 then nr_SendAck libs ms s
      else if alarm_IsSet (nr_ack_alarm s) then s
      else s\<lparr>nr_ack_alarm := \<lparr>m_deadline = NsQuicClock_Now ms + 25000\<rparr>\<rparr>)"
proof -
  have "alarm_Update d a = \<lparr>m_deadline = d\<rparr>" for d a by (cases a) (simp add: alarm_Update_def)
  then show ?thesis
    by (simp add: nr_MaybeSendAck_def Let_def mMaxDelayedAckTimeMs_def mMinRetransmissionTimeMs_def trunc_div_nonneg
        delta_FromMilliseconds_def mMaxRetransmittablePacketsBeforeAck_def mMinReceivedBeforeAckDecimation_def)
qed

lemma MaybeSendAck_simps [simp]:
  "nr_base_seq (nr_MaybeSendAck libs ms s) = nr_base_seq s" "nr_running (nr_MaybeSendAck libs ms s) = nr_running s"
  "nr_trace_loss_cb (nr_MaybeSendAck libs ms s) = nr_trace_loss_cb s" "nr_trace_owd_cb (nr_MaybeSendAck libs ms s) = nr_trace_owd_cb s"
  "nr_versions (nr_MaybeSendAck libs ms s) = nr_versions s" "nr_peer (nr_MaybeSendAck libs ms s) = nr_peer s"
  "nr_seq (nr_MaybeSendAck libs ms s) = nr_seq s" "nr_received (nr_MaybeSendAck libs ms s) = nr_received s"
  "nr_heart_timer (nr_MaybeSendAck libs ms s) = nr_heart_timer s" "nr_heart_beat_t (nr_MaybeSendAck libs ms s) = nr_heart_beat_t s"
  by (simp_all add: MaybeSendAck_eq)

lemma MaybeSendAck_manager:
  "nr_recv_packet_manager (nr_MaybeSendAck libs ms s) \<in>
     {nr_recv_packet_manager s, snd (GetUpdatedAckFrame (NsQuicClock_Now ms) (nr_recv_packet_manager s))}"
  by (simp add: MaybeSendAck_eq)

lemma MaybeSendAck_events: "\<exists>acks. nr_events (nr_MaybeSendAck libs ms s) = nr_events s @ map (AckSent (nr_peer s)) acks"
proof (cases "nr_received s < 100 \<or> nr_num_packets_received_since_last_ack_sent s \<ge> 10")
  case True
  then have "nr_MaybeSendAck libs ms s = nr_SendAck libs ms s" by (simp only: MaybeSendAck_eq if_True)
  then show ?thesis by (intro exI [of _ "[_]"]) simp
next
  case False
  then show ?thesis by (intro exI [of _ "[]"]) (simp add: MaybeSendAck_eq)
qed

lemma receive_stream_fields:
  fixes s :: ns_receiver and ms :: int and len :: nat and seq :: u64 and ts :: u32 and libs :: framer_libs
  defines "s' \<equiv> receive_stream libs ms len seq ts s" and "owd \<equiv> ns_timestamp ms - ts"
    and "m \<equiv> RecordPacketReceived seq (NsQuicClock_Now ms) (nr_recv_packet_manager s)"
  shows "nr_recv_packet_manager s' \<in> {m, snd (GetUpdatedAckFrame (NsQuicClock_Now ms) m)}"
    "nr_base_seq s' = (if seq \<ge> nr_base_seq s + 1 then seq else nr_base_seq s)" "nr_running s' = nr_running s"
    "nr_trace_loss_cb s' = nr_trace_loss_cb s" "nr_trace_owd_cb s' = nr_trace_owd_cb s" "nr_versions s' = nr_versions s"
    "nr_peer s' = nr_peer s" "nr_seq s' = nr_seq s"
    "\<exists>k acks. nr_events s' = nr_events s @ (if nr_trace_owd_cb s then [TraceOwd (ucast seq) owd] else []) @
       (if nr_trace_loss_cb s then map (\<lambda>i. TraceLoss (word_of_nat i) owd) (gap (nr_base_seq s) seq) else []) @
       map TraceRate k @ map (AckSent (nr_peer s)) acks"
proof -
  define n where "n = noted ms len seq ts s"
  note f = noted_fields [of ms len seq ts s, folded n_def owd_def m_def]
  have s': "s' = nr_MaybeSendAck libs ms n" by (simp add: s'_def n_def receive_stream_noted)
  show "nr_recv_packet_manager s' \<in> {m, snd (GetUpdatedAckFrame (NsQuicClock_Now ms) m)}"
    using MaybeSendAck_manager [of libs ms n] unfolding s' f(1) .
  show "nr_base_seq s' = (if seq \<ge> nr_base_seq s + 1 then seq else nr_base_seq s)" "nr_running s' = nr_running s"
    "nr_trace_loss_cb s' = nr_trace_loss_cb s" "nr_trace_owd_cb s' = nr_trace_owd_cb s" "nr_versions s' = nr_versions s"
    "nr_peer s' = nr_peer s" "nr_seq s' = nr_seq s"
    unfolding s' MaybeSendAck_simps f by (rule refl)+
  show "\<exists>k acks. nr_events s' = nr_events s @ (if nr_trace_owd_cb s then [TraceOwd (ucast seq) owd] else []) @
       (if nr_trace_loss_cb s then map (\<lambda>i. TraceLoss (word_of_nat i) owd) (gap (nr_base_seq s) seq) else []) @
       map TraceRate k @ map (AckSent (nr_peer s)) acks"
    using f(15) MaybeSendAck_events [of libs ms n] unfolding s' f(12) by (elim exE) (simp only: append_assoc, blast)
qed

section \<open>Loss and delay\<close>

text \<open>Data packets that reach the receiver: when each was sent, when it arrives, and its number.\<close>

type_synonym arrival = "int \<times> int \<times> u64"

primrec nr_receive_all :: "framer_libs \<Rightarrow> inet_address \<Rightarrow> arrival list \<Rightarrow> ns_receiver \<Rightarrow> ns_receiver" where
  "nr_receive_all libs remote [] s = s"
| "nr_receive_all libs remote (a # as) s =
     (case a of (sent, arrived, seq) \<Rightarrow>
        nr_receive_all libs remote as (nr_RecvPacket libs arrived remote (fake_packet (NsQuicClock_Now sent) seq) s))"

definition losses :: "recv_event list \<Rightarrow> u32 list" where
  "losses es = concat (map (\<lambda>e. case e of TraceLoss seq _ \<Rightarrow> [seq] | _ \<Rightarrow> []) es)"

definition delays :: "recv_event list \<Rightarrow> (u32 \<times> u32) list" where
  "delays es = concat (map (\<lambda>e. case e of TraceOwd seq owd \<Rightarrow> [(seq, owd)] | _ \<Rightarrow> []) es)"

text \<open>The numbers that were larger than every number before them.\<close>

fun maxima :: "nat \<Rightarrow> nat list \<Rightarrow> nat list" where
  "maxima b [] = []"
| "maxima b (x # xs) = (if b < x then x # maxima x xs else maxima b xs)"

lemma losses_append [simp]: "losses (es @ es') = losses es @ losses es'" "losses [] = []"
  by (simp_all add: losses_def)

lemma delays_append [simp]: "delays (es @ es') = delays es @ delays es'" "delays [] = []"
  by (simp_all add: delays_def)

lemma trace_others [simp]:
  "losses (map TraceRate k) = []" "losses (map (AckSent p) acks) = []" "losses (TraceOwd n d # es) = losses es"
  "delays (map TraceRate k) = []" "delays (map (AckSent p) acks) = []" "delays (TraceOwd n d # es) = (n, d) # delays es"
  "losses (map (\<lambda>i. TraceLoss (f i) d) is) = map f is" "delays (map (\<lambda>i. TraceLoss (f i) d) is) = []"
  by (simp_all add: losses_def delays_def o_def concat_map_singleton)

lemma maxima_above: "x \<in> set (maxima b xs) \<Longrightarrow> b < x"
  by (induction b xs rule: maxima.induct) (auto split: if_splits)

lemma foldl_max_ge: "(b :: nat) \<le> foldl max b xs"
  by (induction xs arbitrary: b) (simp, metis foldl_Cons max.bounded_iff max.cobounded1 order_trans)

lemma lost_numbers_step:
  assumes "b < x"
  shows "[i \<leftarrow> [Suc b..<Suc (foldl max x xs)]. i \<noteq> x \<and> i \<notin> set (maxima x xs)] =
    [Suc b..<x] @ [i \<leftarrow> [Suc x..<Suc (foldl max x xs)]. i \<notin> set (maxima x xs)]"
proof -
  define M where "M = foldl max x xs"
  have M: "x \<le> M" unfolding M_def by (rule foldl_max_ge)
  have "[Suc b..<Suc M] = [Suc b..<x] @ [x..<Suc M]"
    using assms M upt_add_eq_append [of "Suc b" x "Suc M - x"] by (simp del: upt_Suc)
  then have parts: "[Suc b..<Suc M] = [Suc b..<x] @ x # [Suc x..<Suc M]" using M by (simp add: upt_conv_Cons del: upt_Suc)
  have "\<forall>i\<in>set [Suc b..<x]. i \<noteq> x \<and> i \<notin> set (maxima x xs)" using maxima_above [of _ x xs] by fastforce
  then have 1: "[i \<leftarrow> [Suc b..<x]. i \<noteq> x \<and> i \<notin> set (maxima x xs)] = [Suc b..<x]" by (rule filter_True)
  have 2: "[i \<leftarrow> [Suc x..<Suc M]. i \<noteq> x \<and> i \<notin> set (maxima x xs)] = [i \<leftarrow> [Suc x..<Suc M]. i \<notin> set (maxima x xs)]"
    by (rule filter_cong [OF refl]) (auto simp del: upt_Suc)
  show ?thesis unfolding M_def [symmetric] parts using 1 2 by (simp del: upt_Suc)
qed

lemma gap_nat:
  assumes "unat base < 2 ^ 32"
  shows "gap base seq = [Suc (unat base)..<unat seq]" "seq \<ge> base + 1 \<longleftrightarrow> unat base < unat seq"
proof -
  have "unat (base + 1) = Suc (unat base)" using assms by (simp add: unat_word_ariths)
  then show "seq \<ge> base + 1 \<longleftrightarrow> unat base < unat seq" by (auto simp: word_le_nat_alt)
  then show "gap base seq = [Suc (unat base)..<unat seq]" using \<open>unat (base + 1) = Suc (unat base)\<close> by (simp add: gap_def)
qed

lemma receive_all_trace:
  fixes libs :: framer_libs and remote :: inet_address
  assumes "nr_running s" "nr_trace_loss_cb s" "nr_trace_owd_cb s" "unat (nr_base_seq s) < 2 ^ 32"
    "\<forall>(sent, arrived, seq)\<in>set as. unat seq < 2 ^ 32"
  defines "s' \<equiv> nr_receive_all libs remote as s" and "seqs \<equiv> map (\<lambda>(_, _, seq). unat seq) as"
  shows "losses (nr_events s') = losses (nr_events s) @
      map word_of_nat [i \<leftarrow> [Suc (unat (nr_base_seq s))..<Suc (foldl max (unat (nr_base_seq s)) seqs)].
                         i \<notin> set (maxima (unat (nr_base_seq s)) seqs)] \<and>
    delays (nr_events s') = delays (nr_events s) @ map (\<lambda>(sent, arrived, seq). (ucast seq, word_of_int (arrived - sent))) as \<and>
    unat (nr_base_seq s') = foldl max (unat (nr_base_seq s)) seqs"
  using assms(1-5) unfolding s'_def seqs_def
proof (induction as arbitrary: s)
  case (Cons a as)
  obtain sent arrived seq where a: "a = (sent, arrived, seq)" by (cases a)
  define t where "t = (if nr_first s then s\<lparr>nr_peer := remote, nr_first := False\<rparr> else s)"
  have t: "nr_running t" "nr_trace_loss_cb t" "nr_trace_owd_cb t" "nr_base_seq t = nr_base_seq s" "nr_events t = nr_events s"
    using Cons.prems by (simp_all add: t_def)
  have seq: "unat seq < 2 ^ 32" using Cons.prems(5) a by simp
  define u where "u = receive_stream libs arrived 1000 seq (ns_timestamp sent) t"
  have recv: "nr_receive_all libs remote (a # as) s = nr_receive_all libs remote as u"
    using receive_fake_packet [OF t(1), of seq libs arrived sent] seq by (simp add: a nr_RecvPacket_def t_def [symmetric] u_def)
  note f = receive_stream_fields [of libs arrived 1000 seq "ns_timestamp sent" t, folded u_def]
  note g = gap_nat [OF Cons.prems(4), of seq]
  have base: "unat (nr_base_seq u) = max (unat (nr_base_seq s)) (unat seq)" using f(2) g(2) by (auto simp: t(4) max_def)
  have ev: "losses (nr_events u) = losses (nr_events s) @ map word_of_nat [Suc (unat (nr_base_seq s))..<unat seq]"
    "delays (nr_events u) = delays (nr_events s) @ [(ucast seq, word_of_int (arrived - sent))]"
    using f(9) t g(1) by (auto simp: ns_timestamp_def)
  have IH: "losses (nr_events (nr_receive_all libs remote as u)) = losses (nr_events u) @
      map word_of_nat [i \<leftarrow> [Suc (unat (nr_base_seq u))..<Suc (foldl max (unat (nr_base_seq u)) (map (\<lambda>(_, _, seq). unat seq) as))].
                         i \<notin> set (maxima (unat (nr_base_seq u)) (map (\<lambda>(_, _, seq). unat seq) as))] \<and>
    delays (nr_events (nr_receive_all libs remote as u)) =
      delays (nr_events u) @ map (\<lambda>(sent, arrived, seq). (ucast seq, word_of_int (arrived - sent))) as \<and>
    unat (nr_base_seq (nr_receive_all libs remote as u)) = foldl max (unat (nr_base_seq u)) (map (\<lambda>(_, _, seq). unat seq) as)"
    using Cons.prems base seq f t by (intro Cons.IH) auto
  show ?case
  proof (cases "unat (nr_base_seq s) < unat seq")
    case True
    then have b: "unat (nr_base_seq u) = unat seq" using base by simp
    show ?thesis unfolding recv using IH ev True
      by (simp add: a b lost_numbers_step [OF True] max.absorb2 del: upt_Suc)
  next
    case False
    then have b: "unat (nr_base_seq u) = unat (nr_base_seq s)" using base by simp
    show ?thesis unfolding recv using IH ev False by (simp add: a b max.absorb1 del: upt_Suc)
  qed
qed simp

text \<open>
  C35. Loss and delay as the receiver traces them: of the data packets SendFakePacket and
  OnRetransPacket put on the network, whichever arrive and in whatever order, the numbers traced as
  lost are exactly those up to the largest arrived one that were not, at their arrival, larger than
  every number before, each once and in ascending order; without reordering these are the numbers
  that did not arrive. Every arrived packet is traced with the time it spent on the way, modulo
  \<open>2 ^ 32\<close> milliseconds.
\<close>

theorem ns_loss_accounting:
  assumes "\<forall>(sent, arrived, seq)\<in>set as. unat seq < 2 ^ 32"
  shows "let s = nr_SetOwdTraceFunc (nr_SetLossTraceFunc (NsQuicReceiver peer port));
      s' = nr_receive_all libs remote as s; seqs = map (\<lambda>(_, _, seq). unat seq) as in
    losses (nr_events s') = map word_of_nat [i \<leftarrow> [1..<Suc (foldl max 0 seqs)]. i \<notin> set (maxima 0 seqs)] \<and>
    delays (nr_events s') = map (\<lambda>(sent, arrived, seq). (ucast seq, word_of_int (arrived - sent))) as \<and>
    unat (nr_base_seq s') = foldl max 0 seqs"
proof -
  let ?s = "nr_SetOwdTraceFunc (nr_SetLossTraceFunc (NsQuicReceiver peer port))"
  have s: "nr_running ?s" "nr_trace_loss_cb ?s" "nr_trace_owd_cb ?s" "nr_base_seq ?s = 0" "nr_events ?s = []"
    by (simp_all add: nr_SetOwdTraceFunc_def nr_SetLossTraceFunc_def NsQuicReceiver_def)
  show ?thesis using receive_all_trace [OF s(1-3) _ assms, of libs remote] by (simp add: s(4,5) Let_def del: upt_Suc)
qed

section \<open>No acknowledgement is put off for long\<close>

text \<open>
  The receiver in the simulator: \<open>nr_reachable libs t a s\<close> says that it can be in state \<open>s\<close> at time
  \<open>t\<close>, \<open>a\<close> being when the oldest packet arrived that it has not acknowledged yet. Datagrams of any
  content arrive at any time; the timer event runs when it is due and time does not pass it by.
\<close>

inductive nr_reachable :: "framer_libs \<Rightarrow> int \<Rightarrow> int \<Rightarrow> ns_receiver \<Rightarrow> bool" for libs where
  start: "0 \<le> t \<Longrightarrow> nr_reachable libs t t (nr_StartApplication t (NsQuicReceiver peer port))"
| trace_loss: "nr_reachable libs t a s \<Longrightarrow> nr_reachable libs t a (nr_SetLossTraceFunc s)"
| trace_owd: "nr_reachable libs t a s \<Longrightarrow> nr_reachable libs t a (nr_SetOwdTraceFunc s)"
| trace_rate: "nr_reachable libs t a s \<Longrightarrow> nr_reachable libs t a (nr_SetRateTraceFunc s)"
| datagram: "nr_reachable libs t a s \<Longrightarrow> t \<le> t' \<Longrightarrow> (\<And>due. nr_heart_timer s = Some due \<Longrightarrow> t' \<le> due) \<Longrightarrow>
    nr_reachable libs t' (if nr_num_packets_received_since_last_ack_sent s = 0 then t' else a)
      (nr_RecvPacket libs t' remote data s)"
| timer: "nr_reachable libs t a s \<Longrightarrow> nr_heart_timer s = Some due \<Longrightarrow> nr_reachable libs due a (nr_timer_event libs s)"
| stop: "nr_reachable libs t a s \<Longrightarrow> nr_reachable libs t a (nr_StopApplication s)"

definition ack_pending :: "int \<Rightarrow> int \<Rightarrow> int \<Rightarrow> u64 \<Rightarrow> quic_time \<Rightarrow> bool" where
  "ack_pending t a due num deadline \<longleftrightarrow>
     due - 1 \<le> t \<and> t \<le> due \<and> (deadline > 0 \<longrightarrow> (due - 1) * 1000 < deadline \<and> deadline \<le> (t + 25) * 1000) \<and>
     (num \<noteq> 0 \<longrightarrow> num < 10 \<and> 0 < deadline \<and> deadline \<le> (a + 25) * 1000)"

definition ack_timely :: "int \<Rightarrow> int \<Rightarrow> ns_receiver \<Rightarrow> bool" where
  "ack_timely t a s \<longleftrightarrow> nr_heart_beat_t s = 1 \<and> 0 \<le> t \<and> (\<not> nr_running s \<longrightarrow> nr_heart_timer s = None) \<and>
     (nr_running s \<longrightarrow> (\<exists>due. nr_heart_timer s = Some due \<and>
        ack_pending t a due (nr_num_packets_received_since_last_ack_sent s) (m_deadline (nr_ack_alarm s))))"

lemma OnIncomingData_cases:
  assumes "nr_running s"
  obtains (stream) seq ts where "nr_OnIncomingData libs ms data s = nr_MaybeSendAck libs ms (noted ms (length data) seq ts s)"
  | (other) m where "nr_OnIncomingData libs ms data s = s\<lparr>nr_recv_packet_manager := m\<rparr>"
proof -
  obtain seq_len seq r where h: "read_header (QuicDataReader data NETWORK_BYTE_ORDER) = (seq_len, seq, r)" by (metis prod_cases3)
  obtain ty r1 where t: "read_or [0] (ReadBytes 1) r = (ty, r1)" by fastforce
  define ts where "ts = fst (read_or 0 ReadUInt32 r1)"
  define lu where "lu = fst (read_or 0 (ReadBytesToUInt64 seq_len) r1)"
  have eq: "nr_OnIncomingData libs ms data s =
      (if hd ty = STREAM_FRAME_code then receive_stream libs ms (length data) seq ts s
       else if hd ty = STOP_WAITING_FRAME_code
       then s\<lparr>nr_recv_packet_manager := DontWaitForPacketsBefore lu (nr_recv_packet_manager s)\<rparr> else s)"
    unfolding nr_OnIncomingData_def h t prod.case Let_def ts_def [symmetric] lu_def [symmetric]
    using assms code_facts by simp
  show ?thesis
  proof (cases "hd ty = STREAM_FRAME_code")
    case True
    then have "nr_OnIncomingData libs ms data s = nr_MaybeSendAck libs ms (noted ms (length data) seq ts s)"
      unfolding eq receive_stream_noted by (simp only: if_True simp_thms)
    then show ?thesis by (rule stream)
  next
    case False
    then have e: "nr_OnIncomingData libs ms data s = (if hd ty = STOP_WAITING_FRAME_code
       then s\<lparr>nr_recv_packet_manager := DontWaitForPacketsBefore lu (nr_recv_packet_manager s)\<rparr> else s)"
      unfolding eq by (simp only: if_False simp_thms)
    show ?thesis
    proof (cases "hd ty = STOP_WAITING_FRAME_code")
      case True
      with e show ?thesis by (intro other) (simp only: if_True simp_thms)
    next
      case False
      with e have "nr_OnIncomingData libs ms data s = s\<lparr>nr_recv_packet_manager := nr_recv_packet_manager s\<rparr>" by simp
      then show ?thesis by (rule other)
    qed
  qed
qed


text \<open>The fields the invariant looks at, after each of the two ways a datagram can be handled.\<close>

lemma timely_maybe_send:
  assumes n: "nr_num_packets_received_since_last_ack_sent n = num + 1" "m_deadline (nr_ack_alarm n) = d"
    and inv: "ack_pending t a due num d" "t \<le> ms" "ms \<le> due" "0 \<le> t"
  shows "ack_pending ms (if num = 0 then ms else a) due
      (nr_num_packets_received_since_last_ack_sent (nr_MaybeSendAck libs ms n)) (m_deadline (nr_ack_alarm (nr_MaybeSendAck libs ms n)))"
proof -
  have now: "NsQuicClock_Now ms = ms * 1000" by (simp add: NsQuicClock_Now_def delta_FromMilliseconds_def)
  show ?thesis
  proof (cases "nr_received n < 100 \<or> nr_num_packets_received_since_last_ack_sent n \<ge> 10")
    case True
    then have "nr_MaybeSendAck libs ms n = nr_SendAck libs ms n" by (simp only: MaybeSendAck_eq if_True)
    then show ?thesis using inv n by (auto simp: ack_pending_def)
  next
    case False
    then have e: "nr_MaybeSendAck libs ms n = (if alarm_IsSet (nr_ack_alarm n) then n
        else n\<lparr>nr_ack_alarm := \<lparr>m_deadline = NsQuicClock_Now ms + 25000\<rparr>\<rparr>)" by (simp only: MaybeSendAck_eq if_False)
    have small: "num + 1 < 10" using False n(1) by (simp add: not_le)
    show ?thesis
    proof (cases "alarm_IsSet (nr_ack_alarm n)")
      case True
      then show ?thesis unfolding e using inv n small by (auto simp: ack_pending_def alarm_IsSet_def)
    next
      case False
      then show ?thesis unfolding e using inv n small by (auto simp: ack_pending_def alarm_IsSet_def now)
    qed
  qed
qed

lemma timely_datagram:
  assumes inv: "ack_timely t a s" and time: "t \<le> ms" "\<And>due. nr_heart_timer s = Some due \<Longrightarrow> ms \<le> due"
  shows "ack_timely ms (if nr_num_packets_received_since_last_ack_sent s = 0 then ms else a) (nr_OnIncomingData libs ms data s)"
proof (cases "nr_running s")
  case False
  then have "nr_OnIncomingData libs ms data s = s" by (simp add: nr_OnIncomingData_def)
  then show ?thesis using inv False time(1) by (simp add: ack_timely_def)
next
  case run: True
  then obtain due where due: "nr_heart_timer s = Some due" "nr_heart_beat_t s = 1" "0 \<le> t"
      "ack_pending t a due (nr_num_packets_received_since_last_ack_sent s) (m_deadline (nr_ack_alarm s))"
    using inv by (auto simp: ack_timely_def)
  from run show ?thesis
  proof (cases rule: OnIncomingData_cases [of s libs ms data])
    case (stream seq ts)
    let ?n = "noted ms (length data) seq ts s"
    have "ack_pending ms (if nr_num_packets_received_since_last_ack_sent s = 0 then ms else a) due
        (nr_num_packets_received_since_last_ack_sent (nr_MaybeSendAck libs ms ?n)) (m_deadline (nr_ack_alarm (nr_MaybeSendAck libs ms ?n)))"
      by (rule timely_maybe_send [OF _ _ due(4) time(1) time(2) [OF due(1)] due(3)]) (simp_all add: noted_fields)
    then show ?thesis unfolding stream ack_timely_def using due time(1) run by (simp add: noted_fields)
  next
    case (other m)
    then show ?thesis using due time run by (auto simp: ack_timely_def ack_pending_def)
  qed
qed

lemma timely_timer:
  assumes inv: "ack_timely t a s" and due: "nr_heart_timer s = Some due" "0 \<le> due"
  shows "ack_timely due a (nr_timer_event libs s)"
proof (cases "nr_running s")
  case False
  then show ?thesis using inv due by (simp add: nr_timer_event_def nr_HeartBeat_def ack_timely_def)
next
  case run: True
  let ?d = "m_deadline (nr_ack_alarm s)" and ?s = "s\<lparr>nr_heart_timer := None\<rparr>"
  have p: "nr_heart_beat_t s = 1" "ack_pending t a due (nr_num_packets_received_since_last_ack_sent s) ?d"
    using inv run due(1) by (auto simp: ack_timely_def)
  have now: "NsQuicClock_Now due = due * 1000" by (simp add: NsQuicClock_Now_def delta_FromMilliseconds_def)
  show ?thesis
  proof (cases "alarm_IsSet (nr_ack_alarm s) \<and> NsQuicClock_Now due \<ge> ?d")
    case True
    then have "alarm_IsExpired (NsQuicClock_Now due) (nr_ack_alarm s) = (True, (nr_ack_alarm s)\<lparr>m_deadline := 0\<rparr>)"
      by (simp add: alarm_IsExpired_def)
    then show ?thesis using run due p
      by (simp add: nr_timer_event_def nr_HeartBeat_def ack_timely_def ack_pending_def Let_def)
  next
    case False
    then have "alarm_IsExpired (NsQuicClock_Now due) (nr_ack_alarm s) = (False, nr_ack_alarm s)"
      by (auto simp: alarm_IsExpired_def)
    then have e: "nr_timer_event libs s = s\<lparr>nr_heart_timer := Some (due + 1)\<rparr>"
      using run due(1) p(1) by (simp add: nr_timer_event_def nr_HeartBeat_def Let_def)
    show ?thesis unfolding e using False run due p by (auto simp: ack_timely_def ack_pending_def alarm_IsSet_def now)
  qed
qed

lemma reachable_timely: "nr_reachable libs t a s \<Longrightarrow> ack_timely t a s"
proof (induction rule: nr_reachable.induct)
  case (start t peer port)
  then show ?case by (simp add: ack_timely_def ack_pending_def nr_StartApplication_def NsQuicReceiver_def MyQuicAlarm_def)
next
  case (datagram t a s t' remote data)
  define u where "u = (if nr_first s then s\<lparr>nr_peer := remote, nr_first := False\<rparr> else s)"
  have u: "ack_timely t a u" "nr_heart_timer u = nr_heart_timer s"
      "nr_num_packets_received_since_last_ack_sent u = nr_num_packets_received_since_last_ack_sent s"
    using datagram.IH by (simp_all add: u_def ack_timely_def)
  show ?case unfolding nr_RecvPacket_def u_def [symmetric] u(3) [symmetric]
    by (rule timely_datagram [OF u(1) datagram.hyps(2)]) (simp add: u(2) datagram.hyps(3))
next
  case (timer t a s due)
  then show ?case by (intro timely_timer) (auto simp: ack_timely_def ack_pending_def)
qed (simp_all add: ack_timely_def nr_SetLossTraceFunc_def nr_SetOwdTraceFunc_def nr_SetRateTraceFunc_def nr_StopApplication_def Let_def)

text \<open>
  C34. No acknowledgement is put off for long: whatever datagrams arrive, a running receiver never
  holds ten unacknowledged packets and never holds one for more than 25 milliseconds; the ACK is
  sent by the tenth packet or by the heart beat that finds the alarm expired, whichever comes first.
\<close>

theorem ns_ack_delay_bounded:
  assumes "nr_reachable libs t a s" "nr_running s" "nr_num_packets_received_since_last_ack_sent s \<noteq> 0"
  shows "nr_num_packets_received_since_last_ack_sent s < 10 \<and> t \<le> a + 25"
  using reachable_timely [OF assms(1)] assms(2,3) by (auto simp: ack_timely_def ack_pending_def)

section \<open>From the receiver's ACK to the sender's packet manager\<close>

text \<open>What the sender does with an acknowledgement of the given ranges, newest first.\<close>

definition ack_processed ::
  "'m sent_packet_manager \<Rightarrow> quic_time \<Rightarrow> u64 \<Rightarrow> quic_delta \<Rightarrow> interval list \<Rightarrow> 'm ns_sender \<Rightarrow> 'm ns_sender" where
  "ack_processed spm now largest delay ivs s =
     (let m = spm_OnAckFrameStart spm largest delay now (ns_manager s);
          m = fold (\<lambda>iv. spm_OnAckRange spm (fst iv) (snd iv)) ivs m;
          m = snd (spm_OnAckFrameEnd spm now m)
      in s\<lparr>ns_time_of_last_received_packet := now, ns_manager := m, ns_largest_acked := max largest (ns_largest_acked s),
           ns_stop_waiting_count := (if spm_GetLeastUnacked spm m > fst (last ivs) then ns_stop_waiting_count s + 1 else 0)\<rparr>)"

lemma sender_ranges:
  assumes "ivs \<noteq> []"
  shows "report_all (ns_visitor spm) (flagged ivs) s =
    (let m = snd (spm_OnAckFrameEnd spm (ns_time_of_last_received_packet s)
                    (fold (\<lambda>iv. spm_OnAckRange spm (fst iv) (snd iv)) ivs (ns_manager s)))
     in s\<lparr>ns_manager := m,
          ns_stop_waiting_count := (if spm_GetLeastUnacked spm m > fst (last ivs) then ns_stop_waiting_count s + 1 else 0)\<rparr>)"
  using assms
proof (induction ivs arbitrary: s)
  case (Cons iv ivs)
  show ?case
  proof (cases "ivs = []")
    case True
    then show ?thesis
      by (simp add: ns_visitor_def ns_OnAckRange_def ns_PostProcessAfterAckFrame_def Let_def case_prod_beta)
  next
    case False
    have step: "snd (OnAckRange (ns_visitor spm) (fst iv) (snd iv) False s) =
        s\<lparr>ns_manager := spm_OnAckRange spm (fst iv) (snd iv) (ns_manager s)\<rparr>"
      by (simp add: ns_visitor_def ns_OnAckRange_def Let_def)
    show ?thesis using Cons.IH [OF False, of "s\<lparr>ns_manager := spm_OnAckRange spm (fst iv) (snd iv) (ns_manager s)\<rparr>"] False
      by (simp add: step Let_def)
  qed
qed simp

lemma sender_ack_delivered:
  assumes "ivs = rev (af_packets f)" "ivs \<noteq> []"
  shows "deliver_frames (ns_visitor spm) [ACK_FRAME f] (s\<lparr>ns_time_of_last_received_packet := now\<rparr>) =
    ack_processed spm now (LargestAcked f) (received_ack_delay f) ivs s"
proof -
  have "snd (OnAckFrameStart (ns_visitor spm) (LargestAcked f) (received_ack_delay f) (s\<lparr>ns_time_of_last_received_packet := now\<rparr>)) =
      s\<lparr>ns_time_of_last_received_packet := now,
        ns_manager := spm_OnAckFrameStart spm (LargestAcked f) (received_ack_delay f) now (ns_manager s),
        ns_largest_acked := max (LargestAcked f) (ns_largest_acked s)\<rparr>"
    by (simp add: ns_visitor_def ns_OnAckFrameStart_def Let_def max_def)
  then show ?thesis
    using assms by (simp add: deliver_frame_def sender_ranges ack_processed_def Let_def)
qed

lemma accepting_ns_visitor: "accepting (ns_visitor spm)"
  by (simp add: accepting_def ns_visitor_def ns_OnAckRange_def ns_OnAckFrameStart_def Let_def case_prod_beta)

lemma ns_params:
  "fp_version (params_of libs (MyQuicFramer libs ns_versions t p v)) = QUIC_VERSION_43"
  "fp_incremental (params_of libs (MyQuicFramer libs ns_versions t p v)) = True"
  by (simp_all add: params_of_def MyQuicFramer_def ns_versions_def)

abbreviation ack_writer :: "u64 \<Rightarrow> quic_data_writer" where
  "ack_writer seq \<equiv> sample_writer (kMaxBufferSize - (1 + GetMinSeqLength seq))"

lemma ack_header_small: "ack_header_size QUIC_VERSION_43 f \<le> 20"
  by (simp add: ack_header_size_def GetMinPacketNumberLength_cases GetMinAckFrameSize_def framer_size_defs packet_length_defs
      QUIC_VERSION_41_def QUIC_VERSION_43_def)

lemma ack_fits_writer: "ack_fits QUIC_VERSION_43 f (ack_writer seq)"
  using GetMinSeqLength_cases [of seq] ack_header_small [of f] by (auto simp: ack_fits_def kMaxBufferSize_def)

lemma ack_packet_bytes:
  "ack_packet libs ns_versions approx seq f =
     ns_header_bytes seq @ ack_frame_bytes NETWORK_BYTE_ORDER QUIC_VERSION_43 f (ack_blocks_for QUIC_VERSION_43 f (ack_writer seq))"
proof -
  let ?h = "1 + GetMinSeqLength seq" and ?bs = "ack_frame_bytes NETWORK_BYTE_ORDER QUIC_VERSION_43 f (ack_blocks_for QUIC_VERSION_43 f (ack_writer seq))"
  have h: "write_header seq (GetMinSeqLength seq) (sample_writer ?h) = w_put (ns_header_bytes seq) (sample_writer ?h)"
    by (rule write_header_put) simp_all
  have hb: "take ?h (w_buffer (w_put (ns_header_bytes seq) (sample_writer ?h))) = ns_header_bytes seq"
    by (subst w_buffer_put_zeros) simp_all
  have fits: "ack_header_size QUIC_VERSION_43 f \<le> w_room (ack_writer seq)" "w_room (ack_writer seq) < 2 ^ 31" "w_ok (ack_writer seq)"
    using ack_fits_writer [of f seq] by (simp_all add: ack_fits_def)
  note app = AppendAck_fits [OF fits sample_writer_out(2)]
  have len: "length ?bs \<le> kMaxBufferSize - ?h" using app(2) by simp
  have "take (length ?bs) (w_buffer (w_put ?bs (ack_writer seq))) = ?bs" by (subst w_buffer_put_zeros [OF len]) simp
  then show ?thesis unfolding ack_packet_def Let_def ns_params h hb app(1) snd_conv by simp
qed

lemma ns_ack_received:
  fixes s :: "'m ns_sender"
  assumes run: "ns_running s" "ns_packet_versions s = ns_versions" and seq: "unat seq < 2 ^ 48"
    and f: "ack_wellformed QUIC_VERSION_43 f" "ack_untruncated QUIC_VERSION_43 f (ack_writer seq)"
  shows "ns_OnIncomingData spm libs ms (ack_packet libs' ns_versions approx seq f) s =
    Some (ack_processed spm (NsQuicClock_Now ms) (LargestAcked f) (received_ack_delay f) (rev (af_packets f)) s)"
proof -
  let ?h = "1 + GetMinSeqLength seq" and ?w = "ack_writer seq"
  define bs where "bs = ack_frame_bytes NETWORK_BYTE_ORDER QUIC_VERSION_43 f (ack_blocks_for QUIC_VERSION_43 f ?w)"
  define pkt where "pkt = ack_packet libs' ns_versions approx seq f"
  have pkt: "pkt = ns_header_bytes seq @ bs" by (simp add: pkt_def bs_def ack_packet_bytes)
  have fits: "ack_header_size QUIC_VERSION_43 f \<le> w_room ?w" "w_room ?w < 2 ^ 31" "w_ok ?w"
    using ack_fits_writer [of f seq] by (simp_all add: ack_fits_def)
  have room: "length bs \<le> kMaxBufferSize - ?h" using AppendAck_fits(2) [OF fits sample_writer_out(2)] by (simp add: bs_def)
  have len: "\<not> length pkt > kMaxBufferSize" "\<not> length pkt < ?h"
    using room GetMinSeqLength_cases [of seq] by (auto simp: pkt kMaxBufferSize_def)
  have hd: "read_header (QuicDataReader pkt NETWORK_BYTE_ORDER) = (GetMinSeqLength seq, seq, r_skip ?h (QuicDataReader pkt NETWORK_BYTE_ORDER))"
    by (rule read_header_bytes(1) [OF seq, where rest = bs]) (simp_all add: QuicDataReader_def r_rest_def pkt)
  define s1 where "s1 = s\<lparr>ns_time_of_last_received_packet := NsQuicClock_Now ms\<rparr>"
  define framer where "framer = MyQuicFramer libs ns_versions (NsQuicClock_Now ms) IS_CLIENT s1"
  define fp where "fp = params_of libs framer"
  define pl pn where "pl = ph_packet_number_length (QuicPacketHeader libs)" and "pn = ph_packet_number (QuicPacketHeader libs)"
  have fp: "fp_version fp = QUIC_VERSION_43" "fp_incremental fp" using ns_params by (simp_all add: fp_def framer_def)
  have bytes: "frame_bytes fp pl pn (ACK_FRAME f) no_len ?w = bs" for no_len by (simp add: frame_bytes_def Let_def fp bs_def)
  have ne: "bs \<noteq> []" by (simp add: bs_def ack_frame_bytes_def Let_def)
  have ok: "frames_ok fp pl pn [ACK_FRAME f] ?w"
    unfolding frames_ok.simps Let_def bytes using f fp ack_fits_writer [of f seq] ne room by (simp add: frame_ok_def)
  let ?r = "QuicDataReader bs NETWORK_BYTE_ORDER"
  have r: "r_ok ?r" "r_endianness ?r = w_endianness ?w" "r_rest ?r = frames_bytes fp pl pn [ACK_FRAME f] ?w"
    using bytes by (simp_all add: QuicDataReader_def r_ok_def r_rest_def Let_def)
  obtain r' where proc: "process_frames fp (ns_visitor spm) pl pn framer ?r =
      (True, framer\<lparr>fr_visitor := deliver_frames (ns_visitor spm) (frames_padded fp pl pn [ACK_FRAME f] ?w) (fr_visitor framer)\<rparr>, r')"
    using frames_delivered [OF ok fits(3) accepting_ns_visitor refl fp(2) r, of spm framer] by blast
  have "\<not> IsDoneReading ?r" using ne by (simp add: IsDoneReading_def QuicDataReader_def)
  then have proc': "ProcessFrameData fp (ns_visitor spm) pl pn framer ?r =
      (True, framer\<lparr>fr_visitor := deliver_frames (ns_visitor spm) [ACK_FRAME f] (fr_visitor framer)\<rparr>, r')"
    using proc by (simp add: ProcessFrameData_def frame_padded_def Let_def)
  have "rev (af_packets f) \<noteq> []" using f(1) by (simp add: ack_wellformed_def)
  then have del: "deliver_frames (ns_visitor spm) [ACK_FRAME f] s1 =
      ack_processed spm (NsQuicClock_Now ms) (LargestAcked f) (received_ack_delay f) (rev (af_packets f)) s"
    unfolding s1_def by (rule sender_ack_delivered [OF refl])
  have drop: "drop ?h pkt = bs" by (simp add: pkt)
  have vers: "ns_packet_versions s1 = ns_versions" "fr_visitor framer = s1" using run(2) by (simp_all add: s1_def framer_def MyQuicFramer_def)
  have "ns_OnIncomingData spm libs ms pkt s =
      (case ProcessFrameData fp (ns_visitor spm) pl pn framer ?r of (_, framer, _) \<Rightarrow> Some (fr_visitor framer))"
    unfolding ns_OnIncomingData_def Let_def s1_def [symmetric] hd prod.case drop vers(1) framer_def [symmetric] fp_def [symmetric]
      pl_def [symmetric] pn_def [symmetric] using run(1) len by simp
  then show ?thesis unfolding proc' pkt_def [symmetric] using del vers(2) by simp
qed

section \<open>End to end\<close>

lemma receive_all_manager:
  assumes "nr_running s" "\<forall>(sent, arrived, seq)\<in>set as. unat seq < 2 ^ 48 - 1"
    "rpm_valid (nr_recv_packet_manager s)" "rpm_peer_least_packet_awaiting_ack (nr_recv_packet_manager s) = 0"
  shows "rpm_valid (nr_recv_packet_manager (nr_receive_all libs remote as s)) \<and>
    rpm_set (nr_recv_packet_manager (nr_receive_all libs remote as s)) =
      rpm_set (nr_recv_packet_manager s) \<union> (\<lambda>(_, _, seq). unat seq) ` set as \<and>
    nr_versions (nr_receive_all libs remote as s) = nr_versions s \<and> nr_seq (nr_receive_all libs remote as s) = nr_seq s"
  using assms
proof (induction as arbitrary: s)
  case (Cons a as)
  obtain sent arrived seq where a: "a = (sent, arrived, seq)" by (cases a)
  define t where "t = (if nr_first s then s\<lparr>nr_peer := remote, nr_first := False\<rparr> else s)"
  have t: "nr_running t" "nr_recv_packet_manager t = nr_recv_packet_manager s" "nr_versions t = nr_versions s" "nr_seq t = nr_seq s"
    using Cons.prems by (simp_all add: t_def)
  have seq: "unat seq < 2 ^ 48 - 1" using Cons.prems(2) a by simp
  define u where "u = receive_stream libs arrived 1000 seq (ns_timestamp sent) t"
  have recv: "nr_receive_all libs remote (a # as) s = nr_receive_all libs remote as u"
    using receive_fake_packet [OF t(1), of seq libs arrived sent] seq by (simp add: a nr_RecvPacket_def t_def [symmetric] u_def)
  note f = receive_stream_fields [of libs arrived 1000 seq "ns_timestamp sent" t, folded u_def]
  define m where "m = RecordPacketReceived seq (NsQuicClock_Now arrived) (nr_recv_packet_manager s)"
  have m: "rpm_valid m" "rpm_peer_least_packet_awaiting_ack m = 0" "rpm_set m = insert (unat seq) (rpm_set (nr_recv_packet_manager s))"
    using received.receive [OF Cons.prems(3), of seq "NsQuicClock_Now arrived"] seq Cons.prems(4) by (simp_all add: m_def)
  have "nr_recv_packet_manager u \<in> {m, snd (GetUpdatedAckFrame (NsQuicClock_Now arrived) m)}" using f(1) by (simp add: t(2) m_def)
  then have u: "rpm_valid (nr_recv_packet_manager u)" "rpm_peer_least_packet_awaiting_ack (nr_recv_packet_manager u) = 0"
      "rpm_set (nr_recv_packet_manager u) = insert (unat seq) (rpm_set (nr_recv_packet_manager s))"
    using m received.ack_of [OF m(1), of "NsQuicClock_Now arrived"] by auto
  have run: "nr_running u" using f(3) t(1) by simp
  show ?case unfolding recv using Cons.IH [OF run _ u(1,2)] Cons.prems(2) u(3) f(6,8) t(3,4) by (auto simp: a)
qed simp


text \<open>
  C33. End-to-end acknowledgement: after any data packets have arrived, in any order and with any
  repetition, the packet SendAck puts on the network makes the sender that receives it tell its
  sent packet manager exactly the packets that have arrived: first the largest of them with the
  delay, then ranges, newest first, that together contain each arrived number and no other, then
  the end of the frame. The one condition is that the blocks of the frame fit into its packet.
\<close>

theorem ns_ack_exact:
  fixes sender :: "'m ns_sender"
  assumes arrived: "as \<noteq> []" "\<forall>(sent, arrived, seq)\<in>set as. unat seq < 2 ^ 48 - 1"
    and s: "s = nr_receive_all libs remote as (NsQuicReceiver peer port)"
    and frame: "frame = fst (GetUpdatedAckFrame (NsQuicClock_Now ms) (nr_recv_packet_manager s))"
    and fits: "ack_untruncated QUIC_VERSION_43 frame (ack_writer 1)"
    and sender: "ns_running sender" "ns_packet_versions sender = ns_versions"
  shows "\<exists>pkt ivs largest. nr_events (nr_SendAck libs ms s) = nr_events s @ [AckSent (nr_peer s) pkt] \<and>
    ns_RecvPacket spm libs ms' pkt sender =
      Some (ack_processed spm (NsQuicClock_Now ms') largest (received_ack_delay frame) ivs sender) \<and>
    (\<Union>iv\<in>set ivs. interval_set iv) = (\<lambda>(_, _, seq). unat seq) ` set as \<and>
    sorted_wrt (\<lambda>a b. snd b < fst a) ivs \<and> unat largest = Max ((\<lambda>(_, _, seq). unat seq) ` set as)"
proof -
  let ?q = "af_packets frame" and ?set = "(\<lambda>(_, _, seq). unat seq) ` set as" and ?init = "NsQuicReceiver peer port"
  have init: "nr_running ?init" "rpm_valid (nr_recv_packet_manager ?init)" "rpm_peer_least_packet_awaiting_ack (nr_recv_packet_manager ?init) = 0"
      "rpm_set (nr_recv_packet_manager ?init) = {}" "nr_versions ?init = ns_versions" "nr_seq ?init = 1"
    using received.init by (simp_all add: NsQuicReceiver_def)
  have m: "rpm_valid (nr_recv_packet_manager s)" "rpm_set (nr_recv_packet_manager s) = ?set" "nr_versions s = ns_versions" "nr_seq s = 1"
    using receive_all_manager [OF init(1) arrived(2) init(2,3), of libs remote] init(4-6) by (simp_all add: s)
  have q: "pnq_inv ?q" "pnq_set ?q = ?set" "af_largest_acked frame = pnq_Max ?q"
    using received.ack_of [OF m(1), of "NsQuicClock_Now ms"] m(2) arrived(1) by (auto simp: frame)
  have ne: "?q \<noteq> []" using q(2) arrived(1) by auto
  have largest: "unat (af_largest_acked frame) = Max ?set"
    using pnq_set_Max [OF ne q(1)] unfolding q(2,3) by (intro Max_eqI [symmetric]) auto
  have "Max ?set \<in> ?set" using arrived(1) by (intro Max_in) auto
  then have "unat (af_largest_acked frame) < 2 ^ 48 - 1" unfolding largest using arrived(2) by auto
  then have wf: "ack_wellformed QUIC_VERSION_43 frame" using q ne by (simp add: ack_wellformed_def QUIC_VERSION_41_def QUIC_VERSION_43_def)
  have recv: "ns_RecvPacket spm libs ms' (ack_packet libs ns_versions (NsQuicClock_Now ms) 1 frame) sender =
      Some (ack_processed spm (NsQuicClock_Now ms') (LargestAcked frame) (received_ack_delay frame) (rev ?q) sender)"
    unfolding ns_RecvPacket_def by (rule ns_ack_received [OF sender _ wf fits]) simp
  have "sorted_wrt (\<lambda>a b. snd b < fst a) (rev ?q)" using q(1) by (simp add: pnq_inv_def sorted_wrt_rev)
  moreover have "(\<Union>iv\<in>set (rev ?q). interval_set iv) = ?set" using q(2) by (simp add: pnq_set_def)
  moreover have "nr_events (nr_SendAck libs ms s) =
      nr_events s @ [AckSent (nr_peer s) (ack_packet libs ns_versions (NsQuicClock_Now ms) 1 frame)]"
    by (simp add: m(3,4) frame)
  ultimately show ?thesis using recv largest unfolding LargestAcked_def by blast
qed

section \<open>The sender's packet numbers\<close>

text \<open>The number of a packet that carries data, as the header parser reads it.\<close>

definition data_number :: "u8 list \<Rightarrow> u64 option" where
  "data_number p =
     (case read_header (QuicDataReader p NETWORK_BYTE_ORDER) of (_, seq, r) \<Rightarrow>
        if fst (ReadBytes 1 r) = Some [STREAM_FRAME_code] then Some seq else None)"

fun event_number :: "send_event \<Rightarrow> u64 option" where
  "event_number (PacketSent addr p) = data_number p"
| "event_number (SendRate r) = None"

definition data_numbers :: "send_event list \<Rightarrow> u64 list" where
  "data_numbers es = List.map_filter event_number es"

lemma data_numbers_append [simp]:
  "data_numbers [] = []"
  "data_numbers (es @ [e]) = data_numbers es @ (case event_number e of None \<Rightarrow> [] | Some n \<Rightarrow> [n])"
  by (simp_all add: data_numbers_def map_filter_def split: option.splits)

lemma data_number_header:
  assumes "unat seq < 2 ^ 48"
  shows "data_number (ns_header_bytes seq @ ty # zs) = (if ty = STREAM_FRAME_code then Some seq else None)"
proof -
  define r where "r = QuicDataReader (ns_header_bytes seq @ ty # zs) NETWORK_BYTE_ORDER"
  define r1 where "r1 = r_skip (1 + GetMinSeqLength seq) r"
  have r: "r_endianness r = NETWORK_BYTE_ORDER" "r_rest r = ns_header_bytes seq @ ty # zs"
    by (simp_all add: r_def QuicDataReader_def r_rest_def)
  note hd = read_header_bytes [OF assms r, folded r1_def]
  have "fst (ReadBytes 1 r1) = Some [ty]"
    using readsD [OF reads_ReadBytes [of "[ty]" 1], of r1 NETWORK_BYTE_ORDER zs] hd(2) r(1) by (simp add: r1_def)
  then show ?thesis unfolding data_number_def r_def [symmetric] hd(1) by simp
qed

lemma data_number_fake_packet: "unat seq < 2 ^ 48 \<Longrightarrow> data_number (fake_packet (NsQuicClock_Now ms) seq) = Some seq"
  unfolding fake_packet_bytes data_bytes_def append_assoc append_Cons by (simp add: data_number_header)

lemma stop_waiting_packet_bytes: "\<exists>zs. stop_waiting_packet seq u = ns_header_bytes seq @ STOP_WAITING_FRAME_code # zs"
proof -
  have len: "GetMinSeqLength seq \<le> 6" using GetMinSeqLength_cases [of seq] by auto
  define w where "w = QuicDataWriter kMaxBufferSize (replicate kMaxBufferSize 0) NETWORK_BYTE_ORDER"
  let ?us = "uint_bytes NETWORK_BYTE_ORDER (GetMinSeqLength seq) (unat u)"
  have w: "w_ok w" "w_endianness w = NETWORK_BYTE_ORDER" "w_room w = 1500" by (simp_all add: w_def kMaxBufferSize_def)
  have 1: "write_header seq (GetMinSeqLength seq) w = w_put (ns_header_bytes seq) w"
    using w len by (intro write_header_put) simp_all
  have 2: "WriteBytes [STOP_WAITING_FRAME_code] (w_put (ns_header_bytes seq) w) = (True, w_put (ns_header_bytes seq @ [STOP_WAITING_FRAME_code]) w)"
    using w len appends_fits [OF appends_WriteBytes, of "w_put (ns_header_bytes seq) w" NETWORK_BYTE_ORDER "[STOP_WAITING_FRAME_code]"]
      w_put_put [OF w(1), of "ns_header_bytes seq" "[STOP_WAITING_FRAME_code]"] by simp
  have 3: "WriteBytesToUInt64 (GetMinSeqLength seq) u (w_put (ns_header_bytes seq @ [STOP_WAITING_FRAME_code]) w) =
      (True, w_put (ns_header_bytes seq @ STOP_WAITING_FRAME_code # ?us) w)"
    using w len appends_fits [OF appends_WriteBytesToUInt64, of "GetMinSeqLength seq" "w_put (ns_header_bytes seq @ [STOP_WAITING_FRAME_code]) w" NETWORK_BYTE_ORDER u]
      w_put_put [OF w(1), of "ns_header_bytes seq @ [STOP_WAITING_FRAME_code]" ?us] by simp
  have "stop_waiting_packet seq u = ns_header_bytes seq @ STOP_WAITING_FRAME_code # ?us"
    unfolding stop_waiting_packet_def Let_def w_def [symmetric] using w len
    by (simp add: 1 2 3) (simp add: w_def w_put_def QuicDataWriter_def overwrite_def kMaxBufferSize_def)
  then show ?thesis by blast
qed

definition numbered :: "u64 \<times> send_event list \<Rightarrow> bool" where
  "numbered p \<longleftrightarrow> (\<exists>n \<le> length (snd p). fst p = word_of_nat (Suc n) \<and>
     (Suc n < 2 ^ 48 \<longrightarrow> data_numbers (snd p) = map word_of_nat [1..<Suc n]))"

lemma unat_small_number: "n < 2 ^ 48 \<Longrightarrow> unat (word_of_nat n :: u64) = n"
  by (simp add: unat_of_nat take_bit_nat_eq_self)

lemma numbered_data:
  assumes "numbered (seq, es)"
  shows "numbered (seq + 1, es @ [PacketSent a (fake_packet (NsQuicClock_Now ms) seq)])"
proof -
  obtain n where n: "n \<le> length es" "seq = word_of_nat (Suc n)"
    and es: "Suc n < 2 ^ 48 \<Longrightarrow> data_numbers es = map word_of_nat [1..<Suc n]"
    using assms by (auto simp: numbered_def)
  have "data_numbers (es @ [PacketSent a (fake_packet (NsQuicClock_Now ms) seq)]) = map word_of_nat [1..<Suc (Suc n)]"
    if "Suc (Suc n) < 2 ^ 48"
  proof -
    have "data_number (fake_packet (NsQuicClock_Now ms) seq) = Some seq"
      using that unat_small_number [of "Suc n"] n(2) by (intro data_number_fake_packet) simp
    then show ?thesis using es that n(2) by simp
  qed
  then show ?thesis unfolding numbered_def using n by (intro exI [of _ "Suc n"]) simp
qed

lemma numbered_other:
  assumes "numbered (seq, es)" "unat seq < 2 ^ 48 \<Longrightarrow> event_number e = None"
  shows "numbered (seq, es @ [e])"
proof -
  obtain n where n: "n \<le> length es" "seq = word_of_nat (Suc n)"
    and es: "Suc n < 2 ^ 48 \<Longrightarrow> data_numbers es = map word_of_nat [1..<Suc n]"
    using assms by (auto simp: numbered_def)
  have "event_number e = None" if "Suc n < 2 ^ 48"
    using that unat_small_number [of "Suc n"] n(2) assms(2) by simp
  then show ?thesis unfolding numbered_def using n es by (intro exI [of _ n]) simp
qed

lemma numbered_SendFakePacket: "numbered (sender_part s) \<Longrightarrow> numbered (sender_part (ns_SendFakePacket spm (NsQuicClock_Now ms) s))"
  by (simp add: sender_part_def ns_SendFakePacket_def ns_OnPacketSent_def ns_SendToNetwork_def Let_def numbered_data)

lemma numbered_OnRetransPacket: "numbered (sender_part s) \<Longrightarrow> numbered (sender_part (ns_OnRetransPacket spm p (NsQuicClock_Now ms) s))"
  by (simp add: sender_part_def ns_OnRetransPacket_def ns_SendToNetwork_def Let_def numbered_data)

lemma numbered_SendStopWaitingFrame: "numbered (sender_part s) \<Longrightarrow> numbered (sender_part (ns_SendStopWaitingFrame spm s))"
proof -
  assume s: "numbered (sender_part s)"
  obtain zs where "stop_waiting_packet (ns_seq s) (spm_GetLeastUnacked spm (ns_manager s)) = ns_header_bytes (ns_seq s) @ STOP_WAITING_FRAME_code # zs"
    using stop_waiting_packet_bytes by blast
  then have "event_number (PacketSent (ns_peer s) (stop_waiting_packet (ns_seq s) (spm_GetLeastUnacked spm (ns_manager s)))) = None"
    if "unat (ns_seq s) < 2 ^ 48"
    using that code_facts by (simp add: data_number_header)
  then show ?thesis using s numbered_other
    by (simp add: sender_part_def ns_SendStopWaitingFrame_def ns_SendToNetwork_def Let_def)
qed

lemma numbered_RecordRate: "numbered (sender_part s) \<Longrightarrow> numbered (sender_part (ns_RecordRate spm now s))"
  by (simp add: sender_part_def ns_RecordRate_def Let_def numbered_other)

lemma numbered_SendRetransmission:
  assumes "ns_SendRetransmission spm (NsQuicClock_Now ms) s = Some s'" "numbered (sender_part s)"
  shows "numbered (sender_part s')"
proof -
  have "now = NsQuicClock_Now ms \<longrightarrow> numbered (sender_part s) \<longrightarrow> numbered (sender_part s')"
    if "ns_SendRetransmission spm now s = Some s'" for now
    using that
  proof (rule ns_SendRetransmission.raw_induct [rotated])
    fix f and spm :: "'a sent_packet_manager" and now and s s' :: "'a ns_sender"
    assume IH: "\<And>(spm :: 'a sent_packet_manager) now (s :: 'a ns_sender) (s' :: 'a ns_sender). f spm now s = Some s' \<Longrightarrow>
        now = NsQuicClock_Now ms \<longrightarrow> numbered (sender_part s) \<longrightarrow> numbered (sender_part s')"
    assume "(let delta = fst (spm_TimeUntilSend spm now (ns_manager s));
          m = snd (spm_TimeUntilSend spm now (ns_manager s));
          s1 = s\<lparr>ns_manager := m\<rparr>
      in if delta = 0 \<and> spm_HasPendingRetransmissions spm m then
           f spm now
             (ns_OnRetransPacket spm (fst (spm_NextPendingRetransmission spm m)) now
                (s1\<lparr>ns_manager := snd (spm_NextPendingRetransmission spm m)\<rparr>))
         else Some s1) = Some s'"
    then show "now = NsQuicClock_Now ms \<longrightarrow> numbered (sender_part s) \<longrightarrow> numbered (sender_part s')"
      using IH by (auto simp: Let_def numbered_OnRetransPacket split: if_splits)
  qed
  then show ?thesis using assms by simp
qed

lemma numbered_HeartBeat:
  assumes "ns_HeartBeat spm ms s = Some s'" "numbered (sender_part s)"
  shows "numbered (sender_part s')"
proof (cases "ns_running s \<and> ns_heart_timer s = None")
  case False
  then show ?thesis using assms by (auto simp: ns_HeartBeat_def split: if_splits)
next
  case True
  then obtain s1 where s1: "ns_SendRetransmission spm (NsQuicClock_Now ms) (ns_RecordRate spm (NsQuicClock_Now ms) s) = Some s1"
    using assms(1) by (auto simp: ns_HeartBeat_def Let_def split: option.splits)
  define s2 where "s2 = (if ns_stop_waiting_count s1 > 2 then ns_SendStopWaitingFrame spm s1 else s1)"
  have s2: "numbered (sender_part s2)"
    using numbered_SendRetransmission [OF s1 numbered_RecordRate [OF assms(2)]] by (simp add: s2_def numbered_SendStopWaitingFrame)
  obtain delta m where tu: "spm_TimeUntilSend spm (NsQuicClock_Now ms) (ns_manager s2) = (delta, m)" by fastforce
  define s3 where "s3 = (if delta = 0 then ns_SendFakePacket spm (NsQuicClock_Now ms) (s2\<lparr>ns_manager := m\<rparr>) else s2\<lparr>ns_manager := m\<rparr>)"
  have "s' = s3\<lparr>ns_heart_timer := Some (ms + ns_heart_beat_t s3)\<rparr>"
    using assms(1) True unfolding ns_HeartBeat_def Let_def s1 option.case s2_def [symmetric] tu prod.case s3_def [symmetric] by simp
  moreover have "numbered (sender_part s3)" using s2 by (simp add: s3_def numbered_SendFakePacket)
  ultimately show ?thesis by (simp add: sender_part_def)
qed

inductive ns_reachable :: "'m sent_packet_manager \<Rightarrow> framer_libs \<Rightarrow> 'm ns_sender \<Rightarrow> bool" for spm libs where
  create: "ns_reachable spm libs (NsQuicSender m ms peer port)"
| bind: "ns_reachable spm libs s \<Longrightarrow> ns_reachable spm libs (ns_Bind port s)"
| peer: "ns_reachable spm libs s \<Longrightarrow> ns_reachable spm libs (ns_ConfigurePeer addr port s)"
| trace: "ns_reachable spm libs s \<Longrightarrow> ns_reachable spm libs (ns_SetRateTraceFunc s)"
| start: "ns_reachable spm libs s \<Longrightarrow> ns_reachable spm libs (ns_StartApplication ms s)"
| timer: "ns_reachable spm libs s \<Longrightarrow> ns_timer_event spm s = Some s' \<Longrightarrow> ns_reachable spm libs s'"
| packet: "ns_reachable spm libs s \<Longrightarrow> ns_RecvPacket spm libs ms p s = Some s' \<Longrightarrow> ns_reachable spm libs s'"
| stop: "ns_reachable spm libs s \<Longrightarrow> ns_reachable spm libs (ns_StopApplication s)"

lemma ns_reachable_numbered: "ns_reachable spm libs s \<Longrightarrow> numbered (sender_part s)"
proof (induction rule: ns_reachable.induct)
  case (timer s s')
  then show ?case using numbered_HeartBeat [of spm _ "s\<lparr>ns_heart_timer := None\<rparr>" s']
    by (auto simp: ns_timer_event_def sender_part_def split: option.splits)
next
  case (packet s ms p s')
  then show ?case using OnIncomingData_quiet [of spm libs ms p s s'] by (simp add: ns_RecvPacket_def)
qed (simp_all add: NsQuicSender_def ns_Bind_def ns_ConfigurePeer_def ns_SetRateTraceFunc_def ns_StartApplication_def
    ns_StopApplication_def sender_part_def numbered_def)

text \<open>
  C36. In every state the sender can reach, whatever its sent packet manager answers and whatever arrives
  from the network, the packets with data it has put on the wire carry, read back from their bytes, the
  numbers 1, 2, 3, \<dots> in the order they were sent, up to but excluding its next sequence number: new
  packets and retransmissions share one numbering without gaps or repeats, and STOP\_WAITING packets
  and incoming packets use up no number. The bound is that of the 48-bit numbers on the wire.
\<close>

theorem ns_numbers_consecutive:
  assumes "ns_reachable spm libs s" "length (ns_events s) + 1 < 2 ^ 48"
  shows "data_numbers (ns_events s) = map word_of_nat [1..<unat (ns_seq s)]"
proof -
  obtain n where "n \<le> length (ns_events s)" "ns_seq s = word_of_nat (Suc n)"
    "Suc n < 2 ^ 48 \<longrightarrow> data_numbers (ns_events s) = map word_of_nat [1..<Suc n]"
    using ns_reachable_numbered [OF assms(1)] by (auto simp: numbered_def sender_part_def)
  then show ?thesis using assms(2) unat_small_number [of "Suc n"] by simp
qed

section \<open>Sample runs\<close>

lemma receive_packet_frame:
  fixes s :: ns_receiver and ms ms' :: int and seq :: u64 and libs :: framer_libs and remote :: inet_address
  assumes "nr_running s" "unat seq < 2 ^ 48" "rpm_max_ack_ranges (nr_recv_packet_manager s) = 0"
  defines "s' \<equiv> nr_RecvPacket libs ms' remote (fake_packet (NsQuicClock_Now ms) seq) s"
    and "f \<equiv> rpm_ack_frame (nr_recv_packet_manager s)"
  shows "nr_running s'" "rpm_max_ack_ranges (nr_recv_packet_manager s') = 0"
    "af_packets (rpm_ack_frame (nr_recv_packet_manager s')) = pnq_Add seq (af_packets f)"
    "af_largest_acked (rpm_ack_frame (nr_recv_packet_manager s')) = max seq (af_largest_acked f)"
proof -
  define t where "t = (if nr_first s then s\<lparr>nr_peer := remote, nr_first := False\<rparr> else s)"
  have t: "nr_running t" "nr_recv_packet_manager t = nr_recv_packet_manager s" using assms(1) by (simp_all add: t_def)
  have s': "s' = receive_stream libs ms' 1000 seq (ns_timestamp ms) t"
    using receive_fake_packet [OF t(1) assms(2), of libs ms' ms] by (simp add: s'_def nr_RecvPacket_def t_def [symmetric])
  note g = receive_stream_fields [of libs ms' 1000 seq "ns_timestamp ms" t, folded s']
  define m where "m = RecordPacketReceived seq (NsQuicClock_Now ms') (nr_recv_packet_manager s)"
  have m: "rpm_max_ack_ranges m = 0" "af_packets (rpm_ack_frame m) = pnq_Add seq (af_packets f)"
      "af_largest_acked (rpm_ack_frame m) = max seq (af_largest_acked f)"
    using assms(3) by (simp_all add: m_def f_def RecordPacketReceived_def Let_def LargestAcked_def max_def not_less) auto
  have "nr_recv_packet_manager s' \<in> {m, snd (GetUpdatedAckFrame (NsQuicClock_Now ms') m)}" using g(1) by (simp add: m_def t(2))
  then show "rpm_max_ack_ranges (nr_recv_packet_manager s') = 0"
    "af_packets (rpm_ack_frame (nr_recv_packet_manager s')) = pnq_Add seq (af_packets f)"
    "af_largest_acked (rpm_ack_frame (nr_recv_packet_manager s')) = max seq (af_largest_acked f)"
    using m by (auto simp: GetUpdatedAckFrame_def Let_def limit_intervals_def)
  show "nr_running s'" using g(3) t(1) by simp
qed

definition sample_arrivals :: "arrival list" where
  "sample_arrivals = [(0, 10, 1), (1, 12, 2), (3, 20, 5), (2, 30, 4)]"

theorem ns_loss_accounting_witness:
  "let s' = nr_receive_all sample_libs (7, 8) sample_arrivals (nr_SetOwdTraceFunc (nr_SetLossTraceFunc (NsQuicReceiver (0, 0) 1234))) in
   losses (nr_events s') = [3, 4] \<and> delays (nr_events s') = [(1, 10), (2, 11), (5, 17), (4, 28)] \<and> unat (nr_base_seq s') = 5"
proof -
  have small: "\<forall>(sent, arrived, seq)\<in>set sample_arrivals. unat seq < 2 ^ 32" by (simp add: sample_arrivals_def)
  have run: "foldl max 0 (map (\<lambda>(_, _, seq). unat seq) sample_arrivals) = 5"
    "maxima 0 (map (\<lambda>(_, _, seq). unat seq) sample_arrivals) = [1, 2, 5]"
    "map (\<lambda>(sent, arrived, seq). (ucast seq :: u32, word_of_int (arrived - sent) :: u32)) sample_arrivals = [(1, 10), (2, 11), (5, 17), (4, 28)]"
    by (simp_all add: sample_arrivals_def)
  have lost: "map word_of_nat [i \<leftarrow> [1..<Suc 5]. i \<notin> set [1, 2, 5]] = [3, 4 :: u32]" by (simp add: upt_rec)
  show ?thesis using ns_loss_accounting [OF small, of "(0, 0)" 1234 sample_libs "(7, 8)"] unfolding Let_def run lost .
qed

definition sample_received :: ns_receiver where
  "sample_received = nr_receive_all sample_libs (7, 8) [(0, 10, 1), (1, 12, 3)] (NsQuicReceiver (0, 0) 1234)"

definition sample_frame :: quic_ack_frame where
  "sample_frame = fst (GetUpdatedAckFrame (NsQuicClock_Now 15) (nr_recv_packet_manager sample_received))"

lemma sample_frame_packets: "af_packets sample_frame = [(1, 2), (3, 4)]" "af_largest_acked sample_frame = 3"
proof -
  let ?s = "NsQuicReceiver (0, 0) 1234" and ?p = "\<lambda>t n. fake_packet (NsQuicClock_Now t) n"
  have s: "nr_running ?s" "rpm_max_ack_ranges (nr_recv_packet_manager ?s) = 0"
    "af_packets (rpm_ack_frame (nr_recv_packet_manager ?s)) = []" "af_largest_acked (rpm_ack_frame (nr_recv_packet_manager ?s)) = 0"
    by (simp_all add: NsQuicReceiver_def QuicReceivedPacketManager_def QuicAckFrame_def)
  note p1 = receive_packet_frame [OF s(1) _ s(2), of 1 sample_libs 10 "(7, 8)" 0]
  note p2 = receive_packet_frame [OF p1(1) _ p1(2), of 3 sample_libs 12 "(7, 8)" 1]
  have "sample_received = nr_RecvPacket sample_libs 12 (7, 8) (?p 1 3) (nr_RecvPacket sample_libs 10 (7, 8) (?p 0 1) ?s)"
    by (simp add: sample_received_def)
  then show "af_packets sample_frame = [(1, 2), (3, 4)]" "af_largest_acked sample_frame = 3"
    using p1 p2 s by (simp_all add: sample_frame_def GetUpdatedAckFrame_def Let_def limit_intervals_def pnq_Add_def)
qed

lemma sample_frame_untruncated: "ack_untruncated QUIC_VERSION_43 sample_frame (ack_writer 1)"
  by (simp add: ack_eval trunc_div_nonneg sample_frame_packets GetMinSeqLength_def kMaxBufferSize_def)


text \<open>A sent packet manager that keeps the ranges it is told, and one packet that is lost.\<close>

definition sample_manager :: "interval list sent_packet_manager" where
  "sample_manager = \<lparr>spm_OnAckFrameStart = (\<lambda>_ _ _ m. m), spm_OnAckRange = (\<lambda>a b m. m @ [(a, b)]), spm_OnAckFrameEnd = (\<lambda>_ m. (True, m)),
     spm_GetLeastUnacked = (\<lambda>m. 1), spm_TimeUntilSend = (\<lambda>_ m. (0, m)), spm_HasPendingRetransmissions = (\<lambda>m. m \<noteq> []),
     spm_NextPendingRetransmission = (\<lambda>m. (\<lparr>qp_packet_number = fst (hd m), qp_retransmittable_frames = []\<rparr>, m)),
     spm_OnPacketSent = (\<lambda>_ n _ ty m. case ty of LOSS_RETRANSMISSION \<Rightarrow> filter (\<lambda>iv. fst iv \<noteq> n) m | NOT_RETRANSMISSION \<Rightarrow> m),
     spm_BandwidthEstimate = (\<lambda>_. 0)\<rparr>"

theorem ns_ack_exact_witness:
  "\<exists>pkt ivs largest. nr_events (nr_SendAck sample_libs 15 sample_received) = nr_events sample_received @ [AckSent (nr_peer sample_received) pkt] \<and>
    ns_RecvPacket sample_manager sample_libs 18 pkt (NsQuicSender [] 0 (1, 2) 3) =
      Some (ack_processed sample_manager (NsQuicClock_Now 18) largest (received_ack_delay sample_frame) ivs (NsQuicSender [] 0 (1, 2) 3)) \<and>
    (\<Union>iv\<in>set ivs. interval_set iv) = {1, 3} \<and> sorted_wrt (\<lambda>a b. snd b < fst a) ivs \<and> unat largest = 3"
proof -
  let ?as = "[(0, 10, 1), (1, 12, 3)] :: arrival list"
  have img: "(\<lambda>(_, _, seq). unat seq) ` set ?as = {1, 3}" "Max {1, 3 :: nat} = 3" by simp_all
  have as: "?as \<noteq> []" "\<forall>(sent, arrived, seq)\<in>set ?as. unat seq < 2 ^ 48 - 1" by simp_all
  have sender: "ns_running (NsQuicSender [] 0 (1, 2) 3)" "ns_packet_versions (NsQuicSender [] 0 (1, 2) 3) = ns_versions"
    by (simp_all add: NsQuicSender_def)
  show ?thesis
    using ns_ack_exact [OF as sample_received_def sample_frame_def sample_frame_untruncated sender, where spm = sample_manager and ms' = 18]
    unfolding img .
qed

definition burst :: "nat \<Rightarrow> ns_receiver" where
  "burst k = (nr_RecvPacket sample_libs 0 (7, 8) (fake_packet (NsQuicClock_Now 0) 1) ^^ k) (nr_StartApplication 0 (NsQuicReceiver (0, 0) 1234))"

lemma receive_packet_counts:
  fixes s :: ns_receiver and ms ms' :: int and seq :: u64 and libs :: framer_libs and remote :: inet_address
  assumes "nr_running s" "unat seq < 2 ^ 48"
  defines "s' \<equiv> nr_RecvPacket libs ms' remote (fake_packet (NsQuicClock_Now ms) seq) s"
  shows "nr_running s'" "nr_received s' = nr_received s + 1" "nr_heart_timer s' = nr_heart_timer s"
    "nr_num_packets_received_since_last_ack_sent s' =
       (if nr_received s + 1 < 100 \<or> nr_num_packets_received_since_last_ack_sent s + 1 \<ge> 10 then 0
        else nr_num_packets_received_since_last_ack_sent s + 1)"
proof -
  define t where "t = (if nr_first s then s\<lparr>nr_peer := remote, nr_first := False\<rparr> else s)"
  have t: "nr_running t" "nr_received t = nr_received s" "nr_heart_timer t = nr_heart_timer s"
    "nr_num_packets_received_since_last_ack_sent t = nr_num_packets_received_since_last_ack_sent s"
    using assms(1) by (simp_all add: t_def)
  have s': "s' = nr_MaybeSendAck libs ms' (noted ms' 1000 seq (ns_timestamp ms) t)"
    using receive_fake_packet [OF t(1) assms(2), of libs ms' ms] by (simp add: s'_def nr_RecvPacket_def t_def [symmetric] receive_stream_noted)
  note f = noted_fields [of ms' 1000 seq "ns_timestamp ms" t]
  show "nr_running s'" "nr_received s' = nr_received s + 1" "nr_heart_timer s' = nr_heart_timer s"
    by (simp_all add: s' f t)
  show "nr_num_packets_received_since_last_ack_sent s' =
       (if nr_received s + 1 < 100 \<or> nr_num_packets_received_since_last_ack_sent s + 1 \<ge> 10 then 0
        else nr_num_packets_received_since_last_ack_sent s + 1)"
    by (simp add: s' MaybeSendAck_eq f t)
qed

lemma burst_counts:
  assumes "k < 100"
  shows "nr_running (burst k) \<and> nr_received (burst k) = word_of_nat k \<and> nr_heart_timer (burst k) = Some 0 \<and>
    nr_num_packets_received_since_last_ack_sent (burst k) = 0 \<and> nr_reachable sample_libs 0 0 (burst k)"
  using assms
proof (induction k)
  case 0
  show ?case using nr_reachable.start [of 0 sample_libs "(0, 0)" 1234] by (simp add: burst_def) (simp add: nr_StartApplication_def NsQuicReceiver_def)
next
  case (Suc k)
  then have IH: "nr_running (burst k)" "nr_received (burst k) = word_of_nat k" "nr_heart_timer (burst k) = Some 0"
    "nr_num_packets_received_since_last_ack_sent (burst k) = 0" "nr_reachable sample_libs 0 0 (burst k)" by auto
  have step: "burst (Suc k) = nr_RecvPacket sample_libs 0 (7, 8) (fake_packet (NsQuicClock_Now 0) 1) (burst k)" by (simp add: burst_def)
  note f = receive_packet_counts [OF IH(1), of 1 sample_libs 0 "(7, 8)" 0, folded step, simplified]
  have "nr_reachable sample_libs 0 0 (burst (Suc k))"
    using nr_reachable.datagram [OF IH(5), of 0 "(7, 8)" "fake_packet (NsQuicClock_Now 0) 1"] IH(3) by (simp add: step)
  moreover have "1 + word_of_nat k < (100 :: u64)" using Suc.prems by (simp add: word_less_nat_alt unat_word_ariths unat_of_nat take_bit_nat_eq_self)
  ultimately show ?case using f IH by (simp add: add.commute)
qed

theorem ns_ack_delay_bounded_witness:
  "\<exists>s. nr_reachable sample_libs 0 0 s \<and> nr_num_packets_received_since_last_ack_sent s = 1 \<and> (1 :: u64) < 10 \<and> (0 :: int) \<le> 0 + 25"
proof -
  have b: "nr_running (burst 99)" "nr_received (burst 99) = 99" "nr_heart_timer (burst 99) = Some 0"
    "nr_num_packets_received_since_last_ack_sent (burst 99) = 0" "nr_reachable sample_libs 0 0 (burst 99)"
    using burst_counts [of 99] by simp_all
  define s where "s = nr_RecvPacket sample_libs 0 (7, 8) (fake_packet (NsQuicClock_Now 0) 1) (burst 99)"
  note f = receive_packet_counts [OF b(1), of 1 sample_libs 0 "(7, 8)" 0, folded s_def, simplified]
  have r: "nr_reachable sample_libs 0 0 s"
    using nr_reachable.datagram [OF b(5), of 0 "(7, 8)" "fake_packet (NsQuicClock_Now 0) 1"] b(3) by (simp add: s_def)
  have n: "nr_num_packets_received_since_last_ack_sent s = 1" using f b by (simp add: word_le_nat_alt)
  from ns_ack_delay_bounded [OF r f(1)] n have "(1 :: u64) < 10 \<and> (0 :: int) \<le> 0 + 25" by simp
  then show ?thesis using r n by blast
qed

lemma sample_managerD [simp]:
  "spm_TimeUntilSend sample_manager t m = (0, m)" "spm_HasPendingRetransmissions sample_manager m = (m \<noteq> [])"
  "spm_NextPendingRetransmission sample_manager m = (\<lparr>qp_packet_number = fst (hd m), qp_retransmittable_frames = []\<rparr>, m)"
  "spm_OnPacketSent sample_manager i n t LOSS_RETRANSMISSION m = filter (\<lambda>iv. fst iv \<noteq> n) m"
  "spm_OnPacketSent sample_manager i n t NOT_RETRANSMISSION m = m"
  by (simp_all add: sample_manager_def)

definition sample_starting :: "interval list ns_sender" where
  "sample_starting = ns_StartApplication 0 (NsQuicSender [(9, 10)] 0 (1, 2) 3)"

lemma sample_retransmission:
  "ns_SendRetransmission sample_manager now (s\<lparr>ns_manager := [(9, 10)]\<rparr>) =
     Some (ns_OnRetransPacket sample_manager \<lparr>qp_packet_number = 9, qp_retransmittable_frames = []\<rparr> now (s\<lparr>ns_manager := [(9, 10)]\<rparr>))"
proof -
  have "ns_manager (ns_OnRetransPacket sample_manager \<lparr>qp_packet_number = 9, qp_retransmittable_frames = []\<rparr> now (s\<lparr>ns_manager := [(9, 10)]\<rparr>)) = []"
    by (simp add: ns_OnRetransPacket_def ns_SendToNetwork_def Let_def)
  then show ?thesis
    by (subst ns_SendRetransmission.simps, simp add: Let_def) (subst ns_SendRetransmission.simps, simp add: Let_def)
qed

lemma sample_timer:
  "\<exists>s. ns_timer_event sample_manager sample_starting = Some s \<and> ns_seq s = 3 \<and> length (ns_events s) = 2"
proof -
  define s0 where "s0 = ns_RecordRate sample_manager (NsQuicClock_Now 0) (NsQuicSender [(9, 10)] 0 (1, 2) 3)"
  have s0: "s0 = s0\<lparr>ns_manager := [(9, 10)]\<rparr>" "ns_seq s0 = 1" "ns_events s0 = []" "ns_stop_waiting_count s0 = 0"
    by (simp_all add: s0_def ns_RecordRate_def NsQuicSender_def)
  obtain s1 where s1: "ns_SendRetransmission sample_manager (NsQuicClock_Now 0) s0 = Some s1"
    "ns_seq s1 = 2" "length (ns_events s1) = 1" "ns_stop_waiting_count s1 = 0"
    using sample_retransmission [of "NsQuicClock_Now 0" s0] s0
    by (simp add: ns_OnRetransPacket_def ns_SendToNetwork_def Let_def)
  have st: "ns_heart_timer sample_starting = Some 0" "sample_starting\<lparr>ns_heart_timer := None\<rparr> = NsQuicSender [(9, 10)] 0 (1, 2) 3"
    "ns_running (NsQuicSender m 0 (1, 2) 3)" "ns_heart_timer (NsQuicSender m 0 (1, 2) 3) = None" for m :: "interval list"
    by (simp_all add: sample_starting_def ns_StartApplication_def NsQuicSender_def)
  show ?thesis unfolding ns_timer_event_def st(1,2) option.case ns_HeartBeat_def Let_def s0_def [symmetric] s1(1)
    using s1(2-4) by (simp add: st(3,4) ns_SendFakePacket_def ns_OnPacketSent_def ns_SendToNetwork_def Let_def)
qed

theorem ns_numbers_consecutive_witness:
  "\<exists>s. ns_timer_event sample_manager sample_starting = Some s \<and> ns_seq s = 3 \<and> data_numbers (ns_events s) = [1, 2]"
proof -
  obtain s where s: "ns_timer_event sample_manager sample_starting = Some s" "ns_seq s = 3" "length (ns_events s) = 2"
    using sample_timer by blast
  have r: "ns_reachable sample_manager sample_libs s"
    using ns_reachable.timer [OF ns_reachable.start [OF ns_reachable.create] s(1) [unfolded sample_starting_def]] .
  have "[1..<unat (3 :: u64)] = [1, 2]" by (simp add: upt_rec)
  then show ?thesis using ns_numbers_consecutive [OF r] s by simp
qed

section \<open>Retransmission\<close>

lemma OnRetransPacket_fields:
  "ns_seq (ns_OnRetransPacket spm p now s) = ns_seq s + 1"
  "ns_events (ns_OnRetransPacket spm p now s) = ns_events s @ [PacketSent (ns_peer s) (fake_packet now (ns_seq s))]"
  "\<exists>info. ns_manager (ns_OnRetransPacket spm p now s) = spm_OnPacketSent spm info (qp_packet_number p) now LOSS_RETRANSMISSION (ns_manager s)"
  by (auto simp: ns_OnRetransPacket_def ns_SendToNetwork_def Let_def)

text \<open>
  C37. The retransmission loop ends. If every packet sent as a loss retransmission of the pending one
  takes it off the manager's pending packets (counted by \<open>pending\<close>), and asking for the time until
  the next packet adds none, then SendRetransmission returns; it has sent at most one packet per
  pending one, each under a new number, and it stops only when the manager has nothing pending or
  no longer lets a packet out.
\<close>

theorem ns_retransmission_terminates:
  fixes pending :: "'m \<Rightarrow> nat"
  assumes until: "\<And>t m. pending (snd (spm_TimeUntilSend spm t m)) \<le> pending m"
    and retransmitted: "\<And>info t m. spm_HasPendingRetransmissions spm m \<Longrightarrow>
      pending (spm_OnPacketSent spm info (qp_packet_number (fst (spm_NextPendingRetransmission spm m))) t LOSS_RETRANSMISSION
        (snd (spm_NextPendingRetransmission spm m))) < pending m"
  shows "\<exists>s' n m. ns_SendRetransmission spm now s = Some s' \<and> n \<le> pending (ns_manager s) \<and>
    length (ns_events s') = length (ns_events s) + n \<and> ns_seq s' = ns_seq s + word_of_nat n \<and>
    ns_manager s' = snd (spm_TimeUntilSend spm now m) \<and>
    (fst (spm_TimeUntilSend spm now m) \<noteq> 0 \<or> \<not> spm_HasPendingRetransmissions spm (ns_manager s'))"
proof (induction "pending (ns_manager s)" arbitrary: s rule: less_induct)
  case less
  define m where "m = snd (spm_TimeUntilSend spm now (ns_manager s))"
  define p where "p = fst (spm_NextPendingRetransmission spm m)"
  define s1 where "s1 = ns_OnRetransPacket spm p now (s\<lparr>ns_manager := snd (spm_NextPendingRetransmission spm m)\<rparr>)"
  note step = ns_SendRetransmission.simps [of spm now s, unfolded Let_def, folded m_def, folded p_def, simplified, folded s1_def]
  show ?case
  proof (cases "fst (spm_TimeUntilSend spm now (ns_manager s)) = 0 \<and> spm_HasPendingRetransmissions spm m")
    case False
    then show ?thesis using step by (intro exI [of _ "s\<lparr>ns_manager := m\<rparr>"] exI [of _ 0] exI [of _ "ns_manager s"]) (auto simp: m_def)
  next
    case True
    have "pending (ns_manager s1) < pending m"
      using retransmitted True OnRetransPacket_fields(3) [of spm p now "s\<lparr>ns_manager := snd (spm_NextPendingRetransmission spm m)\<rparr>"]
      unfolding s1_def p_def by auto
    then have lt: "pending (ns_manager s1) < pending (ns_manager s)" using until [of now "ns_manager s"] by (simp add: m_def)
    from less [OF this] obtain s' n m' where IH: "ns_SendRetransmission spm now s1 = Some s'" "n \<le> pending (ns_manager s1)"
      "length (ns_events s') = length (ns_events s1) + n" "ns_seq s' = ns_seq s1 + word_of_nat n"
      "ns_manager s' = snd (spm_TimeUntilSend spm now m')"
      "fst (spm_TimeUntilSend spm now m') \<noteq> 0 \<or> \<not> spm_HasPendingRetransmissions spm (ns_manager s')" by blast
    have "length (ns_events s1) = length (ns_events s) + 1" "ns_seq s1 = ns_seq s + 1"
      by (simp_all add: s1_def OnRetransPacket_fields)
    moreover have "ns_SendRetransmission spm now s = Some s'" using step True IH(1) by (simp add: s1_def)
    ultimately show ?thesis using IH(2-6) lt by (intro exI [of _ s'] exI [of _ "Suc n"] exI [of _ m']) simp
  qed
qed

lemma sample_manager_retransmitted: "m \<noteq> [] \<Longrightarrow> length (filter (\<lambda>iv. fst iv \<noteq> fst (hd m)) m) < length m"
  by (cases m) (simp_all add: le_imp_less_Suc)

theorem ns_retransmission_terminates_witness:
  "\<exists>s' n m. ns_SendRetransmission sample_manager 5 (NsQuicSender [(9, 10), (11, 12)] 0 (1, 2) 3) = Some s' \<and> n \<le> 2 \<and>
    length (ns_events s') = n \<and> ns_seq s' = 1 + word_of_nat n \<and> ns_manager s' = [] \<and> m = ns_manager s'"
  using ns_retransmission_terminates [of length sample_manager 5 "NsQuicSender [(9, 10), (11, 12)] 0 (1, 2) 3"]
  by (auto simp: NsQuicSender_def sample_manager_retransmitted)

end
