(* ===== verification/Spec2Isabelle.thy ===== *)
theory Spec2Isabelle
  imports Wire_Properties Framer_Ietf_Ack Packet_Properties Bbr_Properties Pacing_Sender Ns_Properties
begin

text \<open>
  A verification library for the congestion-response experiment: QUIC endpoints that run inside the
  ns-3 simulator (src/quic/model), the delay-constrained BBR congestion controller (src/delay-bbr),
  and the parts of the bundled QUIC library (src/my\_quic\_2/libquic) they stand on.

  \<^bold>\<open>The program.\<close> NsQuicSender and NsQuicReceiver exchange packets over the simulated network. Their
  bytes are written and read by QuicDataWriter and QuicDataReader; the acknowledgements in them by
  MyQuicFramer, which reports what it parses to a visitor, here the sender. The receiver keeps what has
  arrived in a QuicReceivedPacketManager, whose frame holds a PacketNumberQueue. MyBbrSenderV5 decides
  the pacing rate from acknowledgements, with the bandwidth samples of MySampler and a WindowedFilter;
  MyPacingSender turns the rate into times of sending.

  \<^bold>\<open>The theories\<close>, from the bottom up:

  \<^item> Quic\_Prelude: machine types as words, byte images of integers, shared lemmas and the collections
    \<open>wire_simps\<close> and \<open>trunc_simps\<close>. Quic\_Time: QuicTime and QuicBandwidth as integers, with the
    truncating divisions and the rounding of float and double written out.
  \<^item> Quic\_Data\_Writer, Quic\_Data\_Reader (quic\_data\_writer.cc, quic\_data\_reader.cc): one definition per
    operation; \<open>appends\<close> and \<open>reads\<close> are their contracts. Quic\_Codec: the locales \<open>codec\<close> and
    \<open>frame_codec\<close>, a writer and the reader of the same value, with the round trip and the failure on
    a full buffer proved once and interpreted for every frame.
  \<^item> Framer\_Base, Framer\_Frames, Framer\_Ietf, Framer\_Ietf\_Ack, Framer\_Ack, Framer\_Dispatch and
    Framer\_Packet (my\_quic\_framer.cc, in the order of the file): number formats, frames, the ACK frame, the
    frame loop, and packets with their headers and protection. An operation that fails returns the
    message it records. Null\_Crypter (null\_encrypter.cc, null\_decrypter.cc): the protection in use,
    through the locale \<open>packet_protection\<close>.
  \<^item> Packet\_Number\_Queue (quic\_ack\_frame.cc) with the locale \<open>packet_set\<close>, and
    Received\_Packet\_Manager (quic\_received\_packet\_manager.cc) with the locale \<open>received_packets\<close>.
  \<^item> Ns\_Quic\_Header, Ns\_Quic\_Receiver, Ns\_Quic\_Sender (my\_quic\_header.cc, ns\_quic\_time.cc,
    ns\_quic\_receiver.cc, ns\_quic\_sender.cc): the state of an endpoint is a record with the fields of
    the class; handlers take the simulator's time in milliseconds; the timer is the time of its pending
    event; packets and traced values are the list of events. Framer\_Visitor: the locale
    \<open>quiet_visitor\<close>, interpreted on the sender.
  \<^item> Windowed\_Filter, Packet\_Map, Sampler, Bbr\_Sender\_V5 (windowed\_filter.h, sampler.cc,
    bbr\_sender\_v5.cc) and Pacing\_Sender (my\_pacing\_sender.cc over the CongestionController of
    my\_controller\_interface.h). Random numbers are arguments; a division by zero is the result \<open>None\<close>.

  \<^bold>\<open>What is shown.\<close>

  \<^item> Wire formats (Wire\_Properties, Framer\_Ack\_Roundtrip, Framer\_Payload): values and frames are read back as
    they were written; a full buffer is reported and never overrun; truncated packet numbers are
    reconstructed; an ACK frame is reported range by range, and a truncated one with at least one further
    block reports only packets that were received (with none it is misread, \<open>ack_without_count\<close>);
    announced lengths are the lengths written, and upper bounds for ACK frames, except for partial padding on
    the versions up to 37; the frame loop ends on every input and returns false only after reporting an
    error. The IETF ACK parser gives every block the length of the newest one, so that exactly the frames
    with equally long blocks are read back as they were sent.
  \<^item> Packets (Packet\_Roundtrip, Packet\_Properties): what BuildDataPacket and EncryptInPlace produce, the
    peer's ProcessPacket delivers; version negotiation likewise in the format of the public header, while
    the packet of the IETF format is refused; a packet that does not decrypt changes neither the largest
    packet number nor the keys.
  \<^item> Congestion control (Bbr\_Invariants, Bbr\_Properties, Sampler, Windowed\_Filter, Pacing\_Sender): every
    admissible run completes and its bytes in flight are those of the packets sent and not yet
    acknowledged; invariants of every reachable state; the edges of the mode machine; leaving start-up
    and decrease; the floor of the pacing rate; exact bandwidth samples; the packets of a paced sender
    conform to the rate.
  \<^item> The simulation (Ns\_Properties, Received\_Packet\_Manager): acknowledgements end to end are exact and at
    most 25 ms late; losses and delays are traced exactly; packet numbers are consecutive in every
    reachable state of the sender; the retransmission loop ends; the manager's frames are well formed.

  \<^bold>\<open>Bounds.\<close> Integers are words of their C++ width wherever they can wrap, and theorems carry the bounds they
  need: packet numbers below \<open>2 ^ 48\<close> where the wire has six bytes, variable-length integers below
  \<open>2 ^ 62\<close>, at most 255 ACK blocks. Times and bandwidths are integers; their 64-bit overflow is
  undefined in C++ and out of reach of the values computed. No definition of the model has fuel: loops are structural, or
  have a termination proof (every frame consumes a byte; \<open>process_frames_within\<close>, the frame loop with
  a bound on its iterations, only serves to state how many it needs), except NsQuicSender::SendRetransmission, which
  ends only if the sent packet manager cooperates and is a \<open>partial_function\<close> whose \<open>None\<close> is not
  returning; its termination is a theorem under that hypothesis.

  \<^bold>\<open>Parameters.\<close> The ns-3 module is compiled against a QUIC library under net/quic that is not part of the
  sources; where the bundled copy has the same class (reader, writer, ACK frame, received packet
  manager, null crypters) the copy is modelled. The rest is an argument: the record \<open>framer_libs\<close>
  (version labels, default header, handshake messages, address coders, crypters) and the record
  \<open>sent_packet_manager\<close> of the operations NsQuicSender calls.

  \<^bold>\<open>Not modelled.\<close> MyBbrSender and SentClusterInfo, the predecessor of MyBbrSenderV5; the reduced copy of the
  framer under libquic/net; NsQuicTrace, AckFrameVisitor, PrintDebugInfo and all logging, which only write
  output; creating sockets and asking ns-3 for addresses; the experiment script and the plotting scripts;
  debug assertions, which are preconditions of the theorems where they matter; and the remainder of the
  bundled Chromium and QUIC library, which the modelled programs do not call.
\<close>

end
